(* ===== verification/Prelude.thy ===== *)
theory Prelude
  imports Complex_Main
begin

text \<open>
  Shared ground of the development: the exceptions of the Python code as values, the error
  monad that threads them (an exception ends the computation, as \<open>raise\<close> does), ASCII string
  operations (\<open>upper\<close>, \<open>startswith\<close>, \<open>isdigit\<close>), and the generic lemmas on lists that the
  component theories use.
\<close>

named_theorems res_simps \<open>rewriting of computations in the error monad\<close>

subsection \<open>Exceptions and the error monad\<close>

text \<open>
  One constructor per exception class the modelled code raises or catches. The message of a
  \<open>ValueError\<close> is kept, since callers and tests tell the cases apart by it.
\<close>

datatype py_error =
    ValueError string
  | TypeError
  | KeyError string
  | ZeroDivisionError
  | OverflowError
  | InvalidOperation
  | RuntimeError string
  | NotImplementedError string

type_synonym 'a res = "py_error + 'a"

definition bindE :: "'e + 'a \<Rightarrow> ('a \<Rightarrow> 'e + 'b) \<Rightarrow> 'e + 'b" where
  "bindE m f = (case m of Inl e \<Rightarrow> Inl e | Inr x \<Rightarrow> f x)"

lemma bindE_Inl [simp]: "bindE (Inl e) f = Inl e"
  by (simp add: bindE_def)

lemma bindE_Inr [simp]: "bindE (Inr x) f = f x"
  by (simp add: bindE_def)

lemma bindE_eq_Inr [res_simps]: "bindE m f = Inr y \<longleftrightarrow> (\<exists>x. m = Inr x \<and> f x = Inr y)"
  by (cases m) simp_all

lemma bindE_eq_Inl [res_simps]:
  "bindE m f = Inl e \<longleftrightarrow> m = Inl e \<or> (\<exists>x. m = Inr x \<and> f x = Inl e)"
  by (cases m) simp_all

lemma bindE_cong [fundef_cong]:
  "m = m' \<Longrightarrow> (\<And>x. m' = Inr x \<Longrightarrow> f x = f' x) \<Longrightarrow> bindE m f = bindE m' f'"
  by (cases m') simp_all

text \<open>A guard: \<open>if not b: raise e\<close>.\<close>

definition check :: "bool \<Rightarrow> 'e \<Rightarrow> 'e + unit" where
  "check b e = (if b then Inr () else Inl e)"

lemma check_Inr [simp]: "check b e = Inr u \<longleftrightarrow> b"
  by (simp add: check_def)

lemma check_Inl [simp]: "check b e = Inl e' \<longleftrightarrow> \<not> b \<and> e' = e"
  by (auto simp: check_def)

lemma check_True [simp]: "check True e = Inr ()"
  by (simp add: check_def)

lemma check_False [simp]: "check False e = Inl e"
  by (simp add: check_def)

text \<open>A loop that only checks: it stops at the first element that raises.\<close>

fun forE :: "('a \<Rightarrow> 'e + unit) \<Rightarrow> 'a list \<Rightarrow> 'e + unit" where
  "forE f [] = Inr ()"
| "forE f (x # xs) = bindE (f x) (\<lambda>_. forE f xs)"

lemma forE_Inr [res_simps]: "forE f xs = Inr u \<longleftrightarrow> (\<forall>x \<in> set xs. f x = Inr ())"
  by (induction xs) (auto simp: bindE_eq_Inr)

lemma forE_Inl_in: "forE f xs = Inl e \<Longrightarrow> \<exists>x \<in> set xs. f x = Inl e"
  by (induction xs) (auto simp: bindE_eq_Inl)

text \<open>A loop that threads a state through a raising body.\<close>

fun foldE :: "('s \<Rightarrow> 'a \<Rightarrow> 'e + 's) \<Rightarrow> 's \<Rightarrow> 'a list \<Rightarrow> 'e + 's" where
  "foldE f s [] = Inr s"
| "foldE f s (x # xs) = bindE (f s x) (\<lambda>s'. foldE f s' xs)"

lemma foldE_append: "foldE f s (xs @ ys) = bindE (foldE f s xs) (\<lambda>s'. foldE f s' ys)"
  by (induction xs arbitrary: s) (auto simp: bindE_def split: sum.splits)

lemma foldE_invariant:
  assumes "foldE f s xs = Inr s'" and "I s"
    and "\<And>s x s'. x \<in> set xs \<Longrightarrow> I s \<Longrightarrow> f s x = Inr s' \<Longrightarrow> I s'"
  shows "I s'"
  using assms
proof (induction xs arbitrary: s)
  case Nil
  then show ?case by simp
next
  case (Cons x xs)
  from Cons.prems(1) obtain t where t: "f s x = Inr t" "foldE f t xs = Inr s'"
    by (auto simp: bindE_eq_Inr)
  have "I t" using Cons.prems(2,3) t(1) by auto
  with t(2) Cons.IH Cons.prems(3) show ?case by auto
qed

subsection \<open>Strings\<close>

definition is_digit :: "char \<Rightarrow> bool" where
  "is_digit c \<longleftrightarrow> c \<in> set ''0123456789''"

definition is_hex :: "char \<Rightarrow> bool" where
  "is_hex c \<longleftrightarrow> c \<in> set ''0123456789abcdef''"

text \<open>\<open>str.isdigit\<close> on ASCII text: false on the empty string.\<close>

definition str_isdigit :: "string \<Rightarrow> bool" where
  "str_isdigit s \<longleftrightarrow> s \<noteq> [] \<and> list_all is_digit s"

definition upper_char :: "char \<Rightarrow> char" where
  "upper_char c = (let n = of_char c :: nat in if 97 \<le> n \<and> n \<le> 122 then char_of (n - 32) else c)"

definition lower_char :: "char \<Rightarrow> char" where
  "lower_char c = (let n = of_char c :: nat in if 65 \<le> n \<and> n \<le> 90 then char_of (n + 32) else c)"

definition upper :: "string \<Rightarrow> string" where
  "upper s = map upper_char s"

definition lower :: "string \<Rightarrow> string" where
  "lower s = map lower_char s"

lemma upper_char_idem [simp]: "upper_char (upper_char c) = upper_char c"
  by (auto simp: upper_char_def Let_def of_char_of)

lemma upper_idem [simp]: "upper (upper s) = upper s"
  by (simp add: upper_def)

fun startswith :: "string \<Rightarrow> string \<Rightarrow> bool" where
  "startswith s [] = True"
| "startswith [] (p # ps) = False"
| "startswith (c # s) (p # ps) = (c = p \<and> startswith s ps)"

lemma startswith_iff: "startswith s p \<longleftrightarrow> (\<exists>r. s = p @ r)"
  by (induction s p rule: startswith.induct) auto

lemma startswith_append [simp]: "startswith (p @ r) p"
  by (auto simp: startswith_iff)

text \<open>Decimal notation of a natural number, as an f-string prints it.\<close>

fun str_of_nat :: "nat \<Rightarrow> string" where
  "str_of_nat n =
     (if n < 10 then [char_of (48 + n)] else str_of_nat (n div 10) @ [char_of (48 + n mod 10)])"

declare str_of_nat.simps [simp del]

fun nat_of_str :: "nat \<Rightarrow> string \<Rightarrow> nat" where
  "nat_of_str acc [] = acc"
| "nat_of_str acc (c # cs) = nat_of_str (10 * acc + (of_char c - 48)) cs"

lemma nat_of_str_append: "nat_of_str a (xs @ ys) = nat_of_str (nat_of_str a xs) ys"
  by (induction xs arbitrary: a) auto

lemma nat_of_str_of_nat [simp]: "nat_of_str 0 (str_of_nat n) = n"
proof (induction n rule: str_of_nat.induct)
  case (1 n)
  show ?case
    by (cases "n < 10") (use 1 in \<open>auto simp: str_of_nat.simps[of n] nat_of_str_append of_char_of\<close>)
qed

lemma str_of_nat_inject [simp]: "str_of_nat m = str_of_nat n \<longleftrightarrow> m = n"
  by (metis nat_of_str_of_nat)

lemma str_of_nat_not_Nil [simp]: "str_of_nat n \<noteq> []"
  by (simp add: str_of_nat.simps[of n])

lemma is_digit_char_of: assumes "n < 10" shows "is_digit (char_of (48 + n :: nat))"
proof -
  have "list_all (\<lambda>n. is_digit (char_of (48 + n :: nat))) [0..<10]" by code_simp
  then show ?thesis using assms by (simp add: list_all_iff)
qed

lemma list_all_digit_str_of_nat: "list_all is_digit (str_of_nat n)"
proof (induction n rule: str_of_nat.induct)
  case (1 n)
  then show ?case by (auto simp: str_of_nat.simps[of n] is_digit_char_of)
qed

lemma str_isdigit_str_of_nat [simp]: "str_isdigit (str_of_nat n)"
  by (simp add: str_isdigit_def list_all_digit_str_of_nat)

lemma length_str_of_nat: "0 < k \<Longrightarrow> n < 10 ^ k \<Longrightarrow> length (str_of_nat n) \<le> k"
proof (induction n arbitrary: k rule: str_of_nat.induct)
  case (1 n)
  show ?case
  proof (cases "n < 10")
    case True
    then show ?thesis using 1 by (simp add: str_of_nat.simps[of n])
  next
    case False
    then obtain j where k: "k = Suc j" "0 < j" using 1 by (cases k; cases "k - 1") auto
    then have "n div 10 < 10 ^ j" using 1 by (simp add: less_mult_imp_div_less mult.commute)
    then have "length (str_of_nat (n div 10)) \<le> j" using 1 False k by blast
    then show ?thesis using False k by (simp add: str_of_nat.simps[of n])
  qed
qed

subsection \<open>Lists\<close>

text \<open>\<open>min\<close> and \<open>max\<close> of a sequence, as a left fold that keeps the first extreme.\<close>

fun list_min :: "'a :: linorder \<Rightarrow> 'a list \<Rightarrow> 'a" where
  "list_min m [] = m"
| "list_min m (x # xs) = list_min (if x < m then x else m) xs"

fun list_max :: "'a :: linorder \<Rightarrow> 'a list \<Rightarrow> 'a" where
  "list_max m [] = m"
| "list_max m (x # xs) = list_max (if m < x then x else m) xs"

lemma list_min_le_init: "list_min m xs \<le> m"
  by (induction xs arbitrary: m) (auto intro: order_trans less_imp_le)

lemma list_min_le: "x \<in> set xs \<Longrightarrow> list_min m xs \<le> x"
proof (induction xs arbitrary: m)
  case (Cons a xs)
  have "list_min (if a < m then a else m) xs \<le> (if a < m then a else m)" by (rule list_min_le_init)
  with Cons show ?case by (cases "a < m") (auto intro: order_trans)
qed simp

lemma list_min_in: "list_min m xs = m \<or> list_min m xs \<in> set xs"
proof (induction xs arbitrary: m)
  case (Cons a xs)
  from Cons[of "if a < m then a else m"] show ?case by (auto split: if_splits)
qed simp

lemma list_max_ge_init: "m \<le> list_max m xs"
  by (induction xs arbitrary: m) (auto intro: order_trans less_imp_le)

lemma list_max_ge: "x \<in> set xs \<Longrightarrow> x \<le> list_max m xs"
proof (induction xs arbitrary: m)
  case (Cons a xs)
  have "(if m < a then a else m) \<le> list_max (if m < a then a else m) xs" by (rule list_max_ge_init)
  with Cons show ?case by (cases "m < a") (auto intro: order_trans)
qed simp

lemma list_max_in: "list_max m xs = m \<or> list_max m xs \<in> set xs"
proof (induction xs arbitrary: m)
  case (Cons a xs)
  from Cons[of "if m < a then a else m"] show ?case by (auto split: if_splits)
qed simp

lemma filter_eq_singletonD: "filter P xs = [x] \<Longrightarrow> x \<in> set xs \<and> P x"
  by (auto simp: filter_eq_Cons_iff)

end
