(* ===== verification/Order_Ids.thy ===== *)
theory Order_Ids
  imports Prelude
begin

text \<open>
  Order ids derived from an entry attempt (\<open>order_ids.py\<close>): the entry's clientOrderId is 32
  lowercase hex characters, its protective stops are \<open><entry>sN\<close> and its emergency closes
  \<open><entry>cN\<close>. Recovery finds them on the exchange by prefix, so the scheme must be unambiguous:
  a prefix search finds exactly the orders of that entry and kind.
\<close>

definition ORDER_LINK_ID_MAX_LENGTH :: nat where
  "ORDER_LINK_ID_MAX_LENGTH = 36"

definition MAX_SEQUENCE :: int where
  "MAX_SEQUENCE = 999"

text \<open>The regular expression \<open>[0-9a-f]{32}\Z\<close>, matched from the start.\<close>

definition is_entry_client_order_id :: "string \<Rightarrow> bool" where
  "is_entry_client_order_id v \<longleftrightarrow> length v = 32 \<and> list_all is_hex v"

definition derived :: "string \<Rightarrow> string \<Rightarrow> int \<Rightarrow> string res" where
  "derived entry_client_order_id kind seq =
     bindE (check (is_entry_client_order_id entry_client_order_id)
              (ValueError ''entry clientOrderId must be 32 lowercase hex characters'')) (\<lambda>_.
     bindE (check (1 \<le> seq \<and> seq \<le> MAX_SEQUENCE)
              (ValueError ''derived order sequence must be in 1..999'')) (\<lambda>_.
     Inr (entry_client_order_id @ kind @ str_of_nat (nat seq))))"

definition stop_client_order_id :: "string \<Rightarrow> int \<Rightarrow> string res" where
  "stop_client_order_id entry_client_order_id seq = derived entry_client_order_id ''s'' seq"

definition close_client_order_id :: "string \<Rightarrow> int \<Rightarrow> string res" where
  "close_client_order_id entry_client_order_id seq = derived entry_client_order_id ''c'' seq"

definition stop_prefix :: "string \<Rightarrow> string" where
  "stop_prefix entry_client_order_id = entry_client_order_id @ ''s''"

definition close_prefix :: "string \<Rightarrow> string" where
  "close_prefix entry_client_order_id = entry_client_order_id @ ''c''"

lemmas order_id_defs = stop_client_order_id_def close_client_order_id_def stop_prefix_def
  close_prefix_def

subsection \<open>The scheme is unambiguous\<close>

lemma derived_Inr:
  "derived e k n = Inr i \<longleftrightarrow>
     is_entry_client_order_id e \<and> 1 \<le> n \<and> n \<le> 999 \<and> i = e @ k @ str_of_nat (nat n)"
  by (auto simp: derived_def MAX_SEQUENCE_def res_simps)

lemma derived_length:
  assumes "derived e k n = Inr i" "length k = 1" shows "length i \<le> ORDER_LINK_ID_MAX_LENGTH"
proof -
  have "length (str_of_nat (nat n)) \<le> 3"
    using assms(1) length_str_of_nat[of 3 "nat n"] by (auto simp: derived_Inr)
  then show ?thesis
    using assms by (auto simp: derived_Inr is_entry_client_order_id_def ORDER_LINK_ID_MAX_LENGTH_def)
qed

lemma derived_startswith_iff:
  assumes "derived e' k' n = Inr i" "is_entry_client_order_id e" "length k = 1" "length k' = 1"
  shows "startswith i (e @ k) \<longleftrightarrow> e = e' \<and> k = k'"
proof
  assume "startswith i (e @ k)"
  then obtain r where "e' @ k' @ str_of_nat (nat n) = e @ k @ r"
    using assms(1) by (auto simp: startswith_iff derived_Inr)
  moreover have "length e' = length e" "length k' = length k"
    using assms by (auto simp: derived_Inr is_entry_client_order_id_def)
  ultimately show "e = e' \<and> k = k'" by simp
next
  assume "e = e' \<and> k = k'"
  then show "startswith i (e @ k)" using assms(1) by (auto simp: derived_Inr startswith_iff)
qed

lemma entry_not_derived:
  "derived e k n = Inr i \<Longrightarrow> length k = 1 \<Longrightarrow> \<not> is_entry_client_order_id i"
  by (auto simp: derived_Inr is_entry_client_order_id_def)

text \<open>
  C36. A prefix search is exact: among the ids the code derives, those that start with
  \<open>stop_prefix e\<close> are the stops of entry \<open>e\<close> and no others, and those that start with
  \<open>close_prefix e\<close> are its emergency closes and no others.
\<close>

theorem prefix_search_exact:
  assumes "is_entry_client_order_id e"
    and "stop_client_order_id e1 n1 = Inr s" and "close_client_order_id e2 n2 = Inr c"
  shows "(startswith s (stop_prefix e) \<longleftrightarrow> e1 = e) \<and> \<not> startswith s (close_prefix e) \<and>
         (startswith c (close_prefix e) \<longleftrightarrow> e2 = e) \<and> \<not> startswith c (stop_prefix e)"
proof -
  note s = assms(2)[unfolded stop_client_order_id_def]
  note c = assms(3)[unfolded close_client_order_id_def]
  show ?thesis
    using derived_startswith_iff[OF s assms(1), of "''s''"] derived_startswith_iff[OF s assms(1), of "''c''"]
      derived_startswith_iff[OF c assms(1), of "''s''"] derived_startswith_iff[OF c assms(1), of "''c''"]
    by (auto simp: order_id_defs)
qed

text \<open>
  Every derived id fits Bybit's 36-character orderLinkId, is no entry id itself, and names its
  entry, kind and sequence uniquely.
\<close>

theorem derived_ids_unique:
  assumes "derived e1 k1 n1 = Inr i" and "derived e2 k2 n2 = Inr i"
    and "k1 \<in> {''s'', ''c''}" and "k2 \<in> {''s'', ''c''}"
  shows "e1 = e2 \<and> k1 = k2 \<and> n1 = n2 \<and> length i \<le> 36 \<and> \<not> is_entry_client_order_id i"
proof -
  have len: "length k1 = 1" "length k2 = 1" using assms(3,4) by auto
  have e: "is_entry_client_order_id e1" using assms(1) by (simp add: derived_Inr)
  have "startswith i (e1 @ k1)" using assms(1) by (auto simp: derived_Inr startswith_iff)
  then have eq: "e1 = e2 \<and> k1 = k2" using derived_startswith_iff[OF assms(2) e len] by blast
  then have "nat n1 = nat n2" using assms(1,2) by (auto simp: derived_Inr)
  then have "n1 = n2" using assms(1,2) by (auto simp: derived_Inr)
  then show ?thesis
    using eq derived_length[OF assms(1) len(1)] entry_not_derived[OF assms(1) len(1)]
    by (simp add: ORDER_LINK_ID_MAX_LENGTH_def)
qed

text \<open>Witnesses: an entry id of 32 hex characters and its first stop and close.\<close>

definition sample_entry :: string where
  "sample_entry = ''0123456789abcdef0123456789abcdef''"

theorem prefix_search_exact_witness:
  "stop_client_order_id sample_entry 1 = Inr (sample_entry @ ''s1'') \<and>
   close_client_order_id sample_entry 12 = Inr (sample_entry @ ''c12'') \<and>
   startswith (sample_entry @ ''s1'') (stop_prefix sample_entry) \<and>
   \<not> startswith (sample_entry @ ''s1'') (close_prefix sample_entry)"
proof -
  have e: "is_entry_client_order_id sample_entry" by code_simp
  have s: "stop_client_order_id sample_entry 1 = Inr (sample_entry @ ''s1'')" by code_simp
  have c: "close_client_order_id sample_entry 12 = Inr (sample_entry @ ''c12'')" by code_simp
  show ?thesis using prefix_search_exact[OF e s c] s c by simp
qed

theorem derived_ids_unique_witness:
  "derived sample_entry ''c'' 999 = Inr (sample_entry @ ''c999'') \<and>
   length (sample_entry @ ''c999'') \<le> 36 \<and> \<not> is_entry_client_order_id (sample_entry @ ''c999'')"
proof -
  have c: "derived sample_entry ''c'' 999 = Inr (sample_entry @ ''c999'')" by code_simp
  show ?thesis using derived_ids_unique[OF c c] c by simp
qed

end
