(* ===== verification/Py_Num.thy ===== *)
theory Py_Num
  imports Prelude
begin

text \<open>
  Numbers as the Python code has them. \<open>float\<close> is IEEE 754 binary64: a finite value is a
  rational, every arithmetic operation rounds its exact result to 53 bits (ties to even, gradual
  underflow at \<open>2 powi -1074\<close>, overflow to infinity), NaN compares false with everything and
  \<open>/\<close> raises \<open>ZeroDivisionError\<close>. The sign of zero is not kept: nothing modelled here
  observes it. \<open>Decimal\<close> is a rational whose operations round to the 28 digits of the default
  context; construction is exact, and the context's exponent overflow at \<open>10^999999\<close> is not
  modelled. Both roundings are instances of \<open>round_sig\<close> and satisfy the laws of the locale
  \<open>rounding\<close>, from which the component theories draw their monotonicity arguments.
\<close>

named_theorems fl_simps \<open>comparisons and constructors of floats\<close>

subsection \<open>Rounding to a fixed number of significant digits\<close>

text \<open>Round to the nearest integer, ties to even: Python's \<open>round\<close> and the rounding of both
  binary64 arithmetic and the default \<open>decimal\<close> context.\<close>

definition rhe :: "rat \<Rightarrow> int" where
  "rhe x = (let f = \<lfloor>x\<rfloor>; d = x - of_int f
            in if d < 1/2 \<or> (d = 1/2 \<and> even f) then f else f + 1)"

lemma rhe_of_int [simp]: "rhe (of_int n) = n"
  by (simp add: rhe_def)

lemma rhe_bounds: "of_int (rhe x) - 1/2 \<le> x \<and> x \<le> of_int (rhe x) + 1/2"
proof -
  have "of_int \<lfloor>x\<rfloor> \<le> x" "x < of_int \<lfloor>x\<rfloor> + 1" by linarith+
  then show ?thesis unfolding rhe_def Let_def by (simp split: if_split) linarith
qed

lemma rhe_mono: assumes "x \<le> y" shows "rhe x \<le> rhe y"
proof (cases "\<lfloor>x\<rfloor> = \<lfloor>y\<rfloor>")
  case True
  then show ?thesis using assms by (auto simp: rhe_def Let_def)
next
  case False
  with floor_mono[OF assms] have "\<lfloor>x\<rfloor> + 1 \<le> \<lfloor>y\<rfloor>" by simp
  then show ?thesis by (auto simp: rhe_def Let_def)
qed

lemma rhe_minus [simp]: "rhe (- x) = - rhe x"
proof (cases "x = of_int \<lfloor>x\<rfloor>")
  case True
  then obtain n where "x = of_int n" by blast
  moreover have "- of_int n = (of_int (- n) :: rat)" by simp
  ultimately show ?thesis by (metis rhe_of_int)
next
  case False
  have lo: "of_int \<lfloor>x\<rfloor> < x" "x < of_int \<lfloor>x\<rfloor> + 1" using False by (linarith, linarith)
  have fl: "\<lfloor>- x\<rfloor> = - \<lfloor>x\<rfloor> - 1" using lo by (simp add: floor_unique)
  show ?thesis by (auto simp: rhe_def Let_def fl field_simps)
qed

text \<open>The exponent of a non-zero value: \<open>b powi expo b x \<le> |x| < b powi (expo b x + 1)\<close>.\<close>

fun ilog :: "nat \<Rightarrow> nat \<Rightarrow> nat" where
  "ilog b n = (if b \<le> 1 \<or> n < b then 0 else Suc (ilog b (n div b)))"

declare ilog.simps [simp del]

lemma ilog_bounds:
  assumes "1 < b" "0 < n" shows "b ^ ilog b n \<le> n \<and> n < b ^ Suc (ilog b n)"
  using assms
proof (induction b n rule: ilog.induct)
  case (1 b n)
  show ?case
  proof (cases "n < b")
    case True
    then show ?thesis using 1 by (simp add: ilog.simps[of b n])
  next
    case False
    let ?m = "n div b"
    have "0 < ?m" using False 1 by (simp add: div_greater_zero_iff)
    then have IH: "b ^ ilog b ?m \<le> ?m" "?m < b ^ Suc (ilog b ?m)"
      using 1 False by auto
    have eq: "ilog b n = Suc (ilog b ?m)" using False 1 by (simp add: ilog.simps[of b n])
    have "b * b ^ ilog b ?m \<le> b * ?m" using IH by simp
    also have "\<dots> \<le> n" by simp
    finally have lo: "b ^ Suc (ilog b ?m) \<le> n" by simp
    have "n < b * (?m + 1)" using 1 by (simp add: dividend_less_times_div)
    also have "\<dots> \<le> b * b ^ Suc (ilog b ?m)" using IH by (intro mult_le_mono2) simp
    finally show ?thesis using lo eq by simp
  qed
qed

definition expo :: "nat \<Rightarrow> rat \<Rightarrow> int" where
  "expo b x = (let (n, d) = quotient_of \<bar>x\<bar>;
                   k = int (ilog b (nat n)) - int (ilog b (nat d))
               in if of_nat b powi k \<le> \<bar>x\<bar> then k else k - 1)"

lemma expo_bounds:
  assumes "1 < b" "x \<noteq> 0"
  shows "of_nat b powi (expo b x) \<le> \<bar>x\<bar>" "\<bar>x\<bar> < of_nat b powi (expo b x + 1)"
proof -
  obtain n d where nd: "quotient_of \<bar>x\<bar> = (n, d)" by (cases "quotient_of \<bar>x\<bar>")
  have d: "0 < d" using quotient_of_denom_pos[OF nd] .
  have x: "\<bar>x\<bar> = of_int n / of_int d" using quotient_of_div[OF nd] .
  have n: "0 < n" using x d assms by (metis abs_le_zero_iff div_by_0 divide_le_0_iff
      not_less of_int_0_less_iff of_int_le_0_iff zero_less_abs_iff less_le)
  let ?a = "ilog b (nat n)" and ?c = "ilog b (nat d)"
  let ?B = "of_nat b :: rat"
  have B: "1 < ?B" using assms by simp
  have a: "b ^ ?a \<le> nat n" "nat n < b ^ Suc ?a" using ilog_bounds[of b "nat n"] n assms by auto
  have c: "b ^ ?c \<le> nat d" "nat d < b ^ Suc ?c" using ilog_bounds[of b "nat d"] d assms by auto
  have conv: "(of_nat (nat n) :: rat) = of_int n" "(of_nat (nat d) :: rat) = of_int d"
    using n d by simp_all
  have a': "?B ^ ?a \<le> of_int n" "of_int n < ?B ^ Suc ?a"
    using a conv by (metis of_nat_le_iff of_nat_power, metis of_nat_less_iff of_nat_power)
  have c': "?B ^ ?c \<le> of_int d" "of_int d < ?B ^ Suc ?c"
    using c conv by (metis of_nat_le_iff of_nat_power, metis of_nat_less_iff of_nat_power)
  let ?k = "int ?a - int ?c"
  have pk: "?B powi ?k = ?B ^ ?a / ?B ^ ?c" using B by (simp add: power_int_diff)
  have up: "\<bar>x\<bar> < ?B powi (?k + 1)"
  proof -
    have "of_int n / of_int d < ?B ^ Suc ?a / ?B ^ ?c"
      using a' c' d n B by (intro frac_less) auto
    then show ?thesis using B by (simp add: x power_int_add pk mult.commute)
  qed
  have low: "?B powi (?k - 1) \<le> \<bar>x\<bar>"
  proof -
    have "?B ^ ?a / ?B ^ Suc ?c \<le> of_int n / of_int d"
      using a' c' d n B by (intro frac_le) auto
    then show ?thesis using B by (simp add: x power_int_diff pk mult.commute)
  qed
  show "of_nat b powi (expo b x) \<le> \<bar>x\<bar>" "\<bar>x\<bar> < of_nat b powi (expo b x + 1)"
    using up low by (auto simp: expo_def nd Let_def not_le)
qed

text \<open>Round to \<open>p\<close> digits in base \<open>b\<close>, the last digit never below \<open>b powi emin\<close>.\<close>

definition round_sig :: "nat \<Rightarrow> nat \<Rightarrow> int \<Rightarrow> rat \<Rightarrow> rat" where
  "round_sig b p emin x =
     (if x = 0 then 0
      else let e = max emin (expo b x - (int p - 1))
           in of_int (rhe (x / of_nat b powi e)) * of_nat b powi e)"

lemma rnd_at_le_point:
  assumes "(0::rat) < g" "x \<le> of_int m * g" shows "of_int (rhe (x / g)) * g \<le> of_int m * g"
proof -
  have "x / g \<le> of_int m" using assms by (simp add: field_simps)
  from rhe_mono[OF this] have "rhe (x / g) \<le> m" by simp
  then show ?thesis using assms by simp
qed

lemma rnd_at_ge_point:
  assumes "(0::rat) < g" "of_int m * g \<le> x" shows "of_int m * g \<le> of_int (rhe (x / g)) * g"
proof -
  have "of_int m \<le> x / g" using assms by (simp add: field_simps)
  from rhe_mono[OF this] have "m \<le> rhe (x / g)" by simp
  then show ?thesis using assms by simp
qed

lemma round_sig_0 [simp]: "round_sig b p m 0 = 0"
  by (simp add: round_sig_def)

lemma expo_minus [simp]: "expo b (- x) = expo b x"
  by (simp add: expo_def)

lemma round_sig_minus [simp]: "round_sig b p m (- x) = - round_sig b p m x"
  by (simp add: round_sig_def Let_def)

lemma powi_less_cancel:
  assumes "(1::rat) < B" "B powi i < B powi j" shows "i < j"
  using assms by (metis linorder_not_less nless_le power_int_increasing)

lemma expo_mono:
  assumes "1 < b" "0 < x" "x \<le> y" shows "expo b x \<le> expo b y"
proof -
  have "of_nat b powi (expo b x) \<le> x" "y < of_nat b powi (expo b y + 1)"
    using expo_bounds[of b x] expo_bounds[of b y] assms by auto
  then have "(of_nat b :: rat) powi (expo b x) < of_nat b powi (expo b y + 1)" using assms by linarith
  from powi_less_cancel[OF _ this] show ?thesis using assms by simp
qed

lemma powi_on_grid:
  assumes "0 < b" "e \<le> k"
  shows "(of_nat b :: rat) powi k = of_int (int b ^ nat (k - e)) * of_nat b powi e"
proof -
  have "(of_nat b :: rat) powi k = of_nat b powi ((k - e) + e)" by simp
  also have "\<dots> = of_nat b powi (k - e) * of_nat b powi e"
    using assms by (subst power_int_add) auto
  finally show ?thesis using assms by (simp add: power_int_nonneg_exp)
qed

lemma round_sig_pos_mono:
  assumes b: "1 < b" and p: "1 \<le> p" and x: "0 < x" and xy: "x \<le> y"
  shows "round_sig b p emin x \<le> round_sig b p emin y"
proof -
  let ?B = "of_nat b :: rat"
  let ?ex = "max emin (expo b x - (int p - 1))" and ?ey = "max emin (expo b y - (int p - 1))"
  have g: "0 < ?B powi e" for e using b by simp
  have exy: "expo b x \<le> expo b y" by (rule expo_mono[OF b x xy])
  have rx: "round_sig b p emin x = of_int (rhe (x / ?B powi ?ex)) * ?B powi ?ex"
    using x by (simp add: round_sig_def Let_def)
  have ry: "round_sig b p emin y = of_int (rhe (y / ?B powi ?ey)) * ?B powi ?ey"
    using x xy by (simp add: round_sig_def Let_def)
  show ?thesis
  proof (cases "?ex = ?ey")
    case True
    have "rhe (x / ?B powi ?ex) \<le> rhe (y / ?B powi ?ex)"
      using xy g[of ?ex] by (intro rhe_mono divide_right_mono) auto
    then show ?thesis using rx ry True g[of ?ex] by (simp add: mult_right_mono)
  next
    case False
    with exy have lt: "?ex < ?ey" by linarith
    then have ey: "?ey = expo b y - (int p - 1)" and ne: "expo b x < expo b y" by linarith+
    let ?P = "?B powi (expo b y)"
    have "x < ?B powi (expo b x + 1)" using expo_bounds[OF b, of x] x by simp
    also have "\<dots> \<le> ?P" using ne b by (intro power_int_increasing) auto
    finally have "x \<le> ?P" by simp
    moreover have "?P = of_int (int b ^ nat (expo b y - ?ex)) * ?B powi ?ex"
      using b p lt ey by (intro powi_on_grid) auto
    ultimately have 1: "round_sig b p emin x \<le> ?P"
      using rnd_at_le_point[OF g[of ?ex]] rx by metis
    have "?P \<le> y" using expo_bounds[OF b, of y] x xy by simp
    moreover have "?P = of_int (int b ^ nat (expo b y - ?ey)) * ?B powi ?ey"
      using b p ey by (intro powi_on_grid) auto
    ultimately have 2: "?P \<le> round_sig b p emin y"
      using rnd_at_ge_point[OF g[of ?ey]] ry by metis
    from 1 2 show ?thesis by linarith
  qed
qed

lemma round_sig_nonneg:
  assumes "1 < b" "0 \<le> x" shows "0 \<le> round_sig b p emin x"
proof -
  let ?g = "of_nat b powi (max emin (expo b x - (int p - 1))) :: rat"
  have "0 < ?g" using assms by simp
  then have "0 \<le> of_int (rhe (x / ?g)) * ?g"
    using rnd_at_ge_point[of ?g 0 x] assms by simp
  then show ?thesis by (simp add: round_sig_def Let_def)
qed

lemma round_sig_mono:
  assumes b: "1 < b" and p: "1 \<le> p" and xy: "x \<le> y"
  shows "round_sig b p emin x \<le> round_sig b p emin y"
proof -
  consider "0 < x" | "x \<le> 0" "0 \<le> y" | "y < 0" using xy by linarith
  then show ?thesis
  proof cases
    case 1
    then show ?thesis using round_sig_pos_mono[OF b p _ xy] by simp
  next
    case 2
    then have "0 \<le> round_sig b p emin (- x)" "0 \<le> round_sig b p emin y"
      using round_sig_nonneg[OF b, of "- x"] round_sig_nonneg[OF b, of y] by simp_all
    then show ?thesis by simp
  next
    case 3
    then have "round_sig b p emin (- y) \<le> round_sig b p emin (- x)"
      using round_sig_pos_mono[OF b p, of "- y" "- x"] xy by simp
    then show ?thesis by simp
  qed
qed

text \<open>The values the format represents: at most \<open>p\<close> digits above the least exponent.\<close>

definition sig_repr :: "nat \<Rightarrow> nat \<Rightarrow> int \<Rightarrow> rat \<Rightarrow> bool" where
  "sig_repr b p emin x \<longleftrightarrow> (\<exists>m e. x = of_int m * of_nat b powi e \<and> \<bar>m\<bar> \<le> int b ^ p \<and> emin \<le> e)"

lemma round_sig_exact_strict:
  assumes b: "1 < b" and x: "x = of_int m * of_nat b powi e" and m: "\<bar>m\<bar> < int b ^ p" and e: "emin \<le> e"
  shows "round_sig b p emin x = x"
proof (cases "x = 0")
  case False
  let ?B = "of_nat b :: rat"
  let ?g = "max emin (expo b x - (int p - 1))"
  have gpos: "0 < ?B powi k" for k using b by simp
  have "\<bar>x\<bar> = of_int \<bar>m\<bar> * ?B powi e" using x gpos[of e] by (simp add: abs_mult)
  also have "\<dots> < of_int (int b ^ p) * ?B powi e"
    using m gpos[of e] by (intro mult_strict_right_mono) (simp_all only: of_int_less_iff)
  also have "\<dots> = ?B powi (int p + e)" using b by (simp add: power_int_add)
  finally have "?B powi (expo b x) < ?B powi (int p + e)"
    using expo_bounds[OF b False] by linarith
  from powi_less_cancel[OF _ this] have "expo b x < int p + e" using b by simp
  then have le: "?g \<le> e" using e by simp
  let ?M = "m * int b ^ nat (e - ?g)"
  have "?B powi e = of_int (int b ^ nat (e - ?g)) * ?B powi ?g"
    using powi_on_grid[of b ?g e] b le by simp
  then have xM: "x = of_int ?M * ?B powi ?g" unfolding x by (simp only: of_int_mult mult.assoc)
  moreover have "y = a * G \<Longrightarrow> 0 < G \<Longrightarrow> y / G = a" for y a G :: rat by simp
  ultimately have "x / ?B powi ?g = of_int ?M" using gpos by blast
  then have "of_int (rhe (x / ?B powi ?g)) * ?B powi ?g = x" using xM by (simp only: rhe_of_int)
  then show ?thesis using False by (simp only: round_sig_def Let_def if_False)
qed simp

lemma round_sig_exact:
  assumes b: "1 < b" and p: "1 \<le> p" and r: "sig_repr b p emin x"
  shows "round_sig b p emin x = x"
proof -
  obtain m e where x: "x = of_int m * of_nat b powi e" and m: "\<bar>m\<bar> \<le> int b ^ p" and e: "emin \<le> e"
    using r by (auto simp: sig_repr_def)
  show ?thesis
  proof (cases "\<bar>m\<bar> < int b ^ p")
    case True
    then show ?thesis using round_sig_exact_strict[OF b x _ e] by blast
  next
    case False
    with m have am: "\<bar>m\<bar> = int b ^ p" by simp
    obtain q where q: "p = Suc q" using p by (cases p) auto
    let ?m = "sgn m * int b ^ q"
    have "m = sgn m * int b ^ p" using am by (metis sgn_mult_abs)
    also have "\<dots> = ?m * int b" using q by simp
    finally have mm: "m = ?m * int b" .
    have "(of_nat b :: rat) powi (e + 1) = of_nat b powi e * of_nat b"
      using b by (simp add: power_int_add)
    moreover have "x = of_int (?m * int b) * of_nat b powi e" using x mm by metis
    ultimately have x': "x = of_int ?m * of_nat b powi (e + 1)" by (simp only: of_int_mult of_int_of_nat_eq mult_ac)
    have "\<bar>?m\<bar> \<le> int b ^ q" by (cases "m = 0"; cases "0 < m") (auto simp: abs_mult)
    also have "\<dots> < int b ^ p" using b q by simp
    finally show ?thesis using round_sig_exact_strict[OF b x'] e by simp
  qed
qed

lemma sig_repr_round_sig:
  assumes b: "1 < b" and p: "1 \<le> p" shows "sig_repr b p emin (round_sig b p emin x)"
proof (cases "x = 0")
  case True
  then show ?thesis
    unfolding sig_repr_def by (intro exI[of _ 0] exI[of _ emin]) simp
next
  case False
  let ?B = "of_nat b :: rat"
  let ?g = "max emin (expo b x - (int p - 1))"
  let ?m = "rhe (x / ?B powi ?g)"
  have gpos: "0 < ?B powi k" for k using b by simp
  have "\<bar>x\<bar> < ?B powi (expo b x + 1)" by (rule expo_bounds[OF b False])
  also have "\<dots> \<le> ?B powi (int p + ?g)" using b by (intro power_int_increasing) auto
  also have "\<dots> = ?B ^ p * ?B powi ?g" using b by (simp add: power_int_add)
  finally have ax: "\<bar>x\<bar> < ?B ^ p * ?B powi ?g" .
  then have "x \<le> ?B ^ p * ?B powi ?g" "- (?B ^ p) * ?B powi ?g \<le> x" by (simp_all add: abs_less_iff)
  then have "x / ?B powi ?g \<le> of_int (int b ^ p)" "of_int (- (int b ^ p)) \<le> x / ?B powi ?g"
    using gpos[of ?g] by (simp_all add: pos_divide_le_eq pos_le_divide_eq)
  from rhe_mono[OF this(1)] rhe_mono[OF this(2)] have "\<bar>?m\<bar> \<le> int b ^ p"
    by (simp only: rhe_of_int)
  moreover have "round_sig b p emin x = of_int ?m * ?B powi ?g"
    using False by (simp add: round_sig_def Let_def)
  ultimately show ?thesis unfolding sig_repr_def by (metis max.cobounded1)
qed

definition b64 :: "rat \<Rightarrow> rat" where
  "b64 = round_sig 2 53 (- 1074)"

definition dec28 :: "rat \<Rightarrow> rat" where
  "dec28 = round_sig 10 28 (- 1000026)"

subsection \<open>What the arithmetic relies on\<close>

text \<open>A rounding function is monotone, odd and leaves its own results alone.\<close>

locale rounding =
  fixes rnd :: "rat \<Rightarrow> rat"
  assumes mono: "x \<le> y \<Longrightarrow> rnd x \<le> rnd y"
    and minus: "rnd (- x) = - rnd x"
    and idem: "rnd (rnd x) = rnd x"
begin

lemma zero [simp]: "rnd 0 = 0"
  using minus[of 0] by simp

lemma nonneg: "0 \<le> x \<Longrightarrow> 0 \<le> rnd x"
  using mono[of 0 x] by simp

lemma nonpos: "x \<le> 0 \<Longrightarrow> rnd x \<le> 0"
  using mono[of x 0] by simp

lemma le_fixed: "x \<le> y \<Longrightarrow> rnd y = y \<Longrightarrow> rnd x \<le> y"
  using mono[of x y] by simp

lemma ge_fixed: "x \<le> y \<Longrightarrow> rnd x = x \<Longrightarrow> x \<le> rnd y"
  using mono[of x y] by simp

lemma minus_le: "rnd a = a \<Longrightarrow> 0 \<le> c \<Longrightarrow> rnd (a - c) \<le> a"
  by (rule le_fixed) simp_all

lemma add_ge: "rnd a = a \<Longrightarrow> 0 \<le> c \<Longrightarrow> a \<le> rnd (a + c)"
  by (rule ge_fixed) simp_all

lemma minus_fixed: "rnd x = x \<Longrightarrow> rnd (- x) = - x"
  by (simp add: minus)

end

interpretation b64: rounding b64
proof
  show "x \<le> y \<Longrightarrow> b64 x \<le> b64 y" for x y
    unfolding b64_def by (rule round_sig_mono) auto
  show "b64 (- x) = - b64 x" for x
    by (simp add: b64_def)
  show "b64 (b64 x) = b64 x" for x
    unfolding b64_def by (intro round_sig_exact sig_repr_round_sig) auto
qed

interpretation dec28: rounding dec28
proof
  show "x \<le> y \<Longrightarrow> dec28 x \<le> dec28 y" for x y
    unfolding dec28_def by (rule round_sig_mono) auto
  show "dec28 (- x) = - dec28 x" for x
    by (simp add: dec28_def)
  show "dec28 (dec28 x) = dec28 x" for x
    unfolding dec28_def by (intro round_sig_exact sig_repr_round_sig) auto
qed

lemma b64_int: assumes "\<bar>n\<bar> \<le> 2 ^ 53" shows "b64 (of_int n) = of_int n"
  unfolding b64_def
proof (rule round_sig_exact)
  show "sig_repr 2 53 (- 1074) (of_int n)"
    unfolding sig_repr_def using assms by (intro exI[of _ n] exI[of _ 0]) simp
qed auto

lemma rhe_near:
  assumes "\<bar>x - of_int n\<bar> < 1 / 2" shows "rhe x = n"
proof -
  have "of_int (rhe x) - 1 < (of_int n :: rat)" "(of_int n :: rat) < of_int (rhe x) + 1"
    using rhe_bounds[of x] assms[unfolded abs_less_iff] by linarith+
  then have "(of_int (rhe x) :: rat) < of_int (n + 1)" "(of_int n :: rat) < of_int (rhe x + 1)" by simp_all
  then show ?thesis by (simp only: of_int_less_iff)
qed

text \<open>Half a unit in the last place.\<close>

lemma b64_error:
  assumes "\<bar>x\<bar> < 2 powi k" "- 1021 \<le> k" shows "\<bar>b64 x - x\<bar> \<le> 2 powi (k - 54)"
proof (cases "x = 0")
  case False
  let ?e = "max (- 1074) (expo 2 x - 52)" and ?g = "(2 :: rat) powi max (- 1074) (expo 2 x - 52)"
  have "(2 :: rat) powi (expo 2 x) < 2 powi k"
    using expo_bounds(1)[of 2 x] False assms(1) by simp
  then have "expo 2 x < k" using powi_less_cancel[of 2 "expo 2 x" k] by simp
  then have e: "?e \<le> k - 53" using assms(2) by simp
  have g: "0 < ?g" by simp
  have "b64 x = of_int (rhe (x / ?g)) * ?g" using False by (simp add: b64_def round_sig_def Let_def)
  moreover have "\<bar>of_int (rhe (x / ?g)) - x / ?g\<bar> \<le> 1 / 2"
    unfolding abs_le_iff using rhe_bounds[of "x / ?g"] by linarith
  moreover have "\<bar>of_int (rhe (x / ?g)) * ?g - x\<bar> = \<bar>of_int (rhe (x / ?g)) - x / ?g\<bar> * ?g"
    using g by (simp add: abs_mult_pos left_diff_distrib)
  ultimately have "\<bar>b64 x - x\<bar> \<le> 1 / 2 * ?g" using g by (simp add: mult_right_mono)
  then have "\<bar>b64 x - x\<bar> \<le> ?g / 2" by simp
  also have "\<dots> \<le> 2 powi (k - 53) / 2" using e by (intro divide_right_mono power_int_increasing) simp_all
  also have "\<dots> = 2 powi (k - 54)" by (simp add: power_int_diff field_simps)
  finally show ?thesis .
qed simp


text \<open>Amounts with at most 8 decimals and 20 integer digits are exact in \<open>Decimal\<close>.\<close>

lemma dec28_exact:
  assumes "\<bar>n\<bar> \<le> 10 ^ 28" and "k \<le> 1000026"
  shows "dec28 (of_int n / 10 ^ k) = of_int n / 10 ^ k"
  unfolding dec28_def
proof (rule round_sig_exact)
  have "(of_int n / 10 ^ k :: rat) = of_int n * of_nat 10 powi (- int k)"
    by (simp add: power_int_minus divide_inverse)
  then show "sig_repr 10 28 (- 1000026) (of_int n / 10 ^ k)"
    unfolding sig_repr_def using assms by (intro exI[of _ n] exI[of _ "- int k"]) simp
qed auto

text \<open>A fraction whose denominator divides a power of the base is exact: evaluation on literals.\<close>

lemma round_sig_frac:
  assumes b: "1 < b" and p: "1 \<le> p" and d: "0 < d" "d dvd int b ^ k" and k: "emin \<le> - int k"
    and m: "\<bar>m * (int b ^ k div d)\<bar> \<le> int b ^ p"
  shows "round_sig b p emin (of_int m / of_int d) = of_int m / of_int d"
proof (rule round_sig_exact[OF b p])
  obtain q where q: "int b ^ k = d * q" using d(2) by blast
  have "q = int b ^ k div d" using q d(1) by simp
  have q0: "q \<noteq> 0" using q b by auto
  have "(of_int m / of_int d :: rat) = of_int (m * q) / of_int (d * q)" using q0 by simp
  also have "\<dots> = of_int (m * q) * of_nat b powi (- int k)"
    using q by (simp add: power_int_minus divide_inverse flip: q)
  finally show "sig_repr b p emin (of_int m / of_int d)"
    unfolding sig_repr_def using k m \<open>q = int b ^ k div d\<close>
    by (intro exI[of _ "m * q"] exI[of _ "- int k"]) simp
qed

lemma b64_frac: "0 < d \<Longrightarrow> d dvd 2 ^ 20 \<Longrightarrow> \<bar>m\<bar> \<le> 2 ^ 33 \<Longrightarrow> b64 (of_int m / of_int d) = of_int m / of_int d"
  unfolding b64_def
proof (rule round_sig_frac[where k = 20])
  assume d: "0 < d" "d dvd 2 ^ 20" and m: "\<bar>m\<bar> \<le> 2 ^ 33"
  have "2 ^ 20 div d \<le> 2 ^ 20" using d zdiv_mono2[of "2 ^ 20" 1 d] by simp
  moreover have "0 \<le> 2 ^ 20 div d" using d by (simp add: pos_imp_zdiv_nonneg_iff)
  ultimately have "\<bar>m\<bar> * (2 ^ 20 div d) \<le> 2 ^ 33 * 2 ^ 20" using m by (intro mult_mono) auto
  then show "\<bar>m * (int 2 ^ 20 div d)\<bar> \<le> int 2 ^ 53"
    using \<open>0 \<le> 2 ^ 20 div d\<close> by (simp add: abs_mult)
qed auto

lemma dec28_frac: "0 < d \<Longrightarrow> d dvd 10 ^ 14 \<Longrightarrow> \<bar>m\<bar> \<le> 10 ^ 14 \<Longrightarrow> dec28 (of_int m / of_int d) = of_int m / of_int d"
  unfolding dec28_def
proof (rule round_sig_frac[where k = 14])
  assume d: "0 < d" "d dvd 10 ^ 14" and m: "\<bar>m\<bar> \<le> 10 ^ 14"
  have "10 ^ 14 div d \<le> 10 ^ 14" using d zdiv_mono2[of "10 ^ 14" 1 d] by simp
  moreover have "0 \<le> 10 ^ 14 div d" using d by (simp add: pos_imp_zdiv_nonneg_iff)
  ultimately have "\<bar>m\<bar> * (10 ^ 14 div d) \<le> 10 ^ 14 * 10 ^ 14" using m by (intro mult_mono) auto
  then show "\<bar>m * (int 10 ^ 14 div d)\<bar> \<le> int 10 ^ 28"
    using \<open>0 \<le> 10 ^ 14 div d\<close> by (simp add: abs_mult)
qed auto

text \<open>Evaluation takes the short way on such fractions.\<close>

lemma dec28_code [code]:
  "dec28 x = (case quotient_of x of (n, d) \<Rightarrow>
     if d dvd 10 ^ 14 \<and> \<bar>n\<bar> \<le> 10 ^ 14 then x else round_sig 10 28 (- 1000026) x)"
proof -
  obtain n d where q: "quotient_of x = (n, d)" by force
  have "x = of_int n / of_int d" "0 < d" using quotient_of_div[OF q] quotient_of_denom_pos[OF q] by auto
  then show ?thesis using dec28_frac[of d n] q by (auto simp: dec28_def)
qed

lemma b64_code [code]:
  "b64 x = (case quotient_of x of (n, d) \<Rightarrow>
     if d dvd 2 ^ 20 \<and> \<bar>n\<bar> \<le> 2 ^ 33 then x else round_sig 2 53 (- 1074) x)"
proof -
  obtain n d where q: "quotient_of x = (n, d)" by force
  have "x = of_int n / of_int d" "0 < d" using quotient_of_div[OF q] quotient_of_denom_pos[OF q] by auto
  then show ?thesis using b64_frac[of d n] q by (auto simp: b64_def)
qed

lemma dec28_numeral [simp]: "(numeral m :: int) \<le> 10 ^ 14 \<Longrightarrow> dec28 (numeral m) = numeral m"
  using dec28_frac[of 1 "numeral m"] by simp

lemma dec28_one [simp]: "dec28 1 = 1"
  using dec28_frac[of 1 1] by simp

lemma dec28_numeral_frac [simp]:
  "(numeral m :: int) \<le> 10 ^ 14 \<Longrightarrow> (numeral d :: int) dvd 10 ^ 14 \<Longrightarrow>
     dec28 (numeral m / numeral d) = numeral m / numeral d"
  using dec28_frac[of "numeral d" "numeral m"] by simp

lemma dec28_one_frac [simp]: "(numeral d :: int) dvd 10 ^ 14 \<Longrightarrow> dec28 (1 / numeral d) = 1 / numeral d"
  using dec28_frac[of "numeral d" 1] by simp

lemmas dec28_uminus [simp] = dec28.minus

subsection \<open>Floats\<close>

datatype pyfloat = Fin rat | PInf | NInf | NaN

text \<open>The overflow threshold \<open>2 ^ 1024\<close>, written out so that evaluation compares numerals.\<close>

definition float_limit :: rat where
  "float_limit =
    179769313486231590772930519078902473361797697894230657273430081157732675805500963132708477322407536021120113879871393357658789768814416622492847430639474124377767893424865485276302219601246094119453082952085005768838150682342462881473913110540827237163350510684586298239947245938479716304835356329624224137216"

lemma float_limit_eq: "float_limit = 2 ^ 1024"
  by (simp add: float_limit_def)

lemma float_limit_large [simp]: "2 ^ 53 < float_limit" "0 < float_limit"
  by (simp_all add: float_limit_def)

definition fl :: "rat \<Rightarrow> pyfloat" where
  "fl x = (let r = b64 x in if float_limit \<le> r then PInf else if r \<le> - float_limit then NInf else Fin r)"

text \<open>\<open>math.isfinite\<close>.\<close>

fun isfinite :: "pyfloat \<Rightarrow> bool" where
  "isfinite (Fin x) = True"
| "isfinite _ = False"

fun fneg :: "pyfloat \<Rightarrow> pyfloat" where
  "fneg (Fin x) = Fin (- x)"
| "fneg PInf = NInf"
| "fneg NInf = PInf"
| "fneg NaN = NaN"

fun fabs :: "pyfloat \<Rightarrow> pyfloat" where
  "fabs (Fin x) = Fin \<bar>x\<bar>"
| "fabs NaN = NaN"
| "fabs _ = PInf"

fun fadd :: "pyfloat \<Rightarrow> pyfloat \<Rightarrow> pyfloat" where
  "fadd (Fin x) (Fin y) = fl (x + y)"
| "fadd NaN _ = NaN"
| "fadd _ NaN = NaN"
| "fadd PInf NInf = NaN"
| "fadd NInf PInf = NaN"
| "fadd PInf _ = PInf"
| "fadd NInf _ = NInf"
| "fadd (Fin _) y = y"

definition fsub :: "pyfloat \<Rightarrow> pyfloat \<Rightarrow> pyfloat" where
  "fsub x y = fadd x (fneg y)"

text \<open>The product or quotient of an infinity and a value with sign \<open>s\<close>.\<close>

definition inf_sgn :: "rat \<Rightarrow> pyfloat" where
  "inf_sgn s = (if 0 < s then PInf else if s < 0 then NInf else NaN)"

fun fmul :: "pyfloat \<Rightarrow> pyfloat \<Rightarrow> pyfloat" where
  "fmul (Fin x) (Fin y) = fl (x * y)"
| "fmul NaN _ = NaN"
| "fmul _ NaN = NaN"
| "fmul PInf (Fin y) = inf_sgn y"
| "fmul NInf (Fin y) = inf_sgn (- y)"
| "fmul (Fin x) PInf = inf_sgn x"
| "fmul (Fin x) NInf = inf_sgn (- x)"
| "fmul PInf PInf = PInf"
| "fmul NInf NInf = PInf"
| "fmul PInf NInf = NInf"
| "fmul NInf PInf = NInf"

fun fdiv :: "pyfloat \<Rightarrow> pyfloat \<Rightarrow> pyfloat res" where
  "fdiv (Fin x) (Fin y) = (if y = 0 then Inl ZeroDivisionError else Inr (fl (x / y)))"
| "fdiv NaN (Fin y) = (if y = 0 then Inl ZeroDivisionError else Inr NaN)"
| "fdiv PInf (Fin y) = (if y = 0 then Inl ZeroDivisionError else Inr (inf_sgn y))"
| "fdiv NInf (Fin y) = (if y = 0 then Inl ZeroDivisionError else Inr (inf_sgn (- y)))"
| "fdiv (Fin x) PInf = Inr (Fin 0)"
| "fdiv (Fin x) NInf = Inr (Fin 0)"
| "fdiv _ _ = Inr NaN"

text \<open>Comparisons: false when either side is NaN.\<close>

fun flt :: "pyfloat \<Rightarrow> pyfloat \<Rightarrow> bool" where
  "flt (Fin x) (Fin y) = (x < y)"
| "flt NaN _ = False"
| "flt _ NaN = False"
| "flt PInf _ = False"
| "flt NInf y = (y \<noteq> NInf)"
| "flt (Fin _) y = (y = PInf)"

fun feq :: "pyfloat \<Rightarrow> pyfloat \<Rightarrow> bool" where
  "feq NaN _ = False"
| "feq x y = (x = y)"

definition fle :: "pyfloat \<Rightarrow> pyfloat \<Rightarrow> bool" where
  "fle x y \<longleftrightarrow> flt x y \<or> feq x y"

text \<open>Python's two-argument \<open>min\<close> and \<open>max\<close> keep the first argument unless the second is
  strictly smaller (larger).\<close>

definition fmin :: "pyfloat \<Rightarrow> pyfloat \<Rightarrow> pyfloat" where
  "fmin x y = (if flt y x then y else x)"

definition fmax :: "pyfloat \<Rightarrow> pyfloat \<Rightarrow> pyfloat" where
  "fmax x y = (if flt x y then y else x)"

text \<open>\<open>round(x, n)\<close> of a finite float: the float nearest to the decimal rounding.\<close>

fun fround :: "nat \<Rightarrow> pyfloat \<Rightarrow> pyfloat" where
  "fround n (Fin x) = fl (of_int (rhe (x * 10 ^ n)) / 10 ^ n)"
| "fround n y = y"

text \<open>A float that arithmetic can produce: a finite one is representable.\<close>

fun is_float :: "pyfloat \<Rightarrow> bool" where
  "is_float (Fin x) = (b64 x = x \<and> \<bar>x\<bar> < float_limit)"
| "is_float _ = True"

lemma fle_Fin [simp, fl_simps]: "fle (Fin x) (Fin y) \<longleftrightarrow> x \<le> y"
  by (auto simp: fle_def)

lemma fle_NaN [simp]: "\<not> fle NaN y" "\<not> fle x NaN"
  by (cases x; simp add: fle_def)+

lemma fle_refl [simp]: "x \<noteq> NaN \<Longrightarrow> fle x x"
  by (cases x) (auto simp: fle_def)

lemma fle_inf [simp]: "x \<noteq> NaN \<Longrightarrow> fle x PInf" "x \<noteq> NaN \<Longrightarrow> fle NInf x"
  by (cases x; simp add: fle_def)+

lemma fle_PInf_left [simp]: "fle PInf y \<longleftrightarrow> y = PInf"
  by (cases y) (auto simp: fle_def)

lemma fle_NInf_right [simp]: "fle x NInf \<longleftrightarrow> x = NInf"
  by (cases x) (auto simp: fle_def)

lemma fle_trans: "fle x y \<Longrightarrow> fle y z \<Longrightarrow> fle x z"
  by (cases x; cases y; cases z) (auto simp: fle_def)

lemma flt_imp_fle: "flt x y \<Longrightarrow> fle x y"
  by (simp add: fle_def)

lemma fle_flt_trans: "fle x y \<Longrightarrow> flt y z \<Longrightarrow> flt x z"
  by (cases x; cases y; cases z) (auto simp: fle_def)

lemma not_flt: "x \<noteq> NaN \<Longrightarrow> y \<noteq> NaN \<Longrightarrow> \<not> flt x y \<longleftrightarrow> fle y x"
  by (cases x; cases y) (auto simp: fle_def)

lemma isfinite_iff: "isfinite x \<longleftrightarrow> (\<exists>r. x = Fin r)"
  by (cases x) auto

lemma fl_not_NaN [simp]: "fl x \<noteq> NaN"
  by (simp add: fl_def Let_def)

lemma is_float_fl [simp]: "is_float (fl x)"
  by (auto simp: fl_def Let_def b64.idem abs_less_iff not_le)

lemma is_float_fneg [simp]: "is_float x \<Longrightarrow> is_float (fneg x)"
  by (cases x) (auto simp: b64.minus)

lemma is_float_fadd: "is_float x \<Longrightarrow> is_float y \<Longrightarrow> is_float (fadd x y)"
  by (cases x; cases y) auto

lemma is_float_fmul [simp]: "is_float (fmul x y)"
  by (cases x; cases y) (auto simp: inf_sgn_def)

lemma fl_fixed: "is_float (Fin x) \<Longrightarrow> fl x = Fin x"
  by (auto simp: fl_def Let_def)

lemma fl_mono: assumes "x \<le> y" shows "fle (fl x) (fl y)"
  using b64.mono[OF assms] by (auto simp: fl_def Let_def fle_def)

lemma fl_0 [simp]: "fl 0 = Fin 0"
  using float_limit_large by (simp add: fl_def not_le)

lemma fl_nonneg: "0 \<le> x \<Longrightarrow> fle (Fin 0) (fl x)"
  using fl_mono[of 0 x] by simp

lemma fl_nonpos: "x \<le> 0 \<Longrightarrow> fle (fl x) (Fin 0)"
  using fl_mono[of x 0] by simp

lemma fl_int: "\<bar>n\<bar> \<le> 2 ^ 53 \<Longrightarrow> fl (of_int n) = Fin (of_int n)"
proof -
  assume n: "\<bar>n\<bar> \<le> 2 ^ 53"
  then have "\<bar>of_int n :: rat\<bar> \<le> of_int (2 ^ 53)" by (metis of_int_abs of_int_le_iff)
  then have "\<bar>of_int n :: rat\<bar> < float_limit" using float_limit_large by simp
  then show ?thesis using b64_int[OF n] by (auto simp: fl_def Let_def abs_less_iff)
qed

lemma fl_frac:
  assumes "0 < d" "d dvd 2 ^ 20" "\<bar>m\<bar> \<le> 2 ^ 33"
  shows "fl (of_int m / of_int d) = Fin (of_int m / of_int d)"
proof -
  have "\<bar>of_int m / of_int d :: rat\<bar> \<le> \<bar>of_int m\<bar>"
    using assms(1) by (simp add: abs_divide divide_le_eq mult_le_cancel_left1)
  also have "\<dots> \<le> of_int (2 ^ 33)" using assms(3) by (metis of_int_abs of_int_le_iff)
  finally have "\<bar>of_int m / of_int d :: rat\<bar> < float_limit" using float_limit_large by simp
  then show ?thesis using b64_frac[OF assms] by (intro fl_fixed) simp
qed

lemma fl_numeral [simp]: "(numeral m :: int) \<le> 2 ^ 33 \<Longrightarrow> fl (numeral m) = Fin (numeral m)"
  using fl_frac[of 1 "numeral m"] by simp

lemma fl_neg_numeral [simp]: "(numeral m :: int) \<le> 2 ^ 33 \<Longrightarrow> fl (- numeral m) = Fin (- numeral m)"
  using fl_frac[of 1 "- numeral m"] by simp

lemma fl_one [simp]: "fl 1 = Fin 1" "fl (- 1) = Fin (- 1)"
  using fl_frac[of 1 1] fl_frac[of 1 "- 1"] by simp_all

lemma fl_numeral_frac [simp]:
  "(numeral m :: int) \<le> 2 ^ 33 \<Longrightarrow> (numeral d :: int) dvd 2 ^ 20 \<Longrightarrow>
     fl (numeral m / numeral d) = Fin (numeral m / numeral d)"
  using fl_frac[of "numeral d" "numeral m"] by simp

lemma fl_neg_numeral_frac [simp]:
  "(numeral m :: int) \<le> 2 ^ 33 \<Longrightarrow> (numeral d :: int) dvd 2 ^ 20 \<Longrightarrow>
     fl (- (numeral m / numeral d)) = Fin (- (numeral m / numeral d))"
  using fl_frac[of "numeral d" "- numeral m"] by simp

lemma fl_one_frac [simp]: "(numeral d :: int) dvd 2 ^ 20 \<Longrightarrow> fl (1 / numeral d) = Fin (1 / numeral d)"
  using fl_frac[of "numeral d" 1] by simp

text \<open>Monotone operations.\<close>

lemma fadd_mono: "fle x y \<Longrightarrow> fle (fadd x (Fin c)) (fadd y (Fin c))"
  by (cases x; cases y) (auto simp: fl_mono)

lemma fsub_antimono: "fle x y \<Longrightarrow> fle (fsub (Fin c) y) (fsub (Fin c) x)"
  by (cases x; cases y) (auto simp: fsub_def fl_mono)

lemma fmul_mono_nonneg: "fle x y \<Longrightarrow> 0 < c \<Longrightarrow> fle (fmul x (Fin c)) (fmul y (Fin c))"
  by (cases x; cases y) (auto simp: fl_mono mult_right_mono inf_sgn_def)

lemma fdiv_mono_pos:
  "fle x y \<Longrightarrow> 0 < c \<Longrightarrow> fdiv x (Fin c) = Inr u \<Longrightarrow> fdiv y (Fin c) = Inr v \<Longrightarrow> fle u v"
  by (cases x; cases y) (auto simp: fl_mono divide_right_mono inf_sgn_def)

text \<open>Subtracting a non-negative amount never increases a float.\<close>

lemma fsub_le: assumes "is_float a" "isfinite a" "fle (Fin 0) c" shows "fle (fsub a c) a"
proof -
  obtain x where a: "a = Fin x" using assms(2) by (cases a) auto
  show ?thesis
  proof (cases c)
    case (Fin y)
    then have "fle (fl (x - y)) (fl x)" using assms(3) by (intro fl_mono) simp
    then show ?thesis using a Fin assms(1) fl_fixed[of x] by (simp add: fsub_def)
  qed (use assms a in \<open>auto simp: fsub_def\<close>)
qed

lemma fadd_ge: assumes "is_float a" "isfinite a" "fle (Fin 0) c" shows "fle a (fadd a c)"
proof -
  obtain x where a: "a = Fin x" using assms(2) by (cases a) auto
  show ?thesis
  proof (cases c)
    case (Fin y)
    then have "fle (fl x) (fl (x + y))" using assms(3) by (intro fl_mono) simp
    then show ?thesis using a Fin assms(1) fl_fixed[of x] by simp
  qed (use assms a in auto)
qed

subsection \<open>Decimals\<close>

type_synonym decimal = rat

definition dadd :: "decimal \<Rightarrow> decimal \<Rightarrow> decimal" where
  "dadd x y = dec28 (x + y)"

definition dsub :: "decimal \<Rightarrow> decimal \<Rightarrow> decimal" where
  "dsub x y = dec28 (x - y)"

definition dmul :: "decimal \<Rightarrow> decimal \<Rightarrow> decimal" where
  "dmul x y = dec28 (x * y)"

definition ddiv :: "decimal \<Rightarrow> decimal \<Rightarrow> decimal res" where
  "ddiv x y = (if y = 0 then Inl ZeroDivisionError else Inr (dec28 (x / y)))"

definition dneg :: "decimal \<Rightarrow> decimal" where
  "dneg x = dec28 (- x)"

definition dabs :: "decimal \<Rightarrow> decimal" where
  "dabs x = dec28 \<bar>x\<bar>"

text \<open>\<open>sum(xs, Decimal(0))\<close>: additions from the left, each rounded.\<close>

definition dsum :: "decimal list \<Rightarrow> decimal" where
  "dsum xs = foldl dadd 0 xs"

lemma dsum_Nil [simp]: "dsum [] = 0"
  by (simp add: dsum_def)

lemma foldl_dadd_nonneg: "0 \<le> a \<Longrightarrow> (\<And>x. x \<in> set xs \<Longrightarrow> 0 \<le> x) \<Longrightarrow> 0 \<le> foldl dadd a xs"
  by (induction xs arbitrary: a) (auto simp: dadd_def dec28.nonneg)

lemma dsum_nonneg: "(\<And>x. x \<in> set xs \<Longrightarrow> 0 \<le> x) \<Longrightarrow> 0 \<le> dsum xs"
  by (simp add: dsum_def foldl_dadd_nonneg)

lemma dec28_dadd [simp]: "dec28 (dadd x y) = dadd x y"
  by (simp add: dadd_def dec28.idem)

lemma dec28_dsub [simp]: "dec28 (dsub x y) = dsub x y"
  by (simp add: dsub_def dec28.idem)

lemma dec28_dmul [simp]: "dec28 (dmul x y) = dmul x y"
  by (simp add: dmul_def dec28.idem)

text \<open>
  Exact sums: quantities that are multiples of \<open>10^-k\<close> and small enough add up without rounding,
  so the left-to-right sum is the mathematical one.
\<close>

definition on_scale :: "nat \<Rightarrow> decimal \<Rightarrow> bool" where
  "on_scale k x \<longleftrightarrow> (\<exists>n::int. x = of_int n / 10 ^ k)"

lemma on_scale_add: "on_scale k x \<Longrightarrow> on_scale k y \<Longrightarrow> on_scale k (x + y)"
  unfolding on_scale_def by (metis add_divide_distrib of_int_add)

lemma dec28_on_scale:
  assumes "on_scale k x" "\<bar>x\<bar> \<le> 10 ^ (28 - k)" "k \<le> 28" shows "dec28 x = x"
proof -
  obtain n where n: "x = of_int n / 10 ^ k" using assms(1) by (auto simp: on_scale_def)
  have "\<bar>of_int n :: rat\<bar> = \<bar>x\<bar> * 10 ^ k" by (simp add: n abs_divide)
  also have "\<dots> \<le> 10 ^ (28 - k) * 10 ^ k" using assms(2) by (intro mult_right_mono) simp_all
  also have "\<dots> = 10 ^ 28" using assms(3) by (simp flip: power_add)
  finally have "(of_int \<bar>n\<bar> :: rat) \<le> of_int (10 ^ 28)" by simp
  then have "\<bar>n\<bar> \<le> 10 ^ 28" by (simp only: of_int_le_iff)
  then show ?thesis using dec28_exact[of n k] assms(3) n by simp
qed

lemma foldl_dadd_exact:
  assumes "k \<le> 28" "on_scale k a" "0 \<le> a"
    and "\<And>x. x \<in> set xs \<Longrightarrow> on_scale k x \<and> 0 \<le> x"
    and "a + sum_list xs \<le> 10 ^ (28 - k)"
  shows "foldl dadd a xs = a + sum_list xs"
  using assms
proof (induction xs arbitrary: a)
  case (Cons x xs)
  have nn: "0 \<le> sum_list xs" using Cons.prems(4) by (intro sum_list_nonneg) auto
  have ax: "on_scale k (a + x)" "0 \<le> a + x" using Cons.prems on_scale_add by auto
  have "dadd a x = a + x"
    unfolding dadd_def using Cons.prems(1,5) ax nn by (intro dec28_on_scale[of k]) auto
  then show ?case using Cons.IH[of "a + x"] Cons.prems ax by (simp add: add.assoc)
qed simp

lemma dsum_exact:
  assumes "k \<le> 28" and "\<And>x. x \<in> set xs \<Longrightarrow> on_scale k x \<and> 0 \<le> x"
    and "sum_list xs \<le> 10 ^ (28 - k)"
  shows "dsum xs = sum_list xs"
  unfolding dsum_def using foldl_dadd_exact[of k 0 xs] assms
  by (simp add: on_scale_def exI[of _ 0])

end
