(* ===== verification/Py_Value.thy ===== *)
theory Py_Value
  imports Py_Num
begin

text \<open>
  Dynamically typed values: what \<open>json.loads\<close> returns and what the exchange client's payloads
  hold. \<open>float(v)\<close> and \<open>Decimal(str(v))\<close> are modelled on all of them, strings included: an
  ASCII number literal with optional sign, fraction, exponent and digit-grouping underscores, or
  one of the words for infinity and NaN. Strings are ASCII; a JSON text is identified with the value
  it denotes, so that \<open>dumps\<close> and \<open>loads\<close> are inverse.
\<close>

datatype pyval =
    PNone
  | PBool bool
  | PInt int
  | PFloat pyfloat
  | PStr string
  | PList "pyval list"
  | PDict "(string \<times> pyval) list"

text \<open>\<open>d.get(key)\<close>: a missing key reads as \<open>None\<close>.\<close>

definition py_get :: "(string \<times> pyval) list \<Rightarrow> string \<Rightarrow> pyval" where
  "py_get d k = (case map_of d k of None \<Rightarrow> PNone | Some v \<Rightarrow> v)"

subsection \<open>Number literals\<close>

fun take_digits :: "bool \<Rightarrow> string \<Rightarrow> string \<times> string" where
  "take_digits prev [] = ([], [])"
| "take_digits prev (c # cs) =
     (if is_digit c then (case take_digits True cs of (ds, r) \<Rightarrow> (c # ds, r))
      else if prev \<and> c = CHR ''_'' \<and> cs \<noteq> [] \<and> is_digit (hd cs) then take_digits False cs
      else ([], c # cs))"

fun take_sign :: "string \<Rightarrow> bool \<times> string" where
  "take_sign (c # cs) =
     (if c = CHR ''-'' then (True, cs) else if c = CHR ''+'' then (False, cs) else (False, c # cs))"
| "take_sign [] = (False, [])"

definition is_space :: "char \<Rightarrow> bool" where
  "is_space c \<longleftrightarrow> of_char c \<in> {9, 10, 11, 12, 13, 32 :: nat}"

definition strip :: "string \<Rightarrow> string" where
  "strip s = rev (dropWhile is_space (rev (dropWhile is_space s)))"

text \<open>The exponent part: nothing, or \<open>e\<close>, an optional sign and at least one digit.\<close>

definition take_exponent :: "string \<Rightarrow> int option" where
  "take_exponent s =
     (case s of
        [] \<Rightarrow> Some 0
      | c # cs \<Rightarrow>
          if lower_char c = CHR ''e''
          then (case take_sign cs of (neg, r) \<Rightarrow>
                (case take_digits False r of (ds, rest) \<Rightarrow>
                   if ds \<noteq> [] \<and> rest = []
                   then Some (if neg then - int (nat_of_str 0 ds) else int (nat_of_str 0 ds))
                   else None))
          else None)"

datatype number = Num rat | Infinite bool | NotANumber

definition parse_unsigned :: "string \<Rightarrow> rat option" where
  "parse_unsigned s =
     (case take_digits False s of (ip, r1) \<Rightarrow>
        (case (case r1 of CHR ''.'' # r \<Rightarrow> take_digits False r | _ \<Rightarrow> ([], r1)) of (fp, r2) \<Rightarrow>
           if ip = [] \<and> fp = [] then None
           else map_option (\<lambda>e. of_nat (nat_of_str 0 (ip @ fp)) * 10 powi (e - int (length fp)))
                  (take_exponent r2)))"

definition parse_number :: "string \<Rightarrow> number option" where
  "parse_number text =
     (case take_sign (strip text) of (neg, s) \<Rightarrow>
        if lower s \<in> {''inf'', ''infinity''} then Some (Infinite neg)
        else if lower s = ''nan'' then Some NotANumber
        else map_option (\<lambda>x. Num (if neg then - x else x)) (parse_unsigned s))"

text \<open>\<open>int(text)\<close>.\<close>

definition parse_int :: "string \<Rightarrow> int option" where
  "parse_int s =
     (case take_sign (strip s) of (neg, r) \<Rightarrow>
        (case take_digits False r of (ds, rest) \<Rightarrow>
           if ds \<noteq> [] \<and> rest = []
           then Some (if neg then - int (nat_of_str 0 ds) else int (nat_of_str 0 ds)) else None))"

subsection \<open>Conversions\<close>

text \<open>\<open>float(n)\<close> of an integer raises \<open>OverflowError\<close> beyond the largest float.\<close>

definition float_of_int :: "int \<Rightarrow> pyfloat res" where
  "float_of_int n = (case fl (of_int n) of Fin x \<Rightarrow> Inr (Fin x) | _ \<Rightarrow> Inl OverflowError)"

definition float_of_number :: "number \<Rightarrow> pyfloat" where
  "float_of_number n =
     (case n of Num x \<Rightarrow> fl x | Infinite neg \<Rightarrow> if neg then NInf else PInf | NotANumber \<Rightarrow> NaN)"

definition py_float :: "pyval \<Rightarrow> pyfloat res" where
  "py_float v =
     (case v of
        PBool b \<Rightarrow> Inr (Fin (if b then 1 else 0))
      | PInt n \<Rightarrow> float_of_int n
      | PFloat f \<Rightarrow> Inr f
      | PStr s \<Rightarrow> (case parse_number s of
                     None \<Rightarrow> Inl (ValueError ''could not convert string to float'')
                   | Some n \<Rightarrow> Inr (float_of_number n))
      | _ \<Rightarrow> Inl TypeError)"

text \<open>
  \<open>repr\<close> of a finite float: the shortest decimal that reads back as the same float, closest to it
  among those. \<open>str(f)\<close> then denotes this rational.
\<close>

fun repr_digits :: "rat \<Rightarrow> nat list \<Rightarrow> rat" where
  "repr_digits x [] = x"
| "repr_digits x (n # ns) =
     (let d = round_sig 10 n (- 400) x in if b64 d = x then d else repr_digits x ns)"

definition repr_rat :: "rat \<Rightarrow> rat" where
  "repr_rat x = repr_digits x [1..<18]"

lemma repr_digits_reads_back: "b64 x = x \<Longrightarrow> b64 (repr_digits x ns) = x"
  by (induction ns) (auto simp: Let_def)

lemma repr_rat_reads_back: "is_float (Fin x) \<Longrightarrow> fl (repr_rat x) = Fin x"
proof -
  assume "is_float (Fin x)"
  then have "b64 (repr_rat x) = x" "\<bar>x\<bar> < float_limit"
    using repr_digits_reads_back[of x "[1..<18]"] unfolding repr_rat_def by auto
  then show ?thesis by (auto simp: fl_def Let_def)
qed

text \<open>Truth value, for \<open>x or y\<close> and \<open>if x\<close>.\<close>

definition py_truth :: "pyval \<Rightarrow> bool" where
  "py_truth v =
     (case v of
        PNone \<Rightarrow> False
      | PBool b \<Rightarrow> b
      | PInt n \<Rightarrow> n \<noteq> 0
      | PFloat f \<Rightarrow> f \<noteq> Fin 0
      | PStr s \<Rightarrow> s \<noteq> []
      | PList xs \<Rightarrow> xs \<noteq> []
      | PDict kvs \<Rightarrow> kvs \<noteq> [])"

end
