(* ===== verification/Risk.thy ===== *)
theory Risk
  imports Py_Value
begin

text \<open>
  Pre-trade risk checks (\<open>risk.py\<close>): the trading switch and the PnL lease, which admit an entry
  only on positive evidence; position, margin, size and loss limits; distance of the stop from
  liquidation; entry candles; position sizing; and the conjunction \<open>run_all_checks\<close> that
  \<open>orders.place_order\<close> asks. Reasons are constructors carrying the values the code formats.
\<close>

named_theorems risk_defs \<open>definitions of the individual checks\<close>

datatype risk_reason =
    Reason_ok
  | Trading_disabled
  | Trading_state_missing
  | Trading_state_unrecognized string
  | Pnl_not_fresh
  | Positions_unavailable string
  | Max_positions_reached int int
  | Already_have_position string string
  | Insufficient_margin string pyfloat pyfloat
  | No_balance_data string
  | Position_size_exceeds pyfloat pyfloat
  | Daily_loss_reached pyfloat pyfloat
  | Leverage_not_positive int
  | Stop_too_close pyfloat int pyfloat
  | Funding_below_min pyfloat pyfloat

record RiskCheck =
  allowed :: bool
  reason :: risk_reason

definition risk_ok :: RiskCheck where
  "risk_ok = \<lparr>allowed = True, reason = Reason_ok\<rparr>"

definition risk_block :: "risk_reason \<Rightarrow> RiskCheck" where
  "risk_block r = \<lparr>allowed = False, reason = r\<rparr>"

lemma allowed_simps [simp]: "allowed risk_ok" "\<not> allowed (risk_block r)"
  by (simp_all add: risk_ok_def risk_block_def)

subsection \<open>The PnL lease\<close>

record PnlLease =
  lease_generation :: "int option"
  lease_daily_pnl :: pyfloat

text \<open>
  A raw Redis value: missing, bytes that are not UTF-8, or text, with the JSON value it denotes
  (\<open>None\<close> when it is no JSON).
\<close>

datatype redis_raw = RMissing | RBadBytes | RText "pyval option"

definition encode_pnl_lease :: "int option \<Rightarrow> pyfloat \<Rightarrow> redis_raw" where
  "encode_pnl_lease generation daily_pnl =
     RText (Some (PDict [(''generation'', case generation of None \<Rightarrow> PNone | Some g \<Rightarrow> PInt g),
                         (''daily_pnl'', PFloat daily_pnl)]))"

text \<open>\<open>math.isfinite\<close> converts an integer first, so a huge one raises.\<close>

definition lease_number :: "pyval \<Rightarrow> pyfloat option res" where
  "lease_number v =
     (case v of
        PInt n \<Rightarrow> bindE (float_of_int n) (\<lambda>f. Inr (Some f))
      | PFloat f \<Rightarrow> Inr (if isfinite f then Some f else None)
      | _ \<Rightarrow> Inr None)"

definition decode_pnl_lease :: "redis_raw \<Rightarrow> PnlLease option res" where
  "decode_pnl_lease raw =
     (case raw of
        RBadBytes \<Rightarrow> Inl (ValueError ''utf-8'')
      | RText (Some (PDict payload)) \<Rightarrow>
          (case py_get payload ''generation'' of
             PNone \<Rightarrow> bindE (lease_number (py_get payload ''daily_pnl''))
                        (\<lambda>d. Inr (map_option (\<lambda>f. \<lparr>lease_generation = None, lease_daily_pnl = f\<rparr>) d))
           | PInt g \<Rightarrow> bindE (lease_number (py_get payload ''daily_pnl''))
                        (\<lambda>d. Inr (map_option (\<lambda>f. \<lparr>lease_generation = Some g, lease_daily_pnl = f\<rparr>) d))
           | _ \<Rightarrow> Inr None)
      | _ \<Rightarrow> Inr None)"

definition pnl_lease_flag :: "PnlLease option \<Rightarrow> int option \<Rightarrow> bool \<Rightarrow> string option" where
  "pnl_lease_flag lease current_generation database =
     (case lease of
        None \<Rightarrow> None
      | Some l \<Rightarrow>
          if \<not> database then Some ''1''
          else (case (lease_generation l, current_generation) of
                  (Some g, Some c) \<Rightarrow> if g = c then Some ''1'' else None
                | _ \<Rightarrow> None))"

subsection \<open>The individual checks\<close>

definition check_trading_enabled :: "string option \<Rightarrow> RiskCheck" where
  [risk_defs]: "check_trading_enabled flag =
     (if flag \<in> {Some ''1'', Some ''true''} then risk_ok
      else if flag \<in> {Some ''0'', Some ''false''} then risk_block Trading_disabled
      else (case flag of None \<Rightarrow> risk_block Trading_state_missing
            | Some f \<Rightarrow> risk_block (Trading_state_unrecognized f)))"

definition check_pnl_data_available :: "string option \<Rightarrow> RiskCheck" where
  [risk_defs]: "check_pnl_data_available flag =
     (if flag \<noteq> Some ''1'' then risk_block Pnl_not_fresh else risk_ok)"

definition check_positions_available :: "string \<Rightarrow> string list \<Rightarrow> RiskCheck" where
  [risk_defs]: "check_positions_available exchange failed_exchanges =
     (if exchange \<in> set failed_exchanges then risk_block (Positions_unavailable exchange) else risk_ok)"

definition check_max_positions :: "int \<Rightarrow> int \<Rightarrow> RiskCheck" where
  [risk_defs]: "check_max_positions open_count max_positions =
     (if max_positions \<le> open_count then risk_block (Max_positions_reached open_count max_positions)
      else risk_ok)"

text \<open>An open position as \<open>account.fetch_positions\<close> lists it; only the fields read here.\<close>

record position_row =
  pos_base :: string
  pos_exchange :: string

fun check_duplicate_position :: "string \<Rightarrow> position_row list \<Rightarrow> RiskCheck" where
  "check_duplicate_position base [] = risk_ok"
| "check_duplicate_position base (p # ps) =
     (if upper (pos_base p) = upper base then risk_block (Already_have_position base (pos_exchange p))
      else check_duplicate_position base ps)"

text \<open>A balance row; \<open>tradeable\<close> and \<open>asset\<close> may be absent, read with their defaults.\<close>

record balance_row =
  bal_exchange :: string
  bal_tradeable :: "bool option"
  bal_asset :: "string option"
  bal_free :: pyfloat

definition margin_row :: "string \<Rightarrow> balance_row \<Rightarrow> bool" where
  "margin_row exchange b \<longleftrightarrow>
     bal_exchange b = exchange \<and> (case bal_tradeable b of None \<Rightarrow> True | Some t \<Rightarrow> t) \<and>
     (case bal_asset b of None \<Rightarrow> ''USDT'' | Some a \<Rightarrow> a) = ''USDT''"

fun check_sufficient_margin :: "pyfloat \<Rightarrow> balance_row list \<Rightarrow> string \<Rightarrow> RiskCheck" where
  "check_sufficient_margin size_usd [] exchange = risk_block (No_balance_data exchange)"
| "check_sufficient_margin size_usd (b # bs) exchange =
     (if margin_row exchange b
      then if flt (bal_free b) size_usd
           then risk_block (Insufficient_margin exchange size_usd (bal_free b)) else risk_ok
      else check_sufficient_margin size_usd bs exchange)"

definition check_max_position_size :: "pyfloat \<Rightarrow> pyfloat \<Rightarrow> RiskCheck" where
  [risk_defs]: "check_max_position_size size_usd max_position_usd =
     (if flt max_position_usd size_usd then risk_block (Position_size_exceeds size_usd max_position_usd)
      else risk_ok)"

definition check_daily_loss :: "pyfloat \<Rightarrow> pyfloat \<Rightarrow> RiskCheck" where
  [risk_defs]: "check_daily_loss daily_pnl limit =
     (if fle daily_pnl (fneg (fabs limit)) then risk_block (Daily_loss_reached daily_pnl limit)
      else risk_ok)"

definition MAINTENANCE_MARGIN_PCT :: pyfloat where
  "MAINTENANCE_MARGIN_PCT = Fin (1 / 2)"

text \<open>The largest stop distance allowed at a leverage: a share of the liquidation distance.\<close>

definition max_sl_pct :: "int \<Rightarrow> pyfloat \<Rightarrow> pyfloat res" where
  "max_sl_pct leverage buffer_pct =
     bindE (float_of_int leverage) (\<lambda>l.
     bindE (fdiv (Fin 100) l) (\<lambda>d.
     bindE (fdiv buffer_pct (Fin 100)) (\<lambda>b.
     Inr (fmul (fmax (Fin 0) (fsub d MAINTENANCE_MARGIN_PCT)) (fsub (Fin 1) b)))))"

definition check_liquidation_distance :: "pyfloat \<Rightarrow> int \<Rightarrow> pyfloat \<Rightarrow> RiskCheck res" where
  "check_liquidation_distance initial_sl_pct leverage buffer_pct =
     (if leverage \<le> 0 then Inr (risk_block (Leverage_not_positive leverage))
      else bindE (max_sl_pct leverage buffer_pct) (\<lambda>m.
        Inr (if flt m initial_sl_pct then risk_block (Stop_too_close initial_sl_pct leverage m)
             else risk_ok)))"

definition check_funding_rate :: "pyfloat \<Rightarrow> pyfloat \<Rightarrow> RiskCheck" where
  "check_funding_rate funding_rate_pct min_funding_rate_pct =
     (if flt funding_rate_pct min_funding_rate_pct
      then risk_block (Funding_below_min funding_rate_pct min_funding_rate_pct) else risk_ok)"

subsection \<open>Entry candles\<close>

record candle =
  c_open :: pyfloat
  c_high :: pyfloat
  c_close :: pyfloat

datatype entry_reason =
    Entry_ok
  | Entry_candles_insufficient
  | No_red_candle
  | Insufficient_retrace pyfloat pyfloat pyfloat

record EntryCheck =
  entry_allowed :: bool
  entry_reason :: entry_reason
  closed_red :: bool
  retrace_pct :: "pyfloat option"

text \<open>\<open>max(c[2] for c in candles)\<close>, the first extreme kept.\<close>

fun max_high :: "pyfloat \<Rightarrow> candle list \<Rightarrow> pyfloat" where
  "max_high m [] = m"
| "max_high m (c # cs) = max_high (fmax m (c_high c)) cs"

definition check_entry_candles :: "candle list \<Rightarrow> bool \<Rightarrow> pyfloat \<Rightarrow> EntryCheck res" where
  "check_entry_candles candles require_red_candle min_retrace_pct =
     (case rev candles of
        current # last_closed # _ \<Rightarrow>
          let red = flt (c_close last_closed) (c_open last_closed) in
          if require_red_candle \<and> \<not> red
          then Inr \<lparr>entry_allowed = False, entry_reason = No_red_candle, closed_red = False,
                    retrace_pct = None\<rparr>
          else if flt (Fin 0) min_retrace_pct
          then let pump_high = max_high (c_high (hd candles)) (tl candles) in
               if flt (Fin 0) pump_high
               then bindE (fdiv (fsub pump_high (c_close current)) pump_high) (\<lambda>q.
                    let r = fmul q (Fin 100) in
                    Inr (if flt r min_retrace_pct
                         then \<lparr>entry_allowed = False,
                               entry_reason = Insufficient_retrace r min_retrace_pct pump_high,
                               closed_red = red, retrace_pct = Some r\<rparr>
                         else \<lparr>entry_allowed = True, entry_reason = Entry_ok, closed_red = red,
                               retrace_pct = Some r\<rparr>))
               else Inr \<lparr>entry_allowed = True, entry_reason = Entry_ok, closed_red = red,
                         retrace_pct = None\<rparr>
          else Inr \<lparr>entry_allowed = True, entry_reason = Entry_ok, closed_red = red,
                    retrace_pct = None\<rparr>
      | _ \<Rightarrow>
          Inr (if require_red_candle \<or> flt (Fin 0) min_retrace_pct
               then \<lparr>entry_allowed = False, entry_reason = Entry_candles_insufficient,
                     closed_red = False, retrace_pct = None\<rparr>
               else \<lparr>entry_allowed = True, entry_reason = Entry_ok, closed_red = False,
                     retrace_pct = None\<rparr>))"

subsection \<open>Position size\<close>

definition MIN_POSITION_USD :: pyfloat where
  "MIN_POSITION_USD = Fin 5"

definition compute_position_size_usd ::
  "pyfloat \<Rightarrow> pyfloat \<Rightarrow> pyfloat \<Rightarrow> pyfloat \<Rightarrow> pyfloat option res" where
  "compute_position_size_usd equity_usd risk_per_trade_pct initial_sl_pct max_usd =
     (if fle initial_sl_pct (Fin 0) \<or> fle equity_usd (Fin 0) then Inr None
      else bindE (fdiv (fmul equity_usd risk_per_trade_pct) initial_sl_pct) (\<lambda>size.
        let capped = fmin max_usd size in
        Inr (if flt capped MIN_POSITION_USD then None else Some capped)))"

subsection \<open>All checks\<close>

record risk_inputs =
  ri_base :: string
  ri_exchange :: string
  ri_size_usd :: pyfloat
  ri_trading_flag :: "string option"
  ri_pnl_ready_flag :: "string option"
  ri_open_positions :: "position_row list"
  ri_balances :: "balance_row list"
  ri_daily_pnl :: pyfloat
  ri_max_positions :: int
  ri_max_position_usd :: pyfloat
  ri_daily_loss_limit_usd :: pyfloat
  ri_failed_exchanges :: "string list"

definition all_checks :: "risk_inputs \<Rightarrow> RiskCheck list" where
  "all_checks r =
     [check_trading_enabled (ri_trading_flag r),
      check_pnl_data_available (ri_pnl_ready_flag r),
      check_positions_available (ri_exchange r) (ri_failed_exchanges r),
      check_daily_loss (ri_daily_pnl r) (ri_daily_loss_limit_usd r),
      check_max_positions (int (length (ri_open_positions r))) (ri_max_positions r),
      check_duplicate_position (ri_base r) (ri_open_positions r),
      check_max_position_size (ri_size_usd r) (ri_max_position_usd r),
      check_sufficient_margin (ri_size_usd r) (ri_balances r) (ri_exchange r)]"

fun first_blocked :: "RiskCheck list \<Rightarrow> RiskCheck" where
  "first_blocked [] = risk_ok"
| "first_blocked (c # cs) = (if \<not> allowed c then c else first_blocked cs)"

definition run_all_checks :: "risk_inputs \<Rightarrow> RiskCheck" where
  "run_all_checks r = first_blocked (all_checks r)"

subsection \<open>What the checks guarantee\<close>

lemma check_duplicate_position_allowed:
  "allowed (check_duplicate_position base ps) \<longleftrightarrow>
   upper base \<notin> (upper \<circ> pos_base) ` set ps"
  by (induction ps) auto

lemma check_sufficient_margin_allowed:
  "allowed (check_sufficient_margin size_usd bs exchange) \<longleftrightarrow>
     (\<exists>b. find (margin_row exchange) bs = Some b \<and> \<not> flt (bal_free b) size_usd)"
  by (induction bs) auto

lemma first_blocked_allowed: "allowed (first_blocked cs) \<longleftrightarrow> list_all allowed cs"
  by (induction cs) auto

lemma first_blocked_reason:
  "\<not> allowed (first_blocked cs) \<Longrightarrow>
     \<exists>pre c post. cs = pre @ c # post \<and> list_all allowed pre \<and> \<not> allowed c \<and> first_blocked cs = c"
proof (induction cs)
  case (Cons c cs)
  show ?case
  proof (cases "allowed c")
    case True
    with Cons obtain pre d post
      where "cs = pre @ d # post" "list_all allowed pre" "\<not> allowed d" "first_blocked cs = d" by auto
    with True show ?thesis by (intro exI[of _ "c # pre"] exI[of _ d] exI[of _ post]) simp
  next
    case False
    then show ?thesis by (intro exI[of _ "[]"] exI[of _ c] exI[of _ cs]) simp
  qed
qed simp

text \<open>
  C4. An order passes \<open>run_all_checks\<close> exactly when trading is explicitly enabled, the PnL lease is
  explicitly ready, the exchange's positions could be read, the daily loss limit is not reached, a
  position slot is free, no position in the same base is open, the size is within the cap and the
  first tradeable USDT balance row of the exchange covers it. A missing flag,
  position read or balance row blocks.
\<close>

theorem run_all_checks_allowed_iff:
  "allowed (run_all_checks r) \<longleftrightarrow>
     ri_trading_flag r \<in> {Some ''1'', Some ''true''} \<and>
     ri_pnl_ready_flag r = Some ''1'' \<and>
     ri_exchange r \<notin> set (ri_failed_exchanges r) \<and>
     \<not> fle (ri_daily_pnl r) (fneg (fabs (ri_daily_loss_limit_usd r))) \<and>
     int (length (ri_open_positions r)) < ri_max_positions r \<and>
     upper (ri_base r) \<notin> (upper \<circ> pos_base) ` set (ri_open_positions r) \<and>
     \<not> flt (ri_max_position_usd r) (ri_size_usd r) \<and>
     (\<exists>b. find (margin_row (ri_exchange r)) (ri_balances r) = Some b \<and> \<not> flt (bal_free b) (ri_size_usd r))"
  unfolding run_all_checks_def first_blocked_allowed all_checks_def
  by (simp add: risk_defs check_duplicate_position_allowed check_sufficient_margin_allowed
      not_le del: o_apply image_comp split: option.splits)



lemma fmin_le: "x \<noteq> NaN \<Longrightarrow> y \<noteq> NaN \<Longrightarrow> fle (fmin x y) x \<and> fle (fmin x y) y"
  by (auto simp: fmin_def flt_imp_fle not_flt)

lemma fmax_mono: "fle x y \<Longrightarrow> z \<noteq> NaN \<Longrightarrow> fle (fmax z x) (fmax z y)"
  by (cases x; cases y; cases z) (auto simp: fmax_def)



text \<open>
  An equity that is not a number is not caught by the positivity guard: the size is then the whole cap.
\<close>

lemma position_size_nan_equity:
  "0 < sl \<Longrightarrow> 5 \<le> m \<Longrightarrow>
     compute_position_size_usd NaN (Fin r) (Fin sl) (Fin m) = Inr (Some (Fin m))"
  by (simp add: compute_position_size_usd_def MIN_POSITION_USD_def Let_def fmin_def)

subsection \<open>Leverage and liquidation\<close>

lemma float_of_int_mono:
  assumes "float_of_int m = Inr x" "float_of_int n = Inr y" "m \<le> n" shows "fle x y"
  using assms fl_mono[of "of_int m" "of_int n"]
  by (auto simp: float_of_int_def split: pyfloat.splits)

lemma float_of_int_pos: assumes "float_of_int n = Inr x" "0 < n" shows "\<exists>r. x = Fin r \<and> 1 \<le> r"
proof -
  have "fle (fl 1) (fl (of_int n))" using assms(2) fl_mono[of 1 "of_int n"] by simp
  then show ?thesis
    using assms by (cases "fl (of_int n)") (auto simp: float_of_int_def)
qed

lemma fdiv_antimono:
  assumes "0 < x" "x \<le> y" "0 \<le> c"
    and "fdiv (Fin c) (Fin x) = Inr u" "fdiv (Fin c) (Fin y) = Inr v"
  shows "fle v u"
  using assms by (auto intro!: fl_mono divide_left_mono)

lemma fmul_mono_nonneg': "fle x y \<Longrightarrow> isfinite x \<Longrightarrow> isfinite y \<Longrightarrow> 0 \<le> c \<Longrightarrow> fle (fmul x (Fin c)) (fmul y (Fin c))"
  by (cases x; cases y) (auto simp: fl_mono mult_right_mono)

lemma liq_distance_finite:
  assumes "1 \<le> l" shows "isfinite (fmax (Fin 0) (fsub (fl (100 / l)) MAINTENANCE_MARGIN_PCT))"
proof -
  have "fle (fl (100 / l)) (fl 100)" "fle (Fin 0) (fl (100 / l))"
    using assms fl_mono[of "100 / l" 100] by (simp_all add: fl_nonneg field_simps)
  then obtain d where d: "fl (100 / l) = Fin d" "0 \<le> d" "d \<le> 100"
    by (cases "fl (100 / l)") auto
  have "fle (fl (d - 1/2)) (fl 100)" "fle (fl (- 1)) (fl (d - 1/2))"
    using d fl_mono[of "d - 1/2" 100] fl_mono[of "- 1" "d - 1/2"] by simp_all
  then show ?thesis
    using d by (cases "fl (d - 1/2)") (auto simp: MAINTENANCE_MARGIN_PCT_def fsub_def fmax_def)
qed

text \<open>
  The liquidation check is monotone in leverage: with a safety buffer between 0 and 100 percent,
  a stop that is allowed at some leverage is allowed at every smaller positive one, rounding
  included. Zero or negative leverage is refused.
\<close>

theorem liquidation_check_antimono:
  assumes "check_liquidation_distance sl l2 (Fin b) = Inr c2" and "allowed c2"
    and "check_liquidation_distance sl l1 (Fin b) = Inr c1"
    and "0 < l1" and "l1 \<le> l2" and "0 \<le> b" and "b \<le> 100"
  shows "allowed c1 \<and> \<not> allowed (projr (check_liquidation_distance sl (- l1) (Fin b)))"
proof -
  let ?d = "\<lambda>x. fmax (Fin 0) (fsub (fl (100 / x)) MAINTENANCE_MARGIN_PCT)"
  have "fle (Fin 0) (fl (b / 100))" "fle (fl (b / 100)) (fl 1)"
    using assms(6,7) fl_mono[of "b / 100" 1] by (simp_all add: fl_nonneg)
  then obtain q where q: "fl (b / 100) = Fin q" "0 \<le> q" "q \<le> 1"
    by (cases "fl (b / 100)") auto
  have "fle (fl (1 - q)) (fl 1)" "fle (Fin 0) (fl (1 - q))"
    using q fl_mono[of "1 - q" 1] by (simp_all add: fl_nonneg)
  then obtain k where k: "fsub (Fin 1) (Fin q) = Fin k" "0 \<le> k"
    by (cases "fl (1 - q)") (auto simp: fsub_def)
  obtain f1 f2 where f: "float_of_int l1 = Inr f1" "float_of_int l2 = Inr f2"
    using assms(1,3,4,5) by (auto simp: check_liquidation_distance_def max_sl_pct_def res_simps)
  obtain x1 x2 where x: "f1 = Fin x1" "f2 = Fin x2" "1 \<le> x1" "1 \<le> x2"
    using float_of_int_pos[OF f(1)] float_of_int_pos[OF f(2)] assms(4,5) by auto
  have "x1 \<le> x2" using float_of_int_mono[OF f assms(5)] x by simp
  then have "fle (fl (100 / x2)) (fl (100 / x1))"
    using x by (intro fl_mono divide_left_mono) auto
  then have "fle (?d x2) (?d x1)"
    by (intro fmax_mono) (auto simp: fsub_def MAINTENANCE_MARGIN_PCT_def intro: fadd_mono)
  then have le: "fle (fmul (?d x2) (Fin k)) (fmul (?d x1) (Fin k))"
    using k liq_distance_finite x by (intro fmul_mono_nonneg') auto
  have "\<not> flt (fmul (?d x2) (Fin k)) sl"
    using assms(1,2,4,5) f x q k
    by (auto simp: check_liquidation_distance_def max_sl_pct_def res_simps split: if_splits)
  then have "\<not> flt (fmul (?d x1) (Fin k)) sl" using le fle_flt_trans by blast
  then show ?thesis
    using assms(3,4) f x q k
    by (auto simp: check_liquidation_distance_def max_sl_pct_def res_simps split: if_splits)
qed

lemmas liq_eval = check_liquidation_distance_def max_sl_pct_def float_of_int_def fmax_def fsub_def
  MAINTENANCE_MARGIN_PCT_def

theorem liquidation_check_antimono_witness:
  "check_liquidation_distance (Fin 10) 5 (Fin 25) = Inr risk_ok \<and>
   check_liquidation_distance (Fin 10) 4 (Fin 25) = Inr risk_ok \<and> allowed risk_ok"
proof -
  have h5: "check_liquidation_distance (Fin 10) 5 (Fin 25) = Inr risk_ok" by (simp add: liq_eval)
  have h4: "check_liquidation_distance (Fin 10) 4 (Fin 25) = Inr risk_ok" by (simp add: liq_eval)
  show ?thesis using h4 h5 liquidation_check_antimono[OF h5 _ h4] by simp
qed

end
