(* ===== verification/Supervisor.thy ===== *)
theory Supervisor
  imports Py_Num "HOL-Library.AList" "HOL-Library.List_Lexorder" "HOL-Library.Char_ord"
begin

text \<open>
  The worker readiness gate and the worker supervisor (\<open>supervisor.py\<close>). Entries are admitted
  only while the gate is open; every entry path reads \<open>is_open()\<close> twice and compares the
  generation token. The first half models the gate as a state machine and proves that an unchanged
  token means the gate never closed in between. The second half models one pass of the monitor loop
  over a worker: health, restart budget, back-off, terminal failure.
\<close>

named_theorems gate_defs \<open>the operations of the readiness gate\<close>

subsection \<open>The readiness gate\<close>

record gate =
  critical_worker_names :: "string set"
  ready_workers :: "string set"
  safety_blockers :: "string set"
  operational_reasons :: "string set"
  operationally_closed :: bool
  gate_open :: bool
  generation :: nat

definition gate_init :: "string set \<Rightarrow> gate" where
  "gate_init names =
     \<lparr>critical_worker_names = names, ready_workers = {}, safety_blockers = {},
      operational_reasons = {}, operationally_closed = (names \<noteq> {}), gate_open = (names = {}),
      generation = 0\<rparr>"

definition is_open :: "gate \<Rightarrow> bool \<times> nat" where
  "is_open g = (gate_open g, generation g)"

definition get_reasons :: "gate \<Rightarrow> string list" where
  "get_reasons g =
     sorted_list_of_set
       (safety_blockers g \<union> operational_reasons g \<union>
        (if operationally_closed g \<and> operational_reasons g = {} then {''startup_pending''} else {}))"

definition should_be_open :: "gate \<Rightarrow> bool" where
  "should_be_open g \<longleftrightarrow>
     \<not> operationally_closed g \<and> ready_workers g = critical_worker_names g \<and> safety_blockers g = {}"

definition evaluate_state :: "gate \<Rightarrow> gate" where
  [gate_defs]: "evaluate_state g =
     (if should_be_open g \<and> \<not> gate_open g then g\<lparr>gate_open := True, generation := generation g + 1\<rparr>
      else if \<not> should_be_open g \<and> gate_open g then g\<lparr>gate_open := False, generation := generation g + 1\<rparr>
      else g)"

definition set_safety_blocker :: "string \<Rightarrow> gate \<Rightarrow> gate" where
  [gate_defs]: "set_safety_blocker blocker_name g =
     (if blocker_name \<notin> safety_blockers g
      then evaluate_state (g\<lparr>safety_blockers := insert blocker_name (safety_blockers g)\<rparr>) else g)"

definition clear_safety_blocker :: "string \<Rightarrow> gate \<Rightarrow> gate" where
  [gate_defs]: "clear_safety_blocker blocker_name g =
     (if blocker_name \<in> safety_blockers g
      then evaluate_state (g\<lparr>safety_blockers := safety_blockers g - {blocker_name}\<rparr>) else g)"

definition mark_ready :: "string \<Rightarrow> gate \<Rightarrow> gate" where
  [gate_defs]: "mark_ready worker_name g =
     (if worker_name \<in> critical_worker_names g
      then let g1 = g\<lparr>ready_workers := insert worker_name (ready_workers g)\<rparr>;
               g2 = (if ready_workers g1 = critical_worker_names g1
                     then g1\<lparr>operationally_closed := False, operational_reasons := {}\<rparr> else g1)
           in evaluate_state g2
      else g)"

definition close_gate :: "string \<Rightarrow> gate \<Rightarrow> gate" where
  [gate_defs]: "close_gate why g =
     evaluate_state (g\<lparr>operationally_closed := True,
                       operational_reasons := insert why (operational_reasons g),
                       ready_workers := {}\<rparr>)"

definition force_close_all :: "string \<Rightarrow> gate \<Rightarrow> gate" where
  [gate_defs]: "force_close_all why g = close_gate why g"

text \<open>Any interleaving of the workers', monitors' and entry paths' calls is a list of events.\<close>

datatype gate_event =
    SetBlocker string
  | ClearBlocker string
  | MarkReady string
  | Close string

fun gate_step :: "gate \<Rightarrow> gate_event \<Rightarrow> gate" where
  "gate_step g (SetBlocker b) = set_safety_blocker b g"
| "gate_step g (ClearBlocker b) = clear_safety_blocker b g"
| "gate_step g (MarkReady w) = mark_ready w g"
| "gate_step g (Close r) = close_gate r g"

fun gate_run :: "gate \<Rightarrow> gate_event list \<Rightarrow> gate" where
  "gate_run g [] = g"
| "gate_run g (e # es) = gate_run (gate_step g e) es"

subsection \<open>The invariant of the gate\<close>

text \<open>
  The gate is open exactly when it should be, only critical workers count as ready, and a gate that
  is not operationally closed has no operational reason left.
\<close>

definition gate_inv :: "gate \<Rightarrow> bool" where
  "gate_inv g \<longleftrightarrow>
     gate_open g = should_be_open g \<and> ready_workers g \<subseteq> critical_worker_names g \<and>
     (\<not> operationally_closed g \<longrightarrow> operational_reasons g = {})"

inductive gate_reachable :: "string set \<Rightarrow> gate \<Rightarrow> bool" for names where
  start: "gate_reachable names (gate_init names)"
| step: "gate_reachable names g \<Longrightarrow> gate_reachable names (gate_step g e)"

lemma evaluate_state_select [simp]:
  "safety_blockers (evaluate_state g) = safety_blockers g"
  "critical_worker_names (evaluate_state g) = critical_worker_names g"
  "ready_workers (evaluate_state g) = ready_workers g"
  "operational_reasons (evaluate_state g) = operational_reasons g"
  "operationally_closed (evaluate_state g) = operationally_closed g"
  "should_be_open (evaluate_state g) = should_be_open g"
  "gate_open (evaluate_state g) = should_be_open g"
  by (auto simp: evaluate_state_def should_be_open_def)

lemma gate_inv_init: "gate_inv (gate_init names)"
  by (auto simp: gate_inv_def gate_init_def should_be_open_def)

lemma gate_inv_step: "gate_inv g \<Longrightarrow> gate_inv (gate_step g e)"
  by (cases e)
     (auto simp: gate_inv_def set_safety_blocker_def clear_safety_blocker_def mark_ready_def
       close_gate_def Let_def should_be_open_def)

lemma gate_reachable_inv: "gate_reachable names g \<Longrightarrow> gate_inv g"
  by (induction rule: gate_reachable.induct) (auto intro: gate_inv_init gate_inv_step)

lemma gate_reachable_names: "gate_reachable names g \<Longrightarrow> critical_worker_names g = names"
proof (induction rule: gate_reachable.induct)
  case start
  show ?case by (simp add: gate_init_def)
next
  case (step g e)
  then show ?case
    by (cases e) (auto simp: set_safety_blocker_def clear_safety_blocker_def mark_ready_def
        close_gate_def Let_def)
qed

subsection \<open>The generation token\<close>

lemma gate_step_generation:
  "generation (gate_step g e) =
     generation g + (if gate_open (gate_step g e) = gate_open g then 0 else 1)"
  by (cases e) (auto simp: gate_defs Let_def should_be_open_def)

lemma gate_run_generation_mono: "generation g \<le> generation (gate_run g es)"
proof (induction es arbitrary: g)
  case (Cons e es)
  have "generation g \<le> generation (gate_step g e)" by (simp add: gate_step_generation)
  also have "\<dots> \<le> generation (gate_run (gate_step g e) es)" by (rule Cons.IH)
  finally show ?case by simp
qed simp

lemma gate_run_append: "gate_run g (xs @ ys) = gate_run (gate_run g xs) ys"
  by (induction xs arbitrary: g) auto

lemma gate_run_same_generation:
  "generation (gate_run g es) = generation g \<Longrightarrow> gate_open (gate_run g es) = gate_open g"
proof (induction es arbitrary: g)
  case (Cons e es)
  have "generation g \<le> generation (gate_step g e)" by (simp add: gate_step_generation)
  moreover have "generation (gate_step g e) \<le> generation (gate_run g (e # es))"
    using gate_run_generation_mono[of "gate_step g e" es] by simp
  ultimately have "generation (gate_step g e) = generation g"
    "generation (gate_run (gate_step g e) es) = generation (gate_step g e)"
    using Cons.prems by simp_all
  then show ?case
    using Cons.IH[of "gate_step g e"] gate_step_generation[of g e] by (auto split: if_splits)
qed simp

text \<open>
  An open gate vouches for every critical worker: in every reachable state the gate is open
  exactly when it is not operationally closed, all critical workers are ready and no safety blocker
  is set.
\<close>

theorem gate_open_iff:
  assumes "gate_reachable names g"
  shows "fst (is_open g) \<longleftrightarrow>
     \<not> operationally_closed g \<and> ready_workers g = names \<and> safety_blockers g = {}"
  using gate_reachable_inv[OF assms] gate_reachable_names[OF assms]
  by (auto simp: gate_inv_def should_be_open_def is_open_def)

theorem gate_open_iff_witness:
  "fst (is_open (gate_step (gate_init {''pnl''}) (MarkReady ''pnl''))) \<and>
   ready_workers (gate_step (gate_init {''pnl''}) (MarkReady ''pnl'')) = {''pnl''}"
proof -
  have r: "gate_reachable {''pnl''} (gate_step (gate_init {''pnl''}) (MarkReady ''pnl''))"
    by (intro gate_reachable.intros)
  show ?thesis
    using gate_open_iff[OF r]
    by (simp add: gate_defs gate_init_def is_open_def should_be_open_def)
qed

text \<open>
  C3. The token closes the check-then-act race: if an entry path reads an open gate and later reads
  the same generation, the gate was open at every moment in between, whatever workers, blockers and
  closures interleaved.
\<close>

theorem unchanged_token_means_open_throughout:
  assumes "is_open g = (True, token)" and "snd (is_open (gate_run g (es @ fs))) = token"
  shows "fst (is_open (gate_run g es)) \<and> fst (is_open (gate_run g (es @ fs)))"
proof -
  have le: "generation g \<le> generation (gate_run g es)"
    "generation (gate_run g es) \<le> generation (gate_run g (es @ fs))"
    by (simp_all add: gate_run_generation_mono gate_run_append)
  have tok: "generation g = token" "generation (gate_run g (es @ fs)) = token" "gate_open g"
    using assms by (simp_all add: is_open_def)
  then have "generation (gate_run g es) = generation g" using le by simp
  then show ?thesis
    using tok gate_run_same_generation[of g es] gate_run_same_generation[of g "es @ fs"]
    by (simp add: is_open_def)
qed

theorem unchanged_token_means_open_throughout_witness:
  "is_open (gate_init {}) = (True, 0) \<and>
   fst (is_open (gate_run (gate_init {}) [ClearBlocker ''x''])) \<and>
   snd (is_open (gate_run (gate_init {}) [SetBlocker ''x'', ClearBlocker ''x''])) = 2"
  using unchanged_token_means_open_throughout[of "gate_init {}" 0 "[ClearBlocker ''x'']" "[]"]
  by (simp add: gate_defs gate_init_def is_open_def should_be_open_def)

subsection \<open>Workers\<close>

text \<open>
  Monotonic times and intervals are finite floats: they are kept as the rational they denote, and
  every subtraction, addition and product rounds to binary64.
\<close>

datatype worker_restart_policy = NEVER | BOUNDED_FATAL | BOUNDED_DEGRADED | ALWAYS

datatype worker_state = PENDING | RUNNING | FAILED | STOPPED_INTENTIONALLY | RESTART_EXHAUSTED

record tick_tracker =
  last_started_at :: "rat option"
  last_success_at :: "rat option"
  last_error_at :: "rat option"
  last_started_at_utc :: "int option"
  last_success_at_utc :: "int option"
  last_error_at_utc :: "int option"
  last_error :: "string option"
  consecutive_failures :: nat
  consecutive_idles :: nat

definition new_tracker :: tick_tracker where
  "new_tracker =
     \<lparr>last_started_at = None, last_success_at = None, last_error_at = None,
      last_started_at_utc = None, last_success_at_utc = None, last_error_at_utc = None,
      last_error = None, consecutive_failures = 0, consecutive_idles = 0\<rparr>"

text \<open>The tracker operations read both clocks; the two readings are arguments.\<close>

definition tick_started :: "rat \<Rightarrow> int \<Rightarrow> tick_tracker \<Rightarrow> tick_tracker" where
  "tick_started mono_now utc t = t\<lparr>last_started_at := Some mono_now, last_started_at_utc := Some utc\<rparr>"

definition tick_succeeded :: "rat \<Rightarrow> int \<Rightarrow> tick_tracker \<Rightarrow> tick_tracker" where
  "tick_succeeded mono_now utc t =
     t\<lparr>last_success_at := Some mono_now, last_success_at_utc := Some utc,
       consecutive_failures := 0, consecutive_idles := 0\<rparr>"

definition tick_idle :: "rat \<Rightarrow> int \<Rightarrow> tick_tracker \<Rightarrow> tick_tracker" where
  "tick_idle mono_now utc t =
     t\<lparr>last_success_at := Some mono_now, last_success_at_utc := Some utc,
       consecutive_failures := 0, consecutive_idles := consecutive_idles t + 1\<rparr>"

definition tick_failed :: "rat \<Rightarrow> int \<Rightarrow> string \<Rightarrow> tick_tracker \<Rightarrow> tick_tracker" where
  "tick_failed mono_now utc err t =
     t\<lparr>last_error_at := Some mono_now, last_error_at_utc := Some utc, last_error := Some err,
       consecutive_failures := consecutive_failures t + 1\<rparr>"

definition tracker_reset :: "tick_tracker \<Rightarrow> tick_tracker" where
  "tracker_reset t =
     t\<lparr>last_started_at := None, last_success_at := None, last_error_at := None,
       last_started_at_utc := None, last_success_at_utc := None, last_error_at_utc := None,
       last_error := None, consecutive_failures := 0, consecutive_idles := 0\<rparr>"

record worker_spec =
  worker_name :: string
  policy :: worker_restart_policy
  is_critical :: bool
  restart_budget :: int
  restart_window_seconds :: rat
  stale_timeout_seconds :: rat
  max_consecutive_failures :: int
  enabled :: bool

definition worker_spec_post_init :: "worker_spec \<Rightarrow> worker_spec res" where
  "worker_spec_post_init s =
     bindE (check (worker_name s \<noteq> []) (ValueError ''worker name must not be empty'')) (\<lambda>_.
     bindE (check (\<not> restart_budget s < 0) (ValueError ''restart_budget must be >= 0'')) (\<lambda>_.
     bindE (check (\<not> restart_window_seconds s \<le> 0)
        (ValueError ''restart_window_seconds must be > 0'')) (\<lambda>_.
     bindE (check (\<not> stale_timeout_seconds s \<le> 0)
        (ValueError ''stale_timeout_seconds must be > 0'')) (\<lambda>_.
     bindE (check (\<not> max_consecutive_failures s \<le> 0)
        (ValueError ''max_consecutive_failures must be > 0'')) (\<lambda>_. Inr s)))))"

text \<open>The asyncio task of a worker: not created, pending, or done.\<close>

datatype task_status = NoTask | TaskPending | TaskDone

record managed_worker =
  spec :: worker_spec
  tracker :: tick_tracker
  worker_st :: worker_state
  task :: task_status
  restarts :: "rat list"
  next_restart_at :: "rat option"
  spawned_at :: "rat option"

definition new_worker :: "worker_spec \<Rightarrow> managed_worker" where
  "new_worker s =
     \<lparr>spec = s, tracker = new_tracker,
      worker_st = (if enabled s then PENDING else STOPPED_INTENTIONALLY), task = NoTask,
      restarts = [], next_restart_at = None, spawned_at = None\<rparr>"

subsection \<open>The supervisor\<close>

record sup_config =
  monitor_interval_seconds :: rat
  restart_backoff_base_seconds :: rat
  restart_backoff_max_seconds :: rat

record supervisor =
  config :: sup_config
  workers :: "(string \<times> managed_worker) list"
  sup_gate :: gate
  stop_event :: bool
  terminations :: "string list"

text \<open>
  \<open>terminations\<close> is the log of the calls of \<open>_terminate_process\<close> (by default a SIGTERM to the
  process itself).
\<close>

definition new_supervisor :: "sup_config \<Rightarrow> worker_spec list \<Rightarrow> supervisor res" where
  "new_supervisor c specs =
     bindE (check (distinct (map worker_name specs)) (ValueError ''worker names must be unique'')) (\<lambda>_.
     bindE (check (\<not> monitor_interval_seconds c \<le> 0)
        (ValueError ''monitor_interval_seconds must be > 0'')) (\<lambda>_.
     bindE (check (\<not> restart_backoff_base_seconds c < 0)
        (ValueError ''restart_backoff_base_seconds must be >= 0'')) (\<lambda>_.
     bindE (check (\<not> restart_backoff_max_seconds c < restart_backoff_base_seconds c)
        (ValueError ''restart_backoff_max_seconds must be >= restart_backoff_base_seconds'')) (\<lambda>_.
     Inr \<lparr>config = c, workers = map (\<lambda>s. (worker_name s, new_worker s)) specs,
          sup_gate = gate_init (set (map worker_name (filter (\<lambda>s. enabled s \<and> is_critical s) specs))),
          stop_event = False, terminations = []\<rparr>))))"

definition spawn_worker :: "rat \<Rightarrow> managed_worker \<Rightarrow> managed_worker" where
  "spawn_worker mono_now w =
     (if worker_st w = STOPPED_INTENTIONALLY then w
      else w\<lparr>tracker := tracker_reset (tracker w), next_restart_at := None, spawned_at := Some mono_now,
             worker_st := RUNNING, task := TaskPending\<rparr>)"

definition sup_start :: "rat \<Rightarrow> supervisor \<Rightarrow> supervisor" where
  "sup_start mono_now s = s\<lparr>workers := map (\<lambda>(n, w). (n, spawn_worker mono_now w)) (workers s)\<rparr>"

text \<open>
  \<open>stop\<close>: cancelling a task only requests its end, so a pending task stays pending here and ends by
  a later event.
\<close>

definition stop_worker :: "managed_worker \<Rightarrow> managed_worker" where
  "stop_worker w =
     (if enabled (spec w) \<and> worker_st w \<noteq> RESTART_EXHAUSTED
      then w\<lparr>worker_st := STOPPED_INTENTIONALLY\<rparr> else w)"

definition sup_stop :: "supervisor \<Rightarrow> supervisor" where
  "sup_stop s =
     s\<lparr>stop_event := True, sup_gate := force_close_all ''shutdown'' (sup_gate s),
       workers := map (\<lambda>(n, w). (n, stop_worker w)) (workers s)\<rparr>"

text \<open>
  \<open>base * 2**n\<close> converts the integer power to a float first, which raises from
  \<open>2**1024\<close> on.
\<close>

definition restart_backoff :: "sup_config \<Rightarrow> nat \<Rightarrow> rat res" where
  "restart_backoff c restart_count =
     (if 1024 \<le> restart_count then Inl OverflowError
      else Inr (min (b64 (restart_backoff_base_seconds c * 2 ^ restart_count))
                    (restart_backoff_max_seconds c)))"

text \<open>
  How the body of the loop leaves a worker: on to the next one, \<open>return\<close>, or an exception, which
  keeps the state changes made so far.
\<close>

datatype visit_outcome = Continue | Return | Raise py_error

definition terminal_failure ::
  "string \<Rightarrow> managed_worker \<Rightarrow> supervisor \<Rightarrow> managed_worker \<times> supervisor \<times> visit_outcome" where
  "terminal_failure why w s =
     (let w1 = w\<lparr>worker_st := RESTART_EXHAUSTED\<rparr>;
          s1 = s\<lparr>sup_gate := close_gate why (sup_gate s)\<rparr>
      in if is_critical (spec w) \<or> policy (spec w) = BOUNDED_FATAL
         then (w1, s1\<lparr>terminations := terminations s1 @ [why]\<rparr>, Return)
         else (w1, s1, Continue))"

subsection \<open>One visit of the monitor loop to a worker\<close>

text \<open>A time stamp is tested for truth: an absent one and \<open>0.0\<close> both count as missing.\<close>

definition truthy_time :: "rat option \<Rightarrow> rat option" where
  "truthy_time t = (case t of None \<Rightarrow> None | Some x \<Rightarrow> if x = 0 then None else Some x)"

definition fresh_success :: "rat \<Rightarrow> managed_worker \<Rightarrow> bool" where
  "fresh_success now w \<longleftrightarrow>
     is_critical (spec w) \<and> worker_st w = RUNNING \<and> consecutive_failures (tracker w) = 0 \<and>
     (case truthy_time (last_success_at (tracker w)) of None \<Rightarrow> False
      | Some t \<Rightarrow> b64 (now - t) \<le> stale_timeout_seconds (spec w))"

definition worker_is_stale :: "rat \<Rightarrow> managed_worker \<Rightarrow> bool" where
  "worker_is_stale now w \<longleftrightarrow>
     worker_st w = RUNNING \<and>
     (case truthy_time (last_success_at (tracker w)) of
        Some t \<Rightarrow> b64 (now - t) > stale_timeout_seconds (spec w)
      | None \<Rightarrow>
          (case truthy_time (last_started_at (tracker w)) of
             Some t \<Rightarrow> b64 (now - t) > stale_timeout_seconds (spec w)
           | None \<Rightarrow>
               (case spawned_at w of
                  Some t \<Rightarrow> b64 (now - t) > stale_timeout_seconds (spec w)
                | None \<Rightarrow> False)))"

text \<open>
  The branch for a worker whose task has ended: prune the restart history to the window, then either
  give up or schedule the next restart.
\<close>

definition handle_failed ::
  "string \<Rightarrow> rat \<Rightarrow> managed_worker \<Rightarrow> supervisor \<Rightarrow> managed_worker \<times> supervisor \<times> visit_outcome" where
  "handle_failed name now w0 s =
     (let w = w0\<lparr>worker_st := FAILED,
                 restarts := filter (\<lambda>r. b64 (now - r) \<le> restart_window_seconds (spec w0)) (restarts w0)\<rparr>;
          schedule = (case restart_backoff (config s) (length (restarts w)) of
              Inl e \<Rightarrow> (w, s, Raise e)
            | Inr d \<Rightarrow> (w\<lparr>next_restart_at := Some (b64 (now + d))\<rparr>, s, Continue))
      in if policy (spec w) = NEVER
         then terminal_failure (name @ '' failed with policy=NEVER'') w s
         else if policy (spec w) = ALWAYS then schedule
         else if restart_budget (spec w) \<le> int (length (restarts w))
         then terminal_failure (name @ '' exhausted restart budget'') w s
         else schedule)"

text \<open>
  The gate's part of a visit: a fresh success marks a critical worker ready, any sign of trouble
  closes the gate. Then the cancellation of a stale or persistently failing task.
\<close>

definition visit_gate :: "string \<Rightarrow> rat \<Rightarrow> managed_worker \<Rightarrow> gate \<Rightarrow> gate" where
  "visit_gate name now w g =
     (let g1 = (if fresh_success now w then mark_ready name g else g);
          is_failed = (task w = TaskDone);
          has_tick_errors = (0 < consecutive_failures (tracker w))
      in if is_critical (spec w) \<and> (worker_is_stale now w \<or> is_failed \<or> has_tick_errors)
         then close_gate (if is_failed then ''worker '' @ name @ '' failed''
                          else ''worker '' @ name @ '' stale/errors'') g1
         else g1)"

definition cancels :: "rat \<Rightarrow> managed_worker \<Rightarrow> bool" where
  "cancels now w \<longleftrightarrow>
     (worker_is_stale now w \<or>
      max_consecutive_failures (spec w) \<le> int (consecutive_failures (tracker w))) \<and>
     task w = TaskPending"

definition monitor_running ::
  "string \<Rightarrow> rat \<Rightarrow> managed_worker \<Rightarrow> supervisor \<Rightarrow> managed_worker \<times> supervisor \<times> visit_outcome" where
  "monitor_running name now w s =
     (let s1 = s\<lparr>sup_gate := visit_gate name now w (sup_gate s)\<rparr>;
          w1 = (if cancels now w then w\<lparr>task := TaskDone\<rparr> else w)
      in if task w = TaskDone \<or> cancels now w then handle_failed name now w1 s1
         else (w1, s1, Continue))"

definition monitor_worker ::
  "string \<Rightarrow> rat \<Rightarrow> managed_worker \<Rightarrow> supervisor \<Rightarrow> managed_worker \<times> supervisor \<times> visit_outcome" where
  "monitor_worker name now w s =
     (if worker_st w = STOPPED_INTENTIONALLY then (w, s, Continue)
      else case (worker_st w, next_restart_at w) of
        (FAILED, Some t) \<Rightarrow>
          (if t \<le> now then spawn_worker now (w\<lparr>restarts := restarts w @ [now]\<rparr>) else w, s, Continue)
      | (RESTART_EXHAUSTED, _) \<Rightarrow> (w, s, Continue)
      | _ \<Rightarrow> monitor_running name now w s)"

definition put_worker :: "string \<Rightarrow> managed_worker \<Rightarrow> supervisor \<Rightarrow> supervisor" where
  "put_worker name w s = s\<lparr>workers := AList.update name w (workers s)\<rparr>"

text \<open>
  One visit as the loop performs it, and one whole pass over the dictionary: the pass returns early
  after a fatal failure, and an exception closes the gate and terminates the process.
\<close>

definition monitor_visit :: "string \<Rightarrow> rat \<Rightarrow> supervisor \<Rightarrow> supervisor \<times> visit_outcome" where
  "monitor_visit name now s =
     (case map_of (workers s) name of
        None \<Rightarrow> (s, Continue)
      | Some w \<Rightarrow> (let (w', s', r) = monitor_worker name now w s in (put_worker name w' s', r)))"

definition monitor_crashed :: "supervisor \<Rightarrow> supervisor" where
  "monitor_crashed s =
     s\<lparr>sup_gate := close_gate ''supervisor monitor crashed'' (sup_gate s),
       terminations := terminations s @ [''supervisor monitor crashed'']\<rparr>"

fun monitor_pass :: "rat \<Rightarrow> string list \<Rightarrow> supervisor \<Rightarrow> supervisor \<times> bool" where
  "monitor_pass now [] s = (s, False)"
| "monitor_pass now (n # ns) s =
     (case monitor_visit n now s of
        (s', Continue) \<Rightarrow> monitor_pass now ns s'
      | (s', Return) \<Rightarrow> (s', True)
      | (s', Raise e) \<Rightarrow> (monitor_crashed s', True))"

definition monitor_tick :: "rat \<Rightarrow> supervisor \<Rightarrow> supervisor \<times> bool" where
  "monitor_tick now s =
     (if stop_event s then (s, True) else monitor_pass now (map fst (workers s)) s)"

subsection \<open>Interleavings\<close>

text \<open>
  Between two visits of the monitor the workers' own coroutines run: they tick, return or crash,
  safety blockers come and go, and the process may be asked to stop. One step relation covers all
  interleavings; the monitor may visit the workers in any order and at any clock reading.
\<close>

definition worker_exit ::
  "rat \<Rightarrow> int \<Rightarrow> string option \<Rightarrow> managed_worker \<Rightarrow> managed_worker" where
  "worker_exit mono_now utc err w =
     (case err of
        None \<Rightarrow> w\<lparr>task := TaskDone\<rparr>
      | Some e \<Rightarrow> w\<lparr>task := TaskDone, tracker := tick_failed mono_now utc e (tracker w)\<rparr>)"

definition on_worker :: "string \<Rightarrow> (managed_worker \<Rightarrow> managed_worker) \<Rightarrow> supervisor \<Rightarrow> supervisor" where
  "on_worker name f s =
     (case map_of (workers s) name of None \<Rightarrow> s | Some w \<Rightarrow> put_worker name (f w) s)"

inductive sup_step :: "supervisor \<Rightarrow> supervisor \<Rightarrow> bool" where
  sup_start: "sup_step s (sup_start mono_now s)"
| tick: "sup_step s (on_worker name (\<lambda>w. w\<lparr>tracker := f (tracker w)\<rparr>) s)"
    if "f \<in> {tick_started m u, tick_succeeded m u, tick_idle m u, tick_failed m u err}"
| worker_exit: "sup_step s (on_worker name (worker_exit mono_now utc err) s)"
| blocker: "sup_step s (s\<lparr>sup_gate := set_safety_blocker b (sup_gate s)\<rparr>)"
| unblock: "sup_step s (s\<lparr>sup_gate := clear_safety_blocker b (sup_gate s)\<rparr>)"
| visit: "monitor_visit name now s = (s', r) \<Longrightarrow> sup_step s s'"
| crashed: "sup_step s (monitor_crashed s)"
| sup_stop: "sup_step s (sup_stop s)"

inductive sup_reachable :: "sup_config \<Rightarrow> worker_spec list \<Rightarrow> supervisor \<Rightarrow> bool" for c specs where
  init: "list_all (\<lambda>x. worker_spec_post_init x = Inr x) specs \<Longrightarrow> new_supervisor c specs = Inr s \<Longrightarrow>
         sup_reachable c specs s"
| more: "sup_reachable c specs s \<Longrightarrow> sup_step s s' \<Longrightarrow> sup_reachable c specs s'"

inductive_simps sup_step_simps: "sup_step s s'"

subsection \<open>Open gate, running workers\<close>

definition worker_inv :: "gate \<Rightarrow> managed_worker \<Rightarrow> bool" where
  "worker_inv g w \<longleftrightarrow>
     (worker_name (spec w) \<in> ready_workers g \<longrightarrow> worker_st w = RUNNING) \<and>
     (worker_name (spec w) \<in> critical_worker_names g \<longleftrightarrow> enabled (spec w) \<and> is_critical (spec w)) \<and>
     (worker_st w \<noteq> STOPPED_INTENTIONALLY \<longrightarrow> enabled (spec w)) \<and>
     0 < max_consecutive_failures (spec w) \<and> 0 \<le> restart_budget (spec w) \<and>
     (policy (spec w) \<in> {BOUNDED_FATAL, BOUNDED_DEGRADED} \<longrightarrow>
        int (length (restarts w)) \<le> restart_budget (spec w) \<and>
        (worker_st w = FAILED \<longrightarrow> int (length (restarts w)) < restart_budget (spec w)))"

definition sup_inv :: "supervisor \<Rightarrow> bool" where
  "sup_inv s \<longleftrightarrow>
     gate_inv (sup_gate s) \<and>
     (\<forall>n w. map_of (workers s) n = Some w \<longrightarrow>
        worker_name (spec w) = n \<and> worker_inv (sup_gate s) w)"

text \<open>The part of the configuration that no step changes.\<close>

definition sup_specs :: "supervisor \<Rightarrow> string \<rightharpoonup> worker_spec" where
  "sup_specs s n = map_option spec (map_of (workers s) n)"

lemma mark_ready_ready: "ready_workers (mark_ready n g) \<subseteq> insert n (ready_workers g)"
  by (auto simp: mark_ready_def Let_def)

lemma close_gate_simps [simp]:
  "ready_workers (close_gate why g) = {}" "\<not> gate_open (close_gate why g)"
  "critical_worker_names (close_gate why g) = critical_worker_names g"
  by (auto simp: close_gate_def should_be_open_def)

lemma blockers_keep_ready [simp]:
  "ready_workers (set_safety_blocker b g) = ready_workers g"
  "ready_workers (clear_safety_blocker b g) = ready_workers g"
  "critical_worker_names (set_safety_blocker b g) = critical_worker_names g"
  "critical_worker_names (clear_safety_blocker b g) = critical_worker_names g"
  "critical_worker_names (mark_ready n g) = critical_worker_names g"
  by (auto simp: set_safety_blocker_def clear_safety_blocker_def mark_ready_def Let_def)

lemmas gate_inv_steps =
  gate_inv_step[where e = "SetBlocker b" for b, simplified]
  gate_inv_step[where e = "ClearBlocker b" for b, simplified]
  gate_inv_step[where e = "MarkReady w" for w, simplified]
  gate_inv_step[where e = "Close r" for r, simplified]

lemma worker_inv_ready_mono:
  "worker_inv g w \<Longrightarrow>
   (worker_name (spec w) \<in> ready_workers g' \<Longrightarrow> worker_name (spec w) \<in> ready_workers g) \<Longrightarrow>
   critical_worker_names g' = critical_worker_names g \<Longrightarrow> worker_inv g' w"
  by (auto simp: worker_inv_def)

lemma terminal_failure_frame:
  "terminal_failure why w s = (w', s', r) \<Longrightarrow>
   spec w' = spec w \<and> workers s' = workers s \<and> config s' = config s \<and>
   sup_gate s' = close_gate why (sup_gate s) \<and> restarts w' = restarts w \<and>
   worker_st w' = RESTART_EXHAUSTED \<and> r \<noteq> Raise e"
  by (auto simp: terminal_failure_def Let_def split: if_splits)

lemma handle_failed_frame:
  assumes "handle_failed name now w s = (w', s', r)"
  shows "spec w' = spec w \<and> workers s' = workers s \<and> config s' = config s \<and>
         worker_st w' \<in> {FAILED, RESTART_EXHAUSTED} \<and>
         (sup_gate s' = sup_gate s \<or> (\<exists>why. sup_gate s' = close_gate why (sup_gate s)))"
  using assms
  by (auto simp: handle_failed_def Let_def split: if_splits sum.splits dest!: terminal_failure_frame)

lemma handle_failed_restarts:
  assumes "handle_failed name now w s = (w', s', r)"
    and "policy (spec w) \<in> {BOUNDED_FATAL, BOUNDED_DEGRADED}"
    and "int (length (restarts w)) \<le> restart_budget (spec w)"
  shows "int (length (restarts w')) \<le> restart_budget (spec w) \<and>
         (worker_st w' = FAILED \<longrightarrow> int (length (restarts w')) < restart_budget (spec w))"
proof -
  have "length (filter P (restarts w)) \<le> length (restarts w)" for P by simp
  then have "int (length (filter P (restarts w))) \<le> restart_budget (spec w)" for P
    using assms(3) by (meson of_nat_le_iff order_trans)
  then show ?thesis
    using assms(1,2)
    by (auto simp: handle_failed_def Let_def split: if_splits sum.splits dest!: terminal_failure_frame)
qed

lemma handle_failed_inv:
  assumes "handle_failed name now w s = (w', s', r)"
    and "worker_inv (sup_gate s) w" "worker_st w \<noteq> STOPPED_INTENTIONALLY"
    and "worker_name (spec w) \<notin> ready_workers (sup_gate s)"
  shows "worker_inv (sup_gate s') w'"
  using handle_failed_frame[OF assms(1)] handle_failed_restarts[OF assms(1)] assms(2-)
  by (auto simp: worker_inv_def)

lemma visit_gate_inv:
  assumes "gate_inv g"
  shows "gate_inv (visit_gate name now w g)"
    and "ready_workers (visit_gate name now w g) \<subseteq> insert name (ready_workers g)"
    and "critical_worker_names (visit_gate name now w g) = critical_worker_names g"
  using assms mark_ready_ready[of name g]
  by (auto simp: visit_gate_def Let_def intro: gate_inv_steps)

text \<open>A visit that ends a worker's task leaves the worker out of the ready set.\<close>

lemma visit_gate_not_ready:
  assumes "gate_inv g" "worker_inv g w" "worker_name (spec w) = name"
    and "worker_st w \<noteq> STOPPED_INTENTIONALLY" "task w = TaskDone \<or> cancels now w"
  shows "name \<notin> ready_workers (visit_gate name now w g)"
proof (cases "is_critical (spec w)")
  case True
  have "worker_is_stale now w \<or> task w = TaskDone \<or> 0 < consecutive_failures (tracker w)"
    using assms(2,5) by (auto simp: cancels_def worker_inv_def)
  with True show ?thesis by (simp add: visit_gate_def Let_def)
next
  case False
  then have "name \<notin> critical_worker_names g" using assms(2,3) by (auto simp: worker_inv_def)
  then show ?thesis using visit_gate_inv[OF assms(1), of name now w] by (auto simp: gate_inv_def)
qed

lemma visit_gate_worker_inv:
  assumes "gate_inv g" "worker_inv g w" "worker_name (spec w) = name"
  shows "worker_inv (visit_gate name now w g) w"
  using assms mark_ready_ready[of name g]
  by (auto simp: worker_inv_def visit_gate_def Let_def fresh_success_def)

text \<open>What one visit keeps: the gate's invariant, the worker's, and the frame for all the others.\<close>

definition visit_frame :: "string \<Rightarrow> managed_worker \<Rightarrow> supervisor \<Rightarrow> managed_worker \<Rightarrow> supervisor \<Rightarrow> bool" where
  "visit_frame name w s w' s' \<longleftrightarrow>
     gate_inv (sup_gate s') \<and> worker_inv (sup_gate s') w' \<and> spec w' = spec w \<and>
     workers s' = workers s \<and> config s' = config s \<and>
     ready_workers (sup_gate s') \<subseteq> insert name (ready_workers (sup_gate s)) \<and>
     critical_worker_names (sup_gate s') = critical_worker_names (sup_gate s)"

lemma monitor_running_frame:
  assumes run: "monitor_running name now w s = (w', s', r)"
    and inv: "gate_inv (sup_gate s)" "worker_inv (sup_gate s) w" "worker_name (spec w) = name"
    and st: "worker_st w \<noteq> STOPPED_INTENTIONALLY"
  shows "visit_frame name w s w' s'"
proof -
  let ?g = "visit_gate name now w (sup_gate s)"
  note g = visit_gate_inv[OF inv(1), of name now w] visit_gate_worker_inv[OF inv, of now]
  show ?thesis
  proof (cases "task w = TaskDone \<or> cancels now w")
    case True
    define w1 where "w1 = (if cancels now w then w\<lparr>task := TaskDone\<rparr> else w)"
    have hf: "handle_failed name now w1 (s\<lparr>sup_gate := ?g\<rparr>) = (w', s', r)"
      using run True by (auto simp: monitor_running_def Let_def w1_def)
    have w1: "worker_inv ?g w1" "spec w1 = spec w" "worker_st w1 = worker_st w"
      using g(4) by (auto simp: w1_def worker_inv_def)
    have "name \<notin> ready_workers ?g" by (rule visit_gate_not_ready[OF inv st True])
    then have "worker_inv (sup_gate s') w'"
      using handle_failed_inv[OF hf] w1 st inv(3) by simp
    then show ?thesis
      using handle_failed_frame[OF hf] g w1 by (auto simp: visit_frame_def intro: gate_inv_steps)
  next
    case False
    then show ?thesis
      using run g by (auto simp: monitor_running_def Let_def visit_frame_def)
  qed
qed

lemma monitor_worker_frame:
  assumes "monitor_worker name now w s = (w', s', r)"
    and inv: "gate_inv (sup_gate s)" "worker_inv (sup_gate s) w" "worker_name (spec w) = name"
  shows "visit_frame name w s w' s'"
proof (cases "worker_st w = FAILED \<and> next_restart_at w \<noteq> None")
  case True
  then show ?thesis
    using assms
    by (auto simp: monitor_worker_def visit_frame_def spawn_worker_def worker_inv_def split: if_splits)
next
  case False
  then show ?thesis
    using assms monitor_running_frame[OF _ inv, of now w' s' r]
    by (auto simp: monitor_worker_def visit_frame_def split: if_splits worker_state.splits option.splits)
qed

lemma sup_inv_on_worker:
  assumes "sup_inv s" and "\<And>g w. worker_inv g w \<Longrightarrow> worker_inv g (f w)" "\<And>w. spec (f w) = spec w"
  shows "sup_inv (on_worker name f s)"
  using assms
  by (auto simp: sup_inv_def on_worker_def put_worker_def update_conv' split: option.splits if_splits)

lemma sup_inv_gate:
  assumes "sup_inv s" "gate_inv g" "ready_workers g \<subseteq> ready_workers (sup_gate s)"
    and "critical_worker_names g = critical_worker_names (sup_gate s)"
  shows "sup_inv (s\<lparr>sup_gate := g\<rparr>)"
proof -
  have "worker_inv g w" if "worker_inv (sup_gate s) w" for w
    by (rule worker_inv_ready_mono[OF that]) (use assms in auto)
  then show ?thesis using assms by (auto simp: sup_inv_def)
qed

lemma sup_inv_visit:
  assumes "sup_inv s" "monitor_visit name now s = (s', r)"
  shows "sup_inv s'"
proof (cases "map_of (workers s) name")
  case None
  then show ?thesis using assms by (simp add: monitor_visit_def)
next
  case (Some w)
  obtain w' t where m: "monitor_worker name now w s = (w', t, r)" and s': "s' = put_worker name w' t"
    using assms(2) Some by (auto simp: monitor_visit_def split: prod.splits)
  have "visit_frame name w s w' t"
    using monitor_worker_frame[OF m] assms(1) Some by (auto simp: sup_inv_def)
  then show ?thesis
    using assms(1) Some
    by (auto simp: s' sup_inv_def visit_frame_def put_worker_def update_conv' split: if_splits
        intro: worker_inv_ready_mono)
qed

lemma map_of_map_snd: "map_of (map (\<lambda>(n, w). (n, f w)) xs) n = map_option f (map_of xs n)"
  by (induction xs) auto

lemma worker_inv_spawn: "worker_inv g w \<Longrightarrow> worker_inv g (spawn_worker m w)"
  by (auto simp: worker_inv_def spawn_worker_def)

lemma worker_inv_stop: "worker_inv g w \<Longrightarrow> worker_inv (close_gate why g) (stop_worker w)"
  by (simp add: worker_inv_def stop_worker_def)

lemma spawn_stop_spec [simp]: "spec (spawn_worker m w) = spec w" "spec (stop_worker w) = spec w"
  by (simp_all add: spawn_worker_def stop_worker_def)

lemma sup_inv_start: "sup_inv s \<Longrightarrow> sup_inv (sup_start m s)"
  by (auto simp: sup_inv_def sup_start_def map_of_map_snd intro: worker_inv_spawn)

lemma sup_inv_stop: "sup_inv s \<Longrightarrow> sup_inv (sup_stop s)"
  by (auto simp: sup_inv_def sup_stop_def map_of_map_snd force_close_all_def
      intro: gate_inv_steps worker_inv_stop)

lemma sup_inv_crashed: "sup_inv s \<Longrightarrow> sup_inv (monitor_crashed s)"
  by (auto simp: sup_inv_def monitor_crashed_def worker_inv_def intro: gate_inv_steps)

lemma sup_inv_step: "sup_step s s' \<Longrightarrow> sup_inv s \<Longrightarrow> sup_inv s'"
proof (induction rule: sup_step.induct)
  case (tick f m u err s name)
  then show ?case by (intro sup_inv_on_worker) (auto simp: worker_inv_def)
next
  case (worker_exit s name mono_now utc err)
  then show ?case
    by (intro sup_inv_on_worker) (auto simp: worker_inv_def worker_exit_def split: option.splits)
next
  case (blocker s b)
  then show ?case by (intro sup_inv_gate) (auto simp: sup_inv_def intro: gate_inv_steps)
next
  case (unblock s b)
  then show ?case by (intro sup_inv_gate) (auto simp: sup_inv_def intro: gate_inv_steps)
qed (auto intro: sup_inv_visit sup_inv_start sup_inv_stop sup_inv_crashed)

lemma map_of_specs:
  "map_of (map (\<lambda>x. (worker_name x, new_worker x)) specs) n = Some w \<Longrightarrow>
   \<exists>x \<in> set specs. worker_name x = n \<and> w = new_worker x"
  by (induction specs) (auto split: if_splits)

lemma sup_inv_init:
  assumes "list_all (\<lambda>x. worker_spec_post_init x = Inr x) specs" "new_supervisor c specs = Inr s"
  shows "sup_inv s"
proof -
  have d: "distinct (map worker_name specs)"
    and s: "workers s = map (\<lambda>x. (worker_name x, new_worker x)) specs"
      "sup_gate s = gate_init (set (map worker_name (filter (\<lambda>s. enabled s \<and> is_critical s) specs)))"
    using assms(2) by (auto simp: new_supervisor_def bindE_eq_Inr)
  have inj: "x = y" if "x \<in> set specs" "y \<in> set specs" "worker_name x = worker_name y" for x y
    using d that by (auto simp: distinct_map inj_on_def)
  have ok: "0 < max_consecutive_failures x \<and> 0 \<le> restart_budget x" if "x \<in> set specs" for x
    using assms(1) that by (auto simp: list_all_iff worker_spec_post_init_def bindE_eq_Inr)
  have "worker_inv (sup_gate s) (new_worker x)" if "x \<in> set specs" for x
    using ok[OF that] inj[OF that] that
    by (auto simp: s(2) worker_inv_def new_worker_def gate_init_def)
  moreover have "spec (new_worker x) = x" for x by (simp add: new_worker_def)
  moreover have "gate_inv (sup_gate s)" by (simp add: s(2) gate_inv_init)
  ultimately show ?thesis
    unfolding sup_inv_def s(1) by (auto dest!: map_of_specs)
qed

lemma sup_reachable_inv: "sup_reachable c specs s \<Longrightarrow> sup_inv s"
  by (induction rule: sup_reachable.induct) (auto intro: sup_inv_init sup_inv_step)

text \<open>
  C26. An open gate means every enabled critical worker is running: under every interleaving of
  monitor visits, heartbeats, crashes, restarts, blockers and shutdown, whenever the gate is open, no
  enabled critical worker of the supervisor is pending, failed, exhausted or stopped.
\<close>

theorem open_gate_critical_running:
  assumes "sup_reachable c specs s" and "fst (is_open (sup_gate s))"
    and "map_of (workers s) n = Some w" and "is_critical (spec w)" and "enabled (spec w)"
  shows "worker_st w = RUNNING"
proof -
  have inv: "gate_inv (sup_gate s)" "worker_name (spec w) = n" "worker_inv (sup_gate s) w"
    using sup_reachable_inv[OF assms(1)] assms(3) by (auto simp: sup_inv_def)
  then have "ready_workers (sup_gate s) = critical_worker_names (sup_gate s)"
    using assms(2) by (simp add: gate_inv_def should_be_open_def is_open_def)
  then show ?thesis using inv assms(4,5) by (auto simp: worker_inv_def)
qed

definition sample_spec :: worker_spec where
  "sample_spec =
     \<lparr>worker_name = ''pnl'', policy = BOUNDED_FATAL, is_critical = True, restart_budget = 2,
      restart_window_seconds = 300, stale_timeout_seconds = 60, max_consecutive_failures = 3,
      enabled = True\<rparr>"

definition sample_config :: sup_config where
  "sample_config =
     \<lparr>monitor_interval_seconds = 1, restart_backoff_base_seconds = 1, restart_backoff_max_seconds = 30\<rparr>"

definition sample_init :: supervisor where
  "sample_init =
     \<lparr>config = sample_config, workers = [(''pnl'', new_worker sample_spec)],
      sup_gate = gate_init {''pnl''}, stop_event = False, terminations = []\<rparr>"

definition sample_ticked :: supervisor where
  "sample_ticked =
     on_worker ''pnl'' (\<lambda>w. w\<lparr>tracker := tick_succeeded 2 5 (tracker w)\<rparr>) (sup_start 1 sample_init)"

definition sample_open :: supervisor where
  "sample_open = fst (monitor_visit ''pnl'' 2 sample_ticked)"

lemmas sample_defs = sample_spec_def sample_config_def sample_init_def sample_ticked_def sample_open_def

lemmas visit_defs =
  monitor_visit_def monitor_worker_def monitor_running_def visit_gate_def cancels_def fresh_success_def
  worker_is_stale_def truthy_time_def put_worker_def on_worker_def sup_start_def spawn_worker_def
  new_worker_def new_tracker_def tracker_reset_def tick_succeeded_def gate_init_def

lemma sample_ticked_reachable: "sup_reachable sample_config [sample_spec] sample_ticked"
proof -
  have "sup_reachable sample_config [sample_spec] sample_init"
    by (rule sup_reachable.init)
       (simp_all add: worker_spec_post_init_def new_supervisor_def sample_defs)
  then have "sup_reachable sample_config [sample_spec] (sup_start 1 sample_init)"
    by (rule sup_reachable.more) (rule sup_step.sup_start)
  then show ?thesis
    unfolding sample_ticked_def by (rule sup_reachable.more) (rule sup_step.tick, blast)
qed

lemma sample_open_reachable: "sup_reachable sample_config [sample_spec] sample_open"
  using sample_ticked_reachable
  by (rule sup_reachable.more) (rule sup_step.visit, simp add: sample_open_def prod_eq_iff)

theorem open_gate_critical_running_witness:
  "fst (is_open (sup_gate sample_open)) \<and>
   worker_st (the (map_of (workers sample_open) ''pnl'')) = RUNNING"
proof -
  have open_gate: "fst (is_open (sup_gate sample_open))"
    and w: "map_of (workers sample_open) ''pnl'' \<noteq> None"
      "is_critical (spec (the (map_of (workers sample_open) ''pnl'')))"
      "enabled (spec (the (map_of (workers sample_open) ''pnl'')))"
    by (simp_all add: sample_defs visit_defs is_open_def mark_ready_def evaluate_state_def
        should_be_open_def)
  then show ?thesis
    using open_gate_critical_running[OF sample_open_reachable open_gate] by auto
qed

text \<open>
  Restarts of a bounded worker stay within its budget: in every reachable state the restart
  history that the window keeps is no longer than \<open>restart_budget\<close>, and a worker waiting for a
  restart still has budget left for it.
\<close>

theorem bounded_restarts:
  assumes "sup_reachable c specs s" and "map_of (workers s) n = Some w"
    and "policy (spec w) = BOUNDED_FATAL \<or> policy (spec w) = BOUNDED_DEGRADED"
  shows "int (length (restarts w)) \<le> restart_budget (spec w) \<and>
         (worker_st w = FAILED \<longrightarrow> int (length (restarts w)) < restart_budget (spec w))"
  using sup_reachable_inv[OF assms(1)] assms(2,3) by (auto simp: sup_inv_def worker_inv_def)

theorem bounded_restarts_witness:
  "int (length (restarts (the (map_of (workers sample_ticked) ''pnl'')))) \<le> 2"
proof -
  have "\<exists>w. map_of (workers sample_ticked) ''pnl'' = Some w \<and> policy (spec w) = BOUNDED_FATAL \<and>
            restart_budget (spec w) = 2"
    by (simp add: sample_defs visit_defs)
  then show ?thesis using bounded_restarts[OF sample_ticked_reachable] by force
qed

text \<open>
  A visit acts on every sign of trouble: after visiting a running worker that is stale, whose
  task has ended or that has tick errors, the gate is closed if the worker is critical; and the
  worker stays running exactly when its task is alive and is neither stale nor at its limit of
  consecutive failures.
\<close>

theorem visit_acts_on_trouble:
  assumes "map_of (workers s) n = Some w" and "worker_st w = RUNNING"
    and "monitor_visit n now s = (s', r)" and "map_of (workers s') n = Some w'"
  shows "(is_critical (spec w) \<and>
            (worker_is_stale now w \<or> task w = TaskDone \<or> 0 < consecutive_failures (tracker w)) \<longrightarrow>
          \<not> fst (is_open (sup_gate s'))) \<and>
         (worker_st w' = RUNNING \<longleftrightarrow> task w \<noteq> TaskDone \<and> \<not> cancels now w)"
proof -
  obtain v t where m: "monitor_running n now w s = (v, t, r)" and s': "s' = put_worker n v t"
    using assms(1-3) by (auto simp: monitor_visit_def monitor_worker_def split: prod.splits option.splits)
  have w': "w' = v" using assms(4) by (simp add: s' put_worker_def update_conv')
  have "(worker_st v = RUNNING \<longleftrightarrow> task w \<noteq> TaskDone \<and> \<not> cancels now w) \<and>
        (\<not> gate_open (visit_gate n now w (sup_gate s)) \<longrightarrow> \<not> gate_open (sup_gate t))"
    using m assms(2)
    by (auto simp: monitor_running_def Let_def split: if_splits dest!: handle_failed_frame)
  moreover have "is_critical (spec w) \<and>
      (worker_is_stale now w \<or> task w = TaskDone \<or> 0 < consecutive_failures (tracker w)) \<longrightarrow>
      \<not> gate_open (visit_gate n now w (sup_gate s))"
    by (simp add: visit_gate_def Let_def)
  ultimately show ?thesis by (auto simp: is_open_def s' put_worker_def w')
qed

lemma visit_keeps_worker:
  "map_of (workers s) n \<noteq> None \<Longrightarrow> map_of (workers (fst (monitor_visit n now s))) n \<noteq> None"
  by (auto simp: monitor_visit_def put_worker_def update_conv' split: prod.splits)

definition sample_exited :: supervisor where
  "sample_exited = on_worker ''pnl'' (\<lambda>w. w\<lparr>task := TaskDone\<rparr>) sample_open"

theorem visit_acts_on_trouble_witness:
  "fst (is_open (sup_gate sample_exited)) \<and>
   \<not> fst (is_open (sup_gate (fst (monitor_visit ''pnl'' 3 sample_exited))))"
proof -
  have 0: "fst (is_open (sup_gate sample_exited))"
    and 1: "map_of (workers sample_exited) ''pnl'' = Some w \<Longrightarrow>
      worker_st w = RUNNING \<and> is_critical (spec w) \<and> task w = TaskDone"
    and 2: "map_of (workers sample_exited) ''pnl'' \<noteq> None" for w
    by (auto simp: sample_exited_def sample_defs visit_defs is_open_def mark_ready_def evaluate_state_def
        should_be_open_def Let_def split: prod.splits)
  from 2 visit_keeps_worker[OF 2, of 3] obtain w w' where w: "map_of (workers sample_exited) ''pnl'' = Some w"
    "map_of (workers (fst (monitor_visit ''pnl'' 3 sample_exited))) ''pnl'' = Some w'"
    by blast
  show ?thesis
    using visit_acts_on_trouble[OF w(1) _ prod.collapse[symmetric] w(2)] 0 1[OF w(1)] by blast
qed

text \<open>
  The restart back-off grows with the number of recent restarts, is never negative and never
  exceeds the configured maximum.
\<close>

theorem restart_backoff_bounded_mono:
  assumes "0 \<le> restart_backoff_base_seconds c"
    and "restart_backoff_base_seconds c \<le> restart_backoff_max_seconds c"
    and "m \<le> n" and "n < 1024"
  shows "\<exists>d d'. restart_backoff c m = Inr d \<and> restart_backoff c n = Inr d' \<and>
                0 \<le> d \<and> d \<le> d' \<and> d' \<le> restart_backoff_max_seconds c"
proof -
  let ?f = "\<lambda>k. b64 (restart_backoff_base_seconds c * 2 ^ k)"
  have "?f m \<le> ?f n"
    using assms by (intro b64.mono mult_left_mono power_increasing) auto
  moreover have "0 \<le> ?f m" using assms(1) by (intro b64.nonneg) simp
  ultimately show ?thesis using assms by (auto simp: restart_backoff_def)
qed

theorem restart_backoff_bounded_mono_witness:
  "restart_backoff sample_config 3 = Inr 8 \<and> restart_backoff sample_config 7 = Inr 30 \<and>
   (\<exists>d d'. restart_backoff sample_config 3 = Inr d \<and> restart_backoff sample_config 7 = Inr d' \<and>
           0 \<le> d \<and> d \<le> d' \<and> d' \<le> 30)"
  using restart_backoff_bounded_mono[of sample_config 3 7] b64_int[of 8] b64_int[of 128]
  by (simp add: restart_backoff_def sample_config_def)

end
