(* ===== verification/Py_Decimal.thy ===== *)
theory Py_Decimal
  imports Py_Value
begin

text \<open>
  Decimals read from outside: \<open>Decimal(str(v))\<close> of a payload field may be infinite or NaN. Addition
  and subtraction of opposite infinities and every ordering comparison with NaN raise
  \<open>InvalidOperation\<close>; equality is quiet. On finite numbers the operations are those of
  \<open>Py_Num\<close>, rounded to 28 digits.
\<close>

definition decimal_of_val :: "pyval \<Rightarrow> number res" where
  "decimal_of_val v =
     (case v of
        PInt n \<Rightarrow> Inr (Num (of_int n))
      | PFloat (Fin x) \<Rightarrow> Inr (Num (repr_rat x))
      | PFloat PInf \<Rightarrow> Inr (Infinite False)
      | PFloat NInf \<Rightarrow> Inr (Infinite True)
      | PFloat NaN \<Rightarrow> Inr NotANumber
      | PStr s \<Rightarrow> (case parse_number s of None \<Rightarrow> Inl InvalidOperation | Some n \<Rightarrow> Inr n)
      | _ \<Rightarrow> Inl InvalidOperation)"

fun nneg :: "number \<Rightarrow> number" where
  "nneg (Num x) = Num (- x)"
| "nneg (Infinite s) = Infinite (\<not> s)"
| "nneg NotANumber = NotANumber"

fun nadd :: "number \<Rightarrow> number \<Rightarrow> number res" where
  "nadd NotANumber b = Inr NotANumber"
| "nadd a NotANumber = Inr NotANumber"
| "nadd (Num x) (Num y) = Inr (Num (dadd x y))"
| "nadd (Infinite s) (Num y) = Inr (Infinite s)"
| "nadd (Num x) (Infinite t) = Inr (Infinite t)"
| "nadd (Infinite s) (Infinite t) = (if s = t then Inr (Infinite s) else Inl InvalidOperation)"

definition nsub :: "number \<Rightarrow> number \<Rightarrow> number res" where
  "nsub a b = nadd a (nneg b)"

fun nabs :: "number \<Rightarrow> number" where
  "nabs (Num x) = Num (dabs x)"
| "nabs (Infinite s) = Infinite False"
| "nabs NotANumber = NotANumber"

fun nlt :: "number \<Rightarrow> number \<Rightarrow> bool res" where
  "nlt NotANumber b = Inl InvalidOperation"
| "nlt a NotANumber = Inl InvalidOperation"
| "nlt (Num x) (Num y) = Inr (x < y)"
| "nlt (Infinite s) (Num y) = Inr s"
| "nlt (Num x) (Infinite t) = Inr (\<not> t)"
| "nlt (Infinite s) (Infinite t) = Inr (s \<and> \<not> t)"

definition nle :: "number \<Rightarrow> number \<Rightarrow> bool res" where
  "nle a b = bindE (nlt b a) (\<lambda>c. Inr (\<not> c))"

fun neq :: "number \<Rightarrow> number \<Rightarrow> bool" where
  "neq (Num x) (Num y) = (x = y)"
| "neq (Infinite s) (Infinite t) = (s = t)"
| "neq _ _ = False"

text \<open>\<open>bool(d)\<close>: only zero is false.\<close>

definition ntruth :: "number \<Rightarrow> bool" where
  "ntruth n \<longleftrightarrow> n \<noteq> Num 0"

lemma nsub_Num [simp]: "nsub (Num x) (Num y) = Inr (Num (dsub x y))"
  by (simp add: nsub_def dadd_def dsub_def)

lemma nle_Num [simp]: "nle (Num x) (Num y) = Inr (x \<le> y)"
  by (simp add: nle_def not_less)

lemma neq_refl_iff [simp]: "neq a a \<longleftrightarrow> a \<noteq> NotANumber"
  by (cases a) auto

lemma neq_imp_eq: "neq a b \<Longrightarrow> a = b"
  by (cases a; cases b) auto

lemma neq_zero [simp]: "neq a (Num 0) \<longleftrightarrow> a = Num 0"
  by (cases a) auto

lemma nlt_zero_Inr: "nlt (Num 0) a = Inr b \<longleftrightarrow> a \<noteq> NotANumber \<and> (b \<longleftrightarrow> a = Infinite False \<or> (\<exists>x>0. a = Num x))"
  by (cases a) auto

lemma nle_trans: "nle a b = Inr True \<Longrightarrow> nle b c = Inr True \<Longrightarrow> nle a c = Inr True"
  by (cases a; cases b; cases c) (auto simp: nle_def)

lemma nlt_imp_nle: "nlt a b = Inr True \<Longrightarrow> nle a b = Inr True"
  by (cases a; cases b) (auto simp: nle_def)

lemma not_nlt_imp_nle: "nlt a b = Inr False \<Longrightarrow> nle b a = Inr True"
  by (simp add: nle_def)

lemma nle_refl: "a \<noteq> NotANumber \<Longrightarrow> nle a a = Inr True"
  by (cases a) (auto simp: nle_def)

lemma neq_nle: "neq a b \<Longrightarrow> nle a b = Inr True" "neq a b \<Longrightarrow> nle b a = Inr True"
  by (cases a; cases b; auto simp: nle_def)+

end
