(* ===== verification/Exchange_Orders.thy ===== *)
theory Exchange_Orders
  imports Py_Decimal "HOL-Library.AList"
begin

text \<open>
  Reading orders from the exchange (\<open>exchange_orders.py\<close>): client order ids, terminal
  statuses, the attempt state an order shows, and the listing that merges the open and closed, plain
  and conditional views of a symbol into one order per id, keeping the view with the larger fill.
\<close>

subsection \<open>The unified order structure\<close>

text \<open>
  The fields of the exchange client's unified order that the execution code reads. Ids and statuses
  are text or missing; the numeric fields are arbitrary values, converted by the code itself.
\<close>

record order =
  o_id :: "string option"
  o_clientOrderId :: "string option"
  o_info_clientOrderId :: "string option"
  o_info_clientOid :: "string option"
  o_info_orderLinkId :: "string option"
  o_status :: "string option"
  o_filled :: pyval
  o_amount :: pyval
  o_average :: pyval
  o_price :: pyval
  o_cost :: pyval
  o_lastTradeTimestamp :: pyval

text \<open>\<open>a or b\<close> on text fields: the first non-empty text, else the last value.\<close>

definition or_text :: "string option \<Rightarrow> string option \<Rightarrow> string option" where
  "or_text a b = (case a of Some (c # cs) \<Rightarrow> Some (c # cs) | _ \<Rightarrow> b)"

definition NO_FILL_STATUSES :: "string list" where
  "NO_FILL_STATUSES = [''canceled'', ''cancelled'', ''rejected'', ''expired'']"

definition TERMINAL_STATUSES :: "string list" where
  "TERMINAL_STATUSES = NO_FILL_STATUSES @ [''closed'']"

definition decimal_or_none :: "pyval \<Rightarrow> number option" where
  "decimal_or_none value =
     (if value = PNone then None
      else case decimal_of_val value of Inl _ \<Rightarrow> None | Inr d \<Rightarrow> Some d)"

definition client_order_id :: "order \<Rightarrow> string option" where
  "client_order_id ord =
     or_text (o_clientOrderId ord)
       (or_text (o_info_clientOrderId ord)
          (or_text (o_info_clientOid ord) (o_info_orderLinkId ord)))"

definition lower_status :: "order \<Rightarrow> string" where
  "lower_status ord = lower (case o_status ord of None \<Rightarrow> '''' | Some s \<Rightarrow> s)"

definition is_terminal :: "order \<Rightarrow> bool" where
  "is_terminal ord \<longleftrightarrow> lower_status ord \<in> set TERMINAL_STATUSES"

subsection \<open>The state an order shows\<close>

datatype attempt_status =
    Att_pending | Att_accepted | Att_submission_unknown | Att_manual_required
  | Att_completed | Att_no_fill | Att_failed | Att_partial

text \<open>The third component is the reconciliation error, present only for a missing fill amount.\<close>

definition attempt_state_from_order :: "order \<Rightarrow> (attempt_status \<times> number option \<times> bool) res" where
  "attempt_state_from_order ord =
     (let filled = decimal_or_none (o_filled ord);
          terminal = (lower_status ord \<in> set TERMINAL_STATUSES)
      in bindE (case filled of None \<Rightarrow> Inr False | Some f \<Rightarrow> nlt (Num 0) f) (\<lambda>positive.
         if positive
         then Inr (if terminal then Att_completed else Att_accepted, filled, False)
         else if terminal \<and> (case filled of None \<Rightarrow> False | Some f \<Rightarrow> neq f (Num 0))
         then Inr (Att_no_fill, filled, False)
         else if terminal then Inr (Att_manual_required, filled, True)
         else Inr (Att_accepted, filled, False)))"

subsection \<open>Listing\<close>

text \<open>
  What the exchange returns to one listing: its capabilities and, for the plain and the trigger
  filter, the rows (\<open>None\<close> for a row that is no dictionary) or an exception.
\<close>

record order_source =
  has_fetchOpenOrders :: bool
  has_fetchClosedOrders :: bool
  fetch_open_orders :: "bool \<Rightarrow> (order option) list res"
  fetch_closed_orders :: "bool \<Rightarrow> (order option) list res"

text \<open>
  The dictionary key of a row: its id, else its client order id, else the identity of the object,
  which is its position in the whole reading.
\<close>

type_synonym order_key = "string + nat"

definition order_key :: "nat \<Rightarrow> order \<Rightarrow> order_key" where
  "order_key n ord =
     (case or_text (o_id ord) (client_order_id ord) of
        Some (c # cs) \<Rightarrow> Inl (c # cs)
      | _ \<Rightarrow> Inr n)"

definition fill_of :: "order \<Rightarrow> number" where
  "fill_of ord = (case decimal_or_none (o_filled ord) of None \<Rightarrow> Num 0 | Some f \<Rightarrow> f)"

text \<open>\<open>rank(a) > rank(b)\<close> on pairs: the first component that differs decides.\<close>

definition rank_greater :: "order \<Rightarrow> order \<Rightarrow> bool res" where
  "rank_greater a b =
     (if neq (fill_of a) (fill_of b) then Inr (is_terminal a \<and> \<not> is_terminal b)
      else nlt (fill_of b) (fill_of a))"

definition more_complete :: "order option \<Rightarrow> order \<Rightarrow> order res" where
  "more_complete seen ord =
     (case seen of
        None \<Rightarrow> Inr ord
      | Some s \<Rightarrow> bindE (rank_greater ord s) (\<lambda>g. Inr (if g then ord else s)))"

type_synonym order_dict = "(order_key \<times> order) list"

definition add_row :: "nat \<times> order_dict \<Rightarrow> order option \<Rightarrow> (nat \<times> order_dict) res" where
  "add_row st row =
     (case row of
        None \<Rightarrow> Inr (Suc (fst st), snd st)
      | Some ord \<Rightarrow>
          (let k = order_key (fst st) ord in
           bindE (more_complete (map_of (snd st) k) ord) (\<lambda>best.
             Inr (Suc (fst st), AList.update k best (snd st)))))"

definition read_listing ::
  "(bool \<Rightarrow> (order option) list res) \<Rightarrow> nat \<times> order_dict \<Rightarrow> (nat \<times> order_dict) res" where
  "read_listing fetch st =
     foldE (\<lambda>st trigger. bindE (fetch trigger) (\<lambda>rows. foldE add_row st rows)) st [False, True]"

definition list_orders_dict :: "order_source \<Rightarrow> order_dict res" where
  "list_orders_dict ex =
     bindE (check (has_fetchOpenOrders ex) (RuntimeError ''exchange cannot fetchOpenOrders'')) (\<lambda>_.
     bindE (read_listing (fetch_open_orders ex) (0, [])) (\<lambda>st.
     bindE (check (has_fetchClosedOrders ex) (RuntimeError ''exchange cannot fetchClosedOrders'')) (\<lambda>_.
     bindE (read_listing (fetch_closed_orders ex) st) (\<lambda>st'. Inr (snd st')))))"

definition list_orders :: "order_source \<Rightarrow> order list res" where
  "list_orders ex = bindE (list_orders_dict ex) (\<lambda>d. Inr (map snd d))"

definition find_by_client_order_id :: "order_source \<Rightarrow> string \<Rightarrow> order option res" where
  "find_by_client_order_id ex wanted =
     bindE (list_orders ex) (\<lambda>os. Inr (find (\<lambda>ord. client_order_id ord = Some wanted) os))"

text \<open>A failed or timed-out lookup reads as not found.\<close>

definition look_up :: "order_source \<Rightarrow> string \<Rightarrow> order option" where
  "look_up ex wanted =
     (case find_by_client_order_id ex wanted of Inl _ \<Rightarrow> None | Inr found \<Rightarrow> found)"

definition orders_with_prefix :: "order_source \<Rightarrow> string \<Rightarrow> order list res" where
  "orders_with_prefix ex prefix =
     bindE (list_orders ex) (\<lambda>os.
       Inr (filter (\<lambda>ord. startswith (case client_order_id ord of None \<Rightarrow> '''' | Some c \<Rightarrow> c) prefix) os))"

subsection \<open>What the listing guarantees\<close>

definition covers :: "order_dict \<Rightarrow> nat \<Rightarrow> order \<Rightarrow> bool" where
  "covers d n ord \<longleftrightarrow>
     (\<exists>best. map_of d (order_key n ord) = Some best \<and>
             (best = ord \<or> nle (fill_of ord) (fill_of best) = Inr True))"

lemma rank_greater_nle:
  "rank_greater a b = Inr True \<Longrightarrow> nle (fill_of b) (fill_of a) = Inr True"
  "rank_greater a b = Inr False \<Longrightarrow> nle (fill_of a) (fill_of b) = Inr True"
  by (auto simp: rank_greater_def nlt_imp_nle not_nlt_imp_nle neq_nle split: if_splits)

lemma covers_update:
  assumes "more_complete (map_of d k) ord = Inr best"
  shows "covers d n x \<Longrightarrow> covers (AList.update k best d) n x"
    and "order_key n ord = k \<Longrightarrow> covers (AList.update k best d) n ord"
proof -
  have best: "best = ord \<or> nle (fill_of ord) (fill_of best) = Inr True"
    and old: "\<And>s. map_of d k = Some s \<Longrightarrow> best = s \<or> nle (fill_of s) (fill_of best) = Inr True"
    using assms rank_greater_nle
    by (auto simp: more_complete_def bindE_eq_Inr split: option.splits if_splits)
  show "covers d n x \<Longrightarrow> covers (AList.update k best d) n x"
    using old by (auto simp: covers_def update_conv' dest: nle_trans)
  show "order_key n ord = k \<Longrightarrow> covers (AList.update k best d) n ord"
    using best by (auto simp: covers_def update_conv')
qed

text \<open>The four readings of one listing, in the order the code makes them.\<close>

definition listing_rows :: "order_source \<Rightarrow> (order option) list res" where
  "listing_rows ex =
     bindE (fetch_open_orders ex False) (\<lambda>r1. bindE (fetch_open_orders ex True) (\<lambda>r2.
     bindE (fetch_closed_orders ex False) (\<lambda>r3. bindE (fetch_closed_orders ex True) (\<lambda>r4.
     Inr (r1 @ r2 @ r3 @ r4)))))"

lemma list_orders_dict_rows:
  assumes "list_orders_dict ex = Inr d"
  shows "\<exists>rows n. listing_rows ex = Inr rows \<and> foldE add_row (0, []) rows = Inr (n, d)"
  using assms
  by (auto simp: list_orders_dict_def read_listing_def listing_rows_def foldE_append bindE_eq_Inr)

lemma add_row_counter: "add_row (n, d) row = Inr (a, b) \<Longrightarrow> a = Suc n"
  by (auto simp: add_row_def Let_def bindE_eq_Inr split: option.splits)

lemma add_rows_ConsE:
  assumes "foldE add_row (n, d) (row # rows) = Inr r"
  obtains d1 where "add_row (n, d) row = Inr (Suc n, d1)" "foldE add_row (Suc n, d1) rows = Inr r"
proof -
  obtain st where st: "add_row (n, d) row = Inr st" "foldE add_row st rows = Inr r"
    using assms by (auto simp: bindE_eq_Inr)
  obtain a d1 where "st = (a, d1)" by (cases st)
  with st add_row_counter[of n d row a d1] that show ?thesis by simp
qed

lemma add_rows_covers:
  assumes "foldE add_row (n, d) rows = Inr (n', d')"
  shows "(\<forall>m x. covers d m x \<longrightarrow> covers d' m x) \<and>
         (\<forall>i ord. i < length rows \<and> rows ! i = Some ord \<longrightarrow> covers d' (n + i) ord)"
  using assms
proof (induction rows arbitrary: n d)
  case (Cons row rows)
  from Cons.prems obtain d1 where d1: "add_row (n, d) row = Inr (Suc n, d1)"
    and rest: "foldE add_row (Suc n, d1) rows = Inr (n', d')"
    by (rule add_rows_ConsE)
  have step: "(\<forall>m x. covers d m x \<longrightarrow> covers d1 m x) \<and> (\<forall>ord. row = Some ord \<longrightarrow> covers d1 n ord)"
    using d1 by (cases row) (auto simp: add_row_def Let_def bindE_eq_Inr intro: covers_update)
  note IH = Cons.IH[OF rest]
  have "covers d' (n + i) ord" if "i < length (row # rows)" "(row # rows) ! i = Some ord" for i ord
  proof (cases i)
    case 0
    then have "covers d1 n ord" using that(2) step by simp
    then show ?thesis using 0 IH by simp
  next
    case (Suc j)
    then have "covers d' (Suc n + j) ord" using that IH by simp
    then show ?thesis using Suc by simp
  qed
  then show ?case using step IH by blast
qed simp

lemma add_rows_origin:
  assumes "foldE add_row (n, d) rows = Inr (n', d')" "distinct (map fst d)"
  shows "distinct (map fst d') \<and> snd ` set d' \<subseteq> snd ` set d \<union> {ord. Some ord \<in> set rows}"
  using assms
proof (induction rows arbitrary: n d)
  case (Cons row rows)
  from Cons.prems(1) obtain d1 where d1: "add_row (n, d) row = Inr (Suc n, d1)"
    and rest: "foldE add_row (Suc n, d1) rows = Inr (n', d')"
    by (rule add_rows_ConsE)
  have "distinct (map fst d1) \<and> snd ` set d1 \<subseteq> snd ` set d \<union> {ord. row = Some ord}"
  proof (cases row)
    case None
    then show ?thesis using d1 Cons.prems(2) by (auto simp: add_row_def)
  next
    case (Some ord)
    obtain best where best: "more_complete (map_of d (order_key n ord)) ord = Inr best"
      and d1': "d1 = AList.update (order_key n ord) best d"
      using d1 Some by (auto simp: add_row_def Let_def bindE_eq_Inr)
    have "best = ord \<or> map_of d (order_key n ord) = Some best"
      using best by (auto simp: more_complete_def bindE_eq_Inr split: option.splits if_splits)
    then have "best = ord \<or> best \<in> snd ` set d" by (force dest: map_of_SomeD)
    moreover have "set d1 \<subseteq> set d \<union> {(order_key n ord, best)}"
      unfolding d1' by (induction d) auto
    ultimately have "snd ` set d1 \<subseteq> snd ` set d \<union> {ord}" by force
    then show ?thesis
      using Cons.prems(2) Some by (simp add: d1' distinct_update)
  qed
  with Cons.IH[OF rest] show ?case by auto
qed simp


definition sample_order :: order where
  "sample_order =
     \<lparr>o_id = Some ''7'', o_clientOrderId = Some ''abc'', o_info_clientOrderId = None,
      o_info_clientOid = None, o_info_orderLinkId = None, o_status = Some ''open'',
      o_filled = PInt 1, o_amount = PInt 3, o_average = PNone, o_price = PNone, o_cost = PNone,
      o_lastTradeTimestamp = PNone\<rparr>"

definition sample_source :: order_source where
  "sample_source =
     \<lparr>has_fetchOpenOrders = True, has_fetchClosedOrders = True,
      fetch_open_orders = (\<lambda>t. Inr (if t then [] else [Some sample_order])),
      fetch_closed_orders = (\<lambda>t. Inr (if t then [Some (sample_order\<lparr>o_status := Some ''closed'', o_filled := PInt 3\<rparr>)]
                                      else [None]))\<rparr>"


text \<open>
  An order resolves its attempt only on full evidence: the state is completed exactly for a
  terminal order with a positive fill, no_fill exactly for a terminal order with an explicit zero
  fill; a terminal order without a usable amount asks for an operator, and an order that may still
  fill stays accepted.
\<close>

theorem attempt_state_evidence:
  assumes "attempt_state_from_order ord = Inr (st, filled, err)"
  shows "filled = decimal_or_none (o_filled ord) \<and>
         (st = Att_completed \<longleftrightarrow> is_terminal ord \<and> (\<exists>f. filled = Some f \<and> nlt (Num 0) f = Inr True)) \<and>
         (st = Att_no_fill \<longleftrightarrow> is_terminal ord \<and> filled = Some (Num 0)) \<and>
         (st = Att_accepted \<longleftrightarrow> \<not> is_terminal ord) \<and>
         (st = Att_manual_required \<longleftrightarrow> is_terminal ord \<and> err) \<and>
         st \<in> {Att_completed, Att_no_fill, Att_accepted, Att_manual_required}"
  using assms
  by (auto simp: attempt_state_from_order_def is_terminal_def Let_def bindE_eq_Inr
      split: option.splits if_splits)

theorem attempt_state_evidence_witness:
  "attempt_state_from_order sample_order = Inr (Att_accepted, Some (Num 1), False) \<and> \<not> is_terminal sample_order"
proof -
  have r: "attempt_state_from_order sample_order = Inr (Att_accepted, Some (Num 1), False)"
    by (simp add: attempt_state_from_order_def sample_order_def decimal_or_none_def decimal_of_val_def
        lower_status_def lower_def lower_char_def TERMINAL_STATUSES_def NO_FILL_STATUSES_def Let_def)
  then show ?thesis using attempt_state_evidence[OF r] by simp
qed

end
