(* ===== verification/Reconciliation.thy ===== *)
theory Reconciliation
  imports Exchange_Orders "HOL-Library.List_Lexorder" "HOL-Library.Char_ord"
begin

text \<open>
  The pure part of position reconciliation (\<open>reconciliation.py\<close>): exact instrument identities,
  the snapshots of the three sources (exchange, journal, Redis), and the classification of one
  identity into healthy or quarantined.
\<close>

subsection \<open>Identities and snapshots\<close>

datatype full_identity = FullIdentity
  (fi_exchange: string) (fi_symbol: string) (fi_native_market_id: string) (fi_market_type: string) (fi_side: string)

definition complete :: "full_identity \<Rightarrow> bool" where
  "complete i \<longleftrightarrow>
     fi_exchange i \<noteq> [] \<and> fi_symbol i \<noteq> [] \<and> fi_native_market_id i \<noteq> [] \<and> fi_market_type i \<noteq> [] \<and>
     fi_side i \<in> {''long'', ''short''}"

text \<open>Identities are ordered field by field, as the ordered dataclass is.\<close>

definition identity_key :: "full_identity \<Rightarrow> string list" where
  "identity_key i = [fi_exchange i, fi_symbol i, fi_native_market_id i, fi_market_type i, fi_side i]"

lemma identity_key_inject: "identity_key a = identity_key b \<Longrightarrow> a = b"
  by (cases a; cases b) (simp add: identity_key_def)

instantiation full_identity :: linorder
begin

definition less_eq_full_identity :: "full_identity \<Rightarrow> full_identity \<Rightarrow> bool" where
  "less_eq_full_identity a b \<longleftrightarrow> identity_key a \<le> identity_key b"

definition less_full_identity :: "full_identity \<Rightarrow> full_identity \<Rightarrow> bool" where
  "less_full_identity a b \<longleftrightarrow> identity_key a < identity_key b"

instance
  by standard
     (auto simp: less_eq_full_identity_def less_full_identity_def intro: identity_key_inject)

end

record exchange_snapshot =
  ex_contracts :: number
  ex_entry_price :: "number option"

record owned_trade =
  ot_identity :: full_identity
  ot_trade_id :: int
  ot_attempt_id :: "int option"
  ot_base :: string
  ot_contracts :: "number option"

record order_attempt =
  at_identity :: full_identity
  at_attempt_id :: int
  at_base :: string
  at_client_order_id :: string
  at_order_id :: "string option"
  at_status :: attempt_status
  at_requested_amount :: "number option"
  at_filled_amount :: "number option"
  at_trade_id :: "int option"

record redis_snapshot =
  rs_trade_id :: int
  rs_exchange :: string
  rs_base :: string

definition unresolved :: "order_attempt \<Rightarrow> bool" where
  "unresolved a \<longleftrightarrow>
     at_status a \<in> {Att_pending, Att_accepted, Att_submission_unknown, Att_manual_required}"

definition no_position_status :: "attempt_status \<Rightarrow> bool" where
  "no_position_status st \<longleftrightarrow> st \<in> {Att_no_fill, Att_failed}"

subsection \<open>Decisions\<close>

datatype discrepancy_type =
    HEALTHY | UNRESOLVED_ORDER_ATTEMPT | MISSING_REDIS | MISSING_TRADE_EXACT_ATTEMPT
  | EXCHANGE_ONLY_ORPHAN | DB_ONLY_ORPHAN | REDIS_ONLY_STALE | POSITION_SIZE_MISMATCH
  | INCOMPLETE_IDENTITY | UNKNOWN_MISMATCH

datatype action_directive = ALLOW_ENTRY | QUARANTINE_INCIDENT | MANUAL_INTERVENTION_REQUIRED

record decision =
  discrepancy :: discrepancy_type
  directive :: action_directive
  allow_entry :: bool
  incident_required :: bool
  manual_required :: bool

definition contracts_tolerance :: decimal where
  "contracts_tolerance = 1 / 100000000"

definition same_contracts :: "number option \<Rightarrow> number option \<Rightarrow> bool res" where
  "same_contracts left right =
     (case (left, right) of
        (Some l, Some r) \<Rightarrow> bindE (nsub l r) (\<lambda>d. nle (nabs d) (Num contracts_tolerance))
      | _ \<Rightarrow> Inr False)"

text \<open>\<open>None\<close> when the amount of an attempt that can hold a position is unknown.\<close>

fun attempts_filled_from :: "number \<Rightarrow> order_attempt list \<Rightarrow> number option res" where
  "attempts_filled_from tot [] = Inr (Some tot)"
| "attempts_filled_from tot (a # as) =
     (if no_position_status (at_status a) then attempts_filled_from tot as
      else case at_filled_amount a of
        None \<Rightarrow> Inr None
      | Some f \<Rightarrow> bindE (nadd tot f) (\<lambda>t. attempts_filled_from t as))"

definition attempts_filled :: "order_attempt list \<Rightarrow> number option res" where
  "attempts_filled as = attempts_filled_from (Num 0) as"

definition quarantine :: "discrepancy_type \<Rightarrow> bool \<Rightarrow> decision" where
  "quarantine d manual =
     \<lparr>discrepancy = d,
      directive = (if manual then MANUAL_INTERVENTION_REQUIRED else QUARANTINE_INCIDENT),
      allow_entry = False, incident_required = True, manual_required = manual\<rparr>"

definition healthy :: decision where
  "healthy = \<lparr>discrepancy = HEALTHY, directive = ALLOW_ENTRY, allow_entry = True,
              incident_required = False, manual_required = False\<rparr>"

definition classify_position_state ::
  "full_identity \<Rightarrow> exchange_snapshot option \<Rightarrow> owned_trade option \<Rightarrow> order_attempt list \<Rightarrow>
   redis_snapshot option \<Rightarrow> decision res" where
  "classify_position_state identity exchange_snap db_trade db_attempts redis_snap =
     (if \<not> complete identity then Inr (quarantine INCOMPLETE_IDENTITY True)
      else if list_ex unresolved db_attempts then Inr (quarantine UNRESOLVED_ORDER_ATTEMPT False)
      else if exchange_snap = None \<and> db_trade = None \<and> redis_snap = None \<and> db_attempts \<noteq> [] \<and>
              list_all (\<lambda>a. no_position_status (at_status a)) db_attempts
      then Inr healthy
      else case (exchange_snap, db_trade, redis_snap) of
        (Some x, Some t, Some _) \<Rightarrow>
          bindE (same_contracts (Some (ex_contracts x)) (ot_contracts t)) (\<lambda>same.
            Inr (if same then healthy else quarantine POSITION_SIZE_MISMATCH True))
      | (Some x, Some t, None) \<Rightarrow> Inr (quarantine MISSING_REDIS True)
      | (Some x, None, _) \<Rightarrow>
          if db_attempts \<noteq> []
          then bindE (attempts_filled db_attempts) (\<lambda>filled.
               bindE (same_contracts (Some (ex_contracts x)) filled) (\<lambda>same.
                 Inr (if \<not> same then quarantine POSITION_SIZE_MISMATCH True
                      else quarantine MISSING_TRADE_EXACT_ATTEMPT True)))
          else Inr (quarantine EXCHANGE_ONLY_ORPHAN True)
      | (None, Some t, _) \<Rightarrow> Inr (quarantine DB_ONLY_ORPHAN True)
      | (None, None, Some _) \<Rightarrow> Inr (quarantine REDIS_ONLY_STALE True)
      | (None, None, None) \<Rightarrow> Inr (quarantine UNKNOWN_MISMATCH True))"

subsection \<open>What a decision means\<close>

lemma quarantine_simps [simp]:
  "incident_required (quarantine d m)" "\<not> allow_entry (quarantine d m)"
  "discrepancy (quarantine d m) = d"
  by (simp_all add: quarantine_def)

lemma healthy_simps [simp]:
  "\<not> incident_required healthy" "allow_entry healthy" "discrepancy healthy = HEALTHY"
  by (simp_all add: healthy_def)

lemma same_contracts_Num:
  "same_contracts (Some (Num x)) (Some (Num y)) = Inr (dabs (dsub x y) \<le> contracts_tolerance)"
  by (simp add: same_contracts_def)

text \<open>Every decision allows entry exactly when it opens no incident.\<close>

lemma classify_allow_iff_no_incident:
  "classify_position_state i x t as r = Inr d \<Longrightarrow> allow_entry d \<longleftrightarrow> \<not> incident_required d"
  by (auto simp: classify_position_state_def bindE_eq_Inr split: if_splits option.splits)

lemma classify_allowed:
  assumes "classify_position_state i x t as r = Inr d" "allow_entry d"
  shows "complete i \<and> \<not> list_ex unresolved as \<and>
     ((x = None \<and> t = None \<and> r = None) \<or>
      (\<exists>sx st sr. x = Some sx \<and> t = Some st \<and> r = Some sr \<and>
         same_contracts (Some (ex_contracts sx)) (ot_contracts st) = Inr True))"
  using assms
  by (cases x; cases t; cases r)
     (auto simp: classify_position_state_def bindE_eq_Inr split: if_splits)

text \<open>
  C37. An identity allows entry in two cases only: nothing anywhere but attempts that ended without a
  position, or an exchange position, an open journal trade and a Redis projection whose contracts
  agree within the tolerance. In both the identity is exact and no attempt is unresolved; every other
  combination opens an incident.
\<close>

theorem classify_healthy_iff:
  assumes "classify_position_state i x t as r = Inr d"
  shows "allow_entry d \<longleftrightarrow>
     complete i \<and> \<not> list_ex unresolved as \<and>
     ((x = None \<and> t = None \<and> r = None \<and> as \<noteq> [] \<and> list_all (\<lambda>a. no_position_status (at_status a)) as) \<or>
      (\<exists>sx st sr. x = Some sx \<and> t = Some st \<and> r = Some sr \<and>
         same_contracts (Some (ex_contracts sx)) (ot_contracts st) = Inr True))"
  using assms
  by (cases x; cases t; cases r)
     (auto simp: classify_position_state_def bindE_eq_Inr split: if_splits)

definition sample_identity :: full_identity where
  "sample_identity = FullIdentity ''bybit'' ''ABC/USDT:USDT'' ''ABCUSDT'' ''swap'' ''short''"

theorem classify_healthy_iff_witness:
  "classify_position_state sample_identity
     (Some \<lparr>ex_contracts = Num 3, ex_entry_price = None\<rparr>)
     (Some \<lparr>ot_identity = sample_identity, ot_trade_id = 1, ot_attempt_id = None, ot_base = ''ABC'',
             ot_contracts = Some (Num 3)\<rparr>)
     [] (Some \<lparr>rs_trade_id = 1, rs_exchange = ''bybit'', rs_base = ''ABC''\<rparr>) = Inr healthy \<and>
   complete sample_identity"
proof -
  have c: "classify_position_state sample_identity
     (Some \<lparr>ex_contracts = Num 3, ex_entry_price = None\<rparr>)
     (Some \<lparr>ot_identity = sample_identity, ot_trade_id = 1, ot_attempt_id = None, ot_base = ''ABC'',
             ot_contracts = Some (Num 3)\<rparr>)
     [] (Some \<lparr>rs_trade_id = 1, rs_exchange = ''bybit'', rs_base = ''ABC''\<rparr>) = Inr healthy"
    by (simp add: classify_position_state_def complete_def sample_identity_def same_contracts_Num
        dsub_def dabs_def contracts_tolerance_def)
  show ?thesis using classify_healthy_iff[OF c] c by simp
qed

end
