(* ===== verification/Exit_Policy.thy ===== *)
theory Exit_Policy
  imports Py_Value
begin

text \<open>
  The exit policy shared by the live monitor, the paper broker and replay
  (\<open>schurfer_performance/exit_policy.py\<close>) and its Redis-backed wrapper
  (\<open>exit.py\<close>): exit parameters by pump size, the three-phase decision, the stored parameters and
  the running best price.
\<close>

subsection \<open>Parameters\<close>

text \<open>
  The six required parameters are numbers. The two optional ones are read from the stored dictionary
  without a type check, so they are arbitrary values; \<open>take_profit_pct\<close> is \<open>None\<close> when absent.
\<close>

record exit_params =
  initial_sl_pct :: pyfloat
  activation_pct :: pyfloat
  trail_pct :: pyfloat
  trail_tighten_pct :: pyfloat
  tighten_after_min :: pyfloat
  max_hold_min :: pyfloat
  no_progress_min :: pyval
  take_profit_pct :: pyval

definition mk_params :: "rat \<Rightarrow> rat \<Rightarrow> rat \<Rightarrow> rat \<Rightarrow> rat \<Rightarrow> rat \<Rightarrow> exit_params" where
  "mk_params sl act tr ti after hold =
     \<lparr>initial_sl_pct = Fin sl, activation_pct = Fin act, trail_pct = Fin tr,
      trail_tighten_pct = Fin ti, tighten_after_min = Fin after, max_hold_min = Fin hold,
      no_progress_min = PFloat (Fin 60), take_profit_pct = PNone\<rparr>"

definition exit_params_for :: "pyfloat option \<Rightarrow> exit_params" where
  "exit_params_for pump_pct =
     (let p = (case pump_pct of None \<Rightarrow> Fin 50 | Some x \<Rightarrow> if x = Fin 0 then Fin 50 else x)
      in if flt p (Fin 50) then mk_params 8 8 12 8 90 180
         else if flt p (Fin 100) then mk_params 10 12 15 10 120 240
         else mk_params 12 15 20 12 180 360)"

definition REQUIRED_PARAM_KEYS :: "string list" where
  "REQUIRED_PARAM_KEYS =
     [''initial_sl_pct'', ''activation_pct'', ''trail_pct'', ''trail_tighten_pct'',
      ''tighten_after_min'', ''max_hold_min'']"

text \<open>A value that is an \<open>int | float\<close> (a bool is an int), with the number it is.\<close>

fun num_val :: "pyval \<Rightarrow> pyfloat option" where
  "num_val (PBool b) = Some (Fin (if b then 1 else 0))"
| "num_val (PInt n) = Some (Fin (of_int n))"
| "num_val (PFloat f) = Some f"
| "num_val _ = None"

definition params_of_dict :: "(string \<times> pyval) list \<Rightarrow> exit_params option" where
  "params_of_dict d =
     (case map (\<lambda>k. num_val (py_get d k)) REQUIRED_PARAM_KEYS of
        [Some sl, Some act, Some tr, Some ti, Some after, Some hold] \<Rightarrow>
          Some \<lparr>initial_sl_pct = sl, activation_pct = act, trail_pct = tr, trail_tighten_pct = ti,
                tighten_after_min = after, max_hold_min = hold,
                no_progress_min =
                  (case map_of d ''no_progress_min'' of None \<Rightarrow> PFloat hold | Some v \<Rightarrow> v),
                take_profit_pct = py_get d ''take_profit_pct''\<rparr>
      | _ \<Rightarrow> None)"

text \<open>
  The stored text is identified with the JSON value it denotes; \<open>None\<close> is a missing key, empty text
  or text that is no JSON.
\<close>

definition load_exit_params :: "pyval option \<Rightarrow> exit_params" where
  "load_exit_params raw =
     (case raw of
        Some (PDict d) \<Rightarrow>
          (case params_of_dict d of Some p \<Rightarrow> p | None \<Rightarrow> exit_params_for None)
      | _ \<Rightarrow> exit_params_for None)"

subsection \<open>The decision\<close>

datatype exit_reason =
    Max_hold pyfloat
  | Take_profit pyfloat
  | No_progress pyfloat
  | Initial_sl pyfloat
  | Trailing_stop pyfloat pyfloat

record exit_evaluation =
  exit_reason :: "exit_reason option"
  new_best_price :: "pyfloat option"

text \<open>\<open>x >= v\<close> with an arbitrary right operand: a non-number raises \<open>TypeError\<close>.\<close>

definition ge_val :: "pyfloat \<Rightarrow> pyval \<Rightarrow> bool res" where
  "ge_val x v = (case num_val v of None \<Rightarrow> Inl TypeError | Some y \<Rightarrow> Inr (fle y x))"

definition move_pct :: "string \<Rightarrow> pyfloat \<Rightarrow> pyfloat \<Rightarrow> pyfloat res" where
  "move_pct side entry_price current_price =
     bindE (fdiv (if side = ''short'' then fsub entry_price current_price
                  else fsub current_price entry_price) entry_price)
       (\<lambda>r. Inr (fmul r (Fin 100)))"

definition advance_best :: "string \<Rightarrow> pyfloat \<Rightarrow> pyfloat \<Rightarrow> pyfloat" where
  "advance_best side best current_price =
     (if side = ''short'' then fmin best current_price else fmax best current_price)"

definition trail_at :: "exit_params \<Rightarrow> pyfloat \<Rightarrow> pyfloat" where
  "trail_at params elapsed_min =
     (if fle (tighten_after_min params) elapsed_min then trail_tighten_pct params else trail_pct params)"

text \<open>The price level of the trailing stop: above the best price for a short, below it for a long.\<close>

definition stop_level :: "string \<Rightarrow> pyfloat \<Rightarrow> pyfloat \<Rightarrow> pyfloat res" where
  "stop_level side trail best =
     bindE (fdiv trail (Fin 100)) (\<lambda>r.
       Inr (fmul best (if side = ''short'' then fadd (Fin 1) r else fsub (Fin 1) r)))"

text \<open>Phase 1, before trailing is active: the fixed stop, and activation.\<close>

definition initial_phase ::
  "pyfloat \<Rightarrow> pyfloat \<Rightarrow> pyfloat \<Rightarrow> exit_params \<Rightarrow> exit_evaluation res" where
  "initial_phase current_price elapsed_min move params =
     bindE (ge_val elapsed_min (no_progress_min params)) (\<lambda>stalled.
       if stalled then Inr \<lparr>exit_reason = Some (No_progress elapsed_min), new_best_price = None\<rparr>
       else if fle move (fneg (initial_sl_pct params))
       then Inr \<lparr>exit_reason = Some (Initial_sl move), new_best_price = None\<rparr>
       else if fle (activation_pct params) move
       then Inr \<lparr>exit_reason = None, new_best_price = Some current_price\<rparr>
       else Inr \<lparr>exit_reason = None, new_best_price = None\<rparr>)"

text \<open>Phases 2 and 3: the best price advances, and the stop trails it.\<close>

definition trailing_phase ::
  "string \<Rightarrow> pyfloat \<Rightarrow> pyfloat \<Rightarrow> pyfloat \<Rightarrow> pyfloat \<Rightarrow> exit_params \<Rightarrow> exit_evaluation res" where
  "trailing_phase side best_price current_price elapsed_min profit params =
     (let best = advance_best side best_price current_price;
          advanced = (if feq best best_price then None else Some best);
          trail = trail_at params elapsed_min
      in bindE (stop_level side trail best) (\<lambda>level.
           let stopped = (if side = ''short'' then fle level current_price else fle current_price level)
           in if stopped
              then Inr \<lparr>exit_reason = Some (Trailing_stop trail profit), new_best_price = advanced\<rparr>
              else Inr \<lparr>exit_reason = None, new_best_price = advanced\<rparr>))"

definition take_profit_hit :: "pyfloat \<Rightarrow> exit_params \<Rightarrow> bool res" where
  "take_profit_hit move params =
     (if take_profit_pct params = PNone then Inr False else ge_val move (take_profit_pct params))"

definition evaluate_exit ::
  "string \<Rightarrow> pyfloat \<Rightarrow> pyfloat \<Rightarrow> pyfloat \<Rightarrow> pyfloat option \<Rightarrow> exit_params \<Rightarrow> exit_evaluation res" where
  "evaluate_exit side entry_price current_price elapsed_min best_price params =
     (if fle (max_hold_min params) elapsed_min
      then Inr \<lparr>exit_reason = Some (Max_hold elapsed_min), new_best_price = None\<rparr>
      else
        bindE (move_pct side entry_price current_price) (\<lambda>move.
        bindE (take_profit_hit move params) (\<lambda>hit.
        if hit then Inr \<lparr>exit_reason = Some (Take_profit move), new_best_price = None\<rparr>
        else case best_price of
          None \<Rightarrow> initial_phase current_price elapsed_min move params
        | Some b \<Rightarrow> trailing_phase side b current_price elapsed_min move params)))"

subsection \<open>Keys and the Redis-backed check\<close>

definition best_price_key :: "bool \<Rightarrow> string \<Rightarrow> string \<Rightarrow> string" where
  "best_price_key paper ex base =
     (if paper then ''exit:best:paper:'' else ''exit:best:'') @ ex @ '':'' @ upper base"

definition params_key :: "string \<Rightarrow> string \<Rightarrow> string" where
  "params_key ex base = ''exit:params:'' @ ex @ '':'' @ upper base"

definition entry_key :: "string \<Rightarrow> string \<Rightarrow> string" where
  "entry_key ex base = ''position:entry:'' @ ex @ '':'' @ upper base"

definition side_key :: "string \<Rightarrow> string \<Rightarrow> string" where
  "side_key ex base = ''position:side:'' @ ex @ '':'' @ upper base"

definition size_usd_key :: "string \<Rightarrow> string \<Rightarrow> string" where
  "size_usd_key ex base = ''position:size_usd:'' @ ex @ '':'' @ upper base"

text \<open>
  \<open>str(f)\<close> as the number the text denotes, and \<open>float(text)\<close> back (\<open>float_of_number\<close>).
\<close>

fun float_text :: "pyfloat \<Rightarrow> number" where
  "float_text (Fin x) = Num (repr_rat x)"
| "float_text PInf = Infinite False"
| "float_text NInf = Infinite True"
| "float_text NaN = NotANumber"

text \<open>
  One tick of \<open>check_exit\<close>: the stored best price before and after, and the close reason. The clock
  reading is an argument; an expired key would read as no best price and is left out.
\<close>

definition check_exit ::
  "string \<Rightarrow> pyfloat \<Rightarrow> pyfloat \<Rightarrow> pyfloat \<Rightarrow> pyfloat \<Rightarrow> exit_params \<Rightarrow> number option \<Rightarrow>
   (exit_reason option \<times> number option) res" where
  "check_exit side entry_price current_price now opened_at params stored =
     bindE (fdiv (fsub now opened_at) (Fin 60)) (\<lambda>elapsed_min.
     bindE (evaluate_exit side entry_price current_price elapsed_min
              (map_option float_of_number stored) params) (\<lambda>ev.
       Inr (exit_reason ev,
            case new_best_price ev of None \<Rightarrow> stored | Some b \<Rightarrow> Some (float_text b))))"

text \<open>
  A position's life as a list of ticks (price, clock): the live monitor through Redis, and a replay
  that keeps the best price in a variable. Both end at the first close reason.
\<close>

fun monitor_ticks ::
  "string \<Rightarrow> pyfloat \<Rightarrow> pyfloat \<Rightarrow> exit_params \<Rightarrow> number option \<Rightarrow> (pyfloat \<times> pyfloat) list \<Rightarrow>
   (exit_reason option \<times> nat) res" where
  "monitor_ticks side entry_price opened_at params stored [] = Inr (None, 0)"
| "monitor_ticks side entry_price opened_at params stored ((price, now) # ticks) =
     bindE (check_exit side entry_price price now opened_at params stored) (\<lambda>(why, stored').
       if why \<noteq> None then Inr (why, 0)
       else bindE (monitor_ticks side entry_price opened_at params stored' ticks)
              (\<lambda>(r, n). Inr (r, Suc n)))"

fun replay_ticks ::
  "string \<Rightarrow> pyfloat \<Rightarrow> pyfloat \<Rightarrow> exit_params \<Rightarrow> pyfloat option \<Rightarrow> (pyfloat \<times> pyfloat) list \<Rightarrow>
   (exit_reason option \<times> nat) res" where
  "replay_ticks side entry_price opened_at params best [] = Inr (None, 0)"
| "replay_ticks side entry_price opened_at params best ((price, now) # ticks) =
     bindE (fdiv (fsub now opened_at) (Fin 60)) (\<lambda>elapsed_min.
     bindE (evaluate_exit side entry_price price elapsed_min best params) (\<lambda>ev.
       if exit_reason ev \<noteq> None then Inr (exit_reason ev, 0)
       else bindE (replay_ticks side entry_price opened_at params
                     (case new_best_price ev of None \<Rightarrow> best | Some b \<Rightarrow> Some b) ticks)
              (\<lambda>(r, n). Inr (r, Suc n))))"

subsection \<open>Redis-backed monitor and replay agree\<close>

lemma float_text_reads_back: "is_float f \<Longrightarrow> float_of_number (float_text f) = f"
  by (cases f) (auto simp: float_of_number_def repr_rat_reads_back)

lemma initial_phase_Inr:
  assumes "initial_phase p el move params = Inr ev"
  shows "new_best_price ev \<in> {None, Some p}"
    and "exit_reason ev = None \<Longrightarrow>
         ge_val el (no_progress_min params) = Inr False \<and> \<not> fle move (fneg (initial_sl_pct params)) \<and>
         (new_best_price ev = Some p \<longleftrightarrow> fle (activation_pct params) move)"
  using assms by (auto simp: initial_phase_def bindE_eq_Inr split: if_splits)

lemma trailing_phase_Inr:
  assumes "trailing_phase side b p el move params = Inr ev"
  shows "new_best_price ev \<in> {None, Some p, Some b}"
    and "exit_reason ev = None \<Longrightarrow>
         \<exists>level. stop_level side (trail_at params el) (advance_best side b p) = Inr level \<and>
                 (if side = ''short'' then \<not> fle level p else \<not> fle p level)"
  using assms
  by (auto simp: trailing_phase_def Let_def bindE_eq_Inr advance_best_def fmin_def fmax_def
      split: if_splits)

lemma evaluate_exit_new_best:
  assumes "evaluate_exit side e p el best params = Inr ev" "new_best_price ev = Some b"
  shows "b = p \<or> best = Some b"
  using assms
  by (auto simp: evaluate_exit_def bindE_eq_Inr split: if_splits option.splits
      dest: initial_phase_Inr(1) trailing_phase_Inr(1))


lemma is_float_numeral: "(numeral k :: int) \<le> 2 ^ 33 \<Longrightarrow> is_float (Fin (numeral k))"
  by (metis fl_numeral is_float_fl)


subsection \<open>Limits that every open position respects\<close>

text \<open>
  A position stays open only within its limits: when a tick gives no close reason, the holding
  time is below \<open>max_hold\<close>, a take-profit target is not reached, and either trailing is inactive
  with the loss below the initial stop and the no-progress time not reached, or trailing is active
  and the price has not crossed the stop level of the best price seen.
\<close>

theorem open_position_within_limits:
  assumes "evaluate_exit side e p el best params = Inr ev" and "exit_reason ev = None"
  shows "\<not> fle (max_hold_min params) el \<and>
    (\<exists>move. move_pct side e p = Inr move \<and>
       (take_profit_pct params = PNone \<or> ge_val move (take_profit_pct params) = Inr False) \<and>
       (case best of
          None \<Rightarrow> ge_val el (no_progress_min params) = Inr False \<and>
                  \<not> fle move (fneg (initial_sl_pct params)) \<and>
                  (new_best_price ev = Some p \<longleftrightarrow> fle (activation_pct params) move)
        | Some b \<Rightarrow>
            (\<exists>level. stop_level side (trail_at params el) (advance_best side b p) = Inr level \<and>
               (if side = ''short'' then \<not> fle level p else \<not> fle p level))))"
  using assms
  by (auto simp: evaluate_exit_def bindE_eq_Inr take_profit_hit_def split: if_splits option.splits
      dest: initial_phase_Inr(2) trailing_phase_Inr(2))

theorem open_position_within_limits_witness:
  "evaluate_exit ''short'' (Fin 128) (Fin 124) (Fin 30) None (exit_params_for None) =
     Inr \<lparr>exit_reason = None, new_best_price = None\<rparr> \<and>
   \<not> fle (max_hold_min (exit_params_for None)) (Fin 30)"
proof -
  have e: "evaluate_exit ''short'' (Fin 128) (Fin 124) (Fin 30) None (exit_params_for None) =
     Inr \<lparr>exit_reason = None, new_best_price = None\<rparr>"
    by (simp add: evaluate_exit_def exit_params_for_def mk_params_def move_pct_def fsub_def ge_val_def
        take_profit_hit_def initial_phase_def)
  show ?thesis using open_position_within_limits[OF e] e by simp
qed

subsection \<open>The trailing stop is a ratchet\<close>

lemma fmul_mono_both:
  assumes "0 < b'" "b' \<le> b" "fle y' y" "fle (Fin 0) y'"
  shows "fle (fmul (Fin b') y') (fmul (Fin b) y)"
  using assms by (cases y'; cases y) (auto simp: inf_sgn_def intro!: fl_mono mult_mono)

lemma trail_at_antimono:
  assumes "trail_pct params = Fin t" "trail_tighten_pct params = Fin u" "u \<le> t" "fle el el'"
  shows "\<exists>x y. trail_at params el = Fin x \<and> trail_at params el' = Fin y \<and> y \<le> x \<and> u \<le> y \<and> x \<le> t"
  using assms fle_trans[of "tighten_after_min params" el el'] by (auto simp: trail_at_def)

lemma stop_level_short_mono:
  assumes "0 < b'" "b' \<le> b" "0 \<le> y" "y \<le> x"
    and "stop_level ''short'' (Fin x) (Fin b) = Inr l" "stop_level ''short'' (Fin y) (Fin b') = Inr l'"
  shows "fle l' l"
proof -
  have r: "fle (fl (y / 100)) (fl (x / 100))" using assms(4) by (intro fl_mono) simp
  have nn: "fle (Fin 0) (fl (y / 100))" using assms(3) by (intro fl_nonneg) simp
  then have "fle (Fin 0) (fadd (Fin 1) (fl (y / 100)))"
    by (cases "fl (y / 100)") (auto intro: fl_nonneg)
  moreover have "fle (fadd (Fin 1) (fl (y / 100))) (fadd (Fin 1) (fl (x / 100)))"
    using r nn by (cases "fl (y / 100)"; cases "fl (x / 100)") (auto intro: fl_mono)
  ultimately show ?thesis
    using assms(1,2,5,6) by (auto simp: stop_level_def intro: fmul_mono_both)
qed

lemma stop_level_long_mono:
  assumes "0 < b" "b \<le> b'" "0 \<le> y" "y \<le> x" "x \<le> 100" "side \<noteq> ''short''"
    and "stop_level side (Fin x) (Fin b) = Inr l" "stop_level side (Fin y) (Fin b') = Inr l'"
  shows "fle l l'"
proof -
  have r: "fle (fl (y / 100)) (fl (x / 100))" using assms(4) by (intro fl_mono) simp
  have one: "fle (fl (x / 100)) (Fin 1)" using fl_mono[of "x / 100" 1] assms(5) by simp
  have nn: "fle (Fin 0) (fl (y / 100))" using assms(3) by (intro fl_nonneg) simp
  obtain ry rx where fin: "fl (y / 100) = Fin ry" "fl (x / 100) = Fin rx"
    using r one nn by (cases "fl (y / 100)"; cases "fl (x / 100)") auto
  have "fle (Fin 0) (fsub (Fin 1) (Fin rx))"
    using one fin by (auto simp: fsub_def intro: fl_nonneg)
  moreover have "fle (fsub (Fin 1) (Fin rx)) (fsub (Fin 1) (Fin ry))"
    using r fin by (intro fsub_antimono) simp
  ultimately show ?thesis
    using assms(1,2,6,7,8) fin by (auto simp: stop_level_def intro: fmul_mono_both)
qed

text \<open>
  The trailing stop is a ratchet: with a tightened trail no wider than the normal one, as time
  passes and further prices arrive the stop level of a short never rises and the level of a long
  never falls, floating-point rounding included.
\<close>

theorem trailing_stop_ratchets:
  assumes "trail_pct params = Fin t" and "trail_tighten_pct params = Fin u"
    and "0 \<le> u" and "u \<le> t" and "t \<le> 100" and "fle el el'" and "0 < b" and "0 < q"
    and "stop_level side (trail_at params el) (Fin b) = Inr l"
    and "stop_level side (trail_at params el') (advance_best side (Fin b) (Fin q)) = Inr l'"
  shows "if side = ''short'' then fle l' l else fle l l'"
proof -
  obtain x y where xy: "trail_at params el = Fin x" "trail_at params el' = Fin y" "y \<le> x" "u \<le> y" "x \<le> t"
    using trail_at_antimono[OF assms(1,2,4,6)] by blast
  have best: "advance_best side (Fin b) (Fin q) = Fin (if side = ''short'' then min b q else max b q)"
    by (auto simp: advance_best_def fmin_def fmax_def)
  show ?thesis
  proof (cases "side = ''short''")
    case True
    then show ?thesis
      using stop_level_short_mono[of "min b q" b y x l l'] assms(3,7-10) xy best by auto
  next
    case False
    then show ?thesis
      using stop_level_long_mono[of b "max b q" y x side l l'] assms(3,5,7-10) xy best by auto
  qed
qed

theorem trailing_stop_ratchets_witness:
  "\<exists>l l'. stop_level ''long'' (trail_at (exit_params_for None) (Fin 10)) (Fin 64) = Inr l \<and>
          stop_level ''long'' (trail_at (exit_params_for None) (Fin 200))
            (advance_best ''long'' (Fin 64) (Fin 128)) = Inr l' \<and> fle l l'"
proof -
  obtain l l' where
    l: "stop_level ''long'' (trail_at (exit_params_for None) (Fin 10)) (Fin 64) = Inr l"
       "stop_level ''long'' (trail_at (exit_params_for None) (Fin 200))
          (advance_best ''long'' (Fin 64) (Fin 128)) = Inr l'"
    by (simp add: stop_level_def trail_at_def exit_params_for_def mk_params_def)
  have "if ''long'' = ''short'' then fle l' l else fle l l'"
    by (rule trailing_stop_ratchets[OF _ _ _ _ _ _ _ _ l, of 15 10])
       (simp_all add: exit_params_for_def mk_params_def)
  then show ?thesis using l by auto
qed

lemma exit_params_for_hold: "fle (max_hold_min (exit_params_for pump)) (Fin 360)"
  by (auto simp: exit_params_for_def mk_params_def Let_def)

text \<open>
  Every position has a bounded life: whatever the pump size, and also after its stored
  parameters were lost or do not parse, a tick at 360 minutes or later closes it.
\<close>

theorem max_hold_closes:
  assumes "fle (Fin 360) el"
  shows "evaluate_exit side e p el best (exit_params_for pump) =
           Inr \<lparr>exit_reason = Some (Max_hold el), new_best_price = None\<rparr> \<and>
         evaluate_exit side e p el best (load_exit_params None) =
           Inr \<lparr>exit_reason = Some (Max_hold el), new_best_price = None\<rparr>"
  using fle_trans[OF exit_params_for_hold assms]
  by (simp add: evaluate_exit_def load_exit_params_def)

theorem max_hold_closes_witness:
  "evaluate_exit ''short'' (Fin 0) NaN (Fin 400) None (exit_params_for (Some (Fin 30))) =
     Inr \<lparr>exit_reason = Some (Max_hold (Fin 400)), new_best_price = None\<rparr>"
  using max_hold_closes[of "Fin 400" "''short''" "Fin 0" NaN None "Some (Fin 30)"] by simp

text \<open>
  The optional keys escape the validation of \<open>load_exit_params\<close>: a stored take-profit that is no
  number loads and makes the next tick raise \<open>TypeError\<close> instead of using the defaults.
\<close>

lemma corrupt_take_profit_raises:
  "evaluate_exit ''short'' (Fin 128) (Fin 124) (Fin 30) None
     (load_exit_params (Some (PDict
        ((''take_profit_pct'', PStr ''x'') # map (\<lambda>k. (k, PInt 100)) REQUIRED_PARAM_KEYS)))) = Inl TypeError"
  by (simp add: load_exit_params_def params_of_dict_def REQUIRED_PARAM_KEYS_def py_get_def
      evaluate_exit_def move_pct_def fsub_def take_profit_hit_def ge_val_def)

end
