(* ===== verification/Reconciliation_Worker.thy ===== *)
theory Reconciliation_Worker
  imports Reconciliation Order_Ids Exit_Policy Supervisor
begin

text \<open>
  The reconciliation worker (\<open>reconciliation_worker.py\<close>): it reads the exchange positions, the
  journal and Redis, resolves order attempts from exact exchange orders, classifies every identity,
  keeps the incident table, and blocks or unblocks the readiness gate. External calls are part of
  the environment of a scan: what each exchange and Redis return, and whether a database statement
  raises. The late-fill recovery (\<open>late_fill.py\<close>) is an argument too.
\<close>

subsection \<open>What a scan reads\<close>

record market =
  m_id :: "string option"
  m_type :: "string option"

record exchange_position =
  p_symbol :: "string option"
  p_side :: "string option"
  p_contracts :: pyval
  p_entryPrice :: pyval

record exchange_view =
  ev_markets :: "(string \<times> market) list"
  ev_load_markets :: "(string \<times> market) list res"
  ev_positions :: "exchange_position list res"
  ev_has_fetchOrder :: bool
  ev_fetch_order :: "string \<Rightarrow> string \<Rightarrow> order option res"
  ev_has_fetchOpenOrders :: bool
  ev_fetch_open_orders :: "string \<Rightarrow> order option list res"
  ev_has_fetchClosedOrders :: bool
  ev_fetch_closed_orders :: "string \<Rightarrow> order option list res"

text \<open>Rows of \<open>app.live_order_attempts\<close>, \<open>app.trades\<close> and \<open>app.live_reconciliation_incidents\<close>.\<close>

record attempt_row =
  ar_id :: int
  ar_operation :: string
  ar_client_order_id :: string
  ar_exchange :: string
  ar_base :: "string option"
  ar_symbol :: string
  ar_native_market_id :: "string option"
  ar_market_type :: "string option"
  ar_side :: string
  ar_status :: attempt_status
  ar_order_id :: "string option"
  ar_requested_amount :: "number option"
  ar_filled_amount :: "number option"
  ar_trade_id :: "int option"

record trade_row =
  tr_id :: int
  tr_exchange :: string
  tr_symbol :: string
  tr_side :: string
  tr_open :: bool
  tr_paper :: bool

datatype incident_status = Inc_open | Inc_manual_required | Inc_resolved

record incident =
  inc_exchange :: string
  inc_discrepancy :: discrepancy_type
  inc_contracts :: "number option"
  inc_status :: incident_status

record scan_state =
  st_attempts :: "attempt_row list"
  st_trades :: "trade_row list"
  st_incidents :: "(string \<times> incident) list"
  st_gate :: gate
  st_alerts :: "(string \<times> bool) list"

record scan_env =
  env_exchanges :: "(string \<times> exchange_view) list"
  env_redis :: "(string \<times> string) list res"
  env_db_fetch :: "py_error option"
  env_db_update :: "int \<Rightarrow> py_error option"
  env_db_upsert :: "string \<Rightarrow> py_error option"
  env_db_resolve :: "py_error option"
  env_late :: "order_attempt \<Rightarrow> attempt_row list \<Rightarrow> attempt_row list \<times> order_attempt option res"
  env_digest :: "string \<Rightarrow> string"

definition raised :: "py_error option \<Rightarrow> unit res" where
  "raised e = (case e of None \<Rightarrow> Inr () | Some err \<Rightarrow> Inl err)"

definition text_or_empty :: "string option \<Rightarrow> string" where
  "text_or_empty t = (case t of None \<Rightarrow> '''' | Some s \<Rightarrow> s)"

subsection \<open>Exchange positions\<close>

definition position_identity ::
  "string \<Rightarrow> (string \<times> market) list \<Rightarrow> exchange_position \<Rightarrow> full_identity" where
  "position_identity exchange_name markets p =
     (let sym = text_or_empty (p_symbol p);
          m = (if sym = '''' then None else map_of markets sym);
          native = (case m of None \<Rightarrow> '''' | Some d \<Rightarrow> text_or_empty (m_id d));
          mtype = (case m of None \<Rightarrow> '''' | Some d \<Rightarrow> text_or_empty (m_type d))
      in FullIdentity exchange_name sym native mtype (lower (text_or_empty (p_side p))))"

type_synonym exchange_snaps = "(full_identity \<times> exchange_snapshot) list"

definition add_position ::
  "string \<Rightarrow> (string \<times> market) list \<Rightarrow> exchange_snaps \<Rightarrow> exchange_position \<Rightarrow> exchange_snaps res" where
  "add_position exchange_name markets snaps p =
     (case decimal_or_none (p_contracts p) of
        None \<Rightarrow> Inr snaps
      | Some contracts \<Rightarrow>
          if neq contracts (Num 0) then Inr snaps
          else
            (let i = position_identity exchange_name markets p in
             bindE (case map_of snaps i of None \<Rightarrow> Inr contracts
                    | Some old \<Rightarrow> nadd contracts (ex_contracts old)) (\<lambda>c.
             Inr (AList.update i
                    \<lparr>ex_contracts = nabs c, ex_entry_price = decimal_or_none (p_entryPrice p)\<rparr> snaps))))"

definition add_exchange :: "exchange_snaps \<Rightarrow> string \<times> exchange_view \<Rightarrow> exchange_snaps res" where
  "add_exchange snaps ne =
     (case ne of (exchange_name, ex) \<Rightarrow>
        bindE (if ev_markets ex = [] then ev_load_markets ex else Inr (ev_markets ex)) (\<lambda>markets.
        bindE (ev_positions ex) (\<lambda>positions.
          foldE (add_position exchange_name markets) snaps positions)))"

definition fetch_exchange_snapshots :: "scan_env \<Rightarrow> exchange_snaps res" where
  "fetch_exchange_snapshots env = foldE add_exchange [] (env_exchanges env)"

subsection \<open>The journal\<close>

definition active_attempt :: "attempt_status \<Rightarrow> bool" where
  "active_attempt st \<longleftrightarrow>
     st \<in> {Att_pending, Att_accepted, Att_submission_unknown, Att_manual_required}"

text \<open>\<open>_ATTEMPTS_SQL\<close>: active entry attempts, and completed ones without a closed trade.\<close>

definition attempts_sql :: "scan_state \<Rightarrow> attempt_row list" where
  "attempts_sql st =
     filter (\<lambda>a. ar_operation a = ''entry'' \<and>
        (active_attempt (ar_status a) \<or>
         ar_status a = Att_completed \<and>
           (case ar_trade_id a of
              None \<Rightarrow> True
            | Some t \<Rightarrow> list_ex (\<lambda>r. tr_id r = t \<and> tr_open r) (st_trades st)))) (st_attempts st)"

text \<open>\<open>_OPEN_TRADES_SQL\<close>: open live trades, each with its entry attempt if it has one.\<close>

definition open_trades_sql :: "scan_state \<Rightarrow> (trade_row \<times> attempt_row option) list" where
  "open_trades_sql st =
     concat (map (\<lambda>t.
        (case filter (\<lambda>a. ar_trade_id a = Some (tr_id t) \<and> ar_operation a = ''entry'') (st_attempts st) of
           [] \<Rightarrow> [(t, None)]
         | as \<Rightarrow> map (\<lambda>a. (t, Some a)) as))
       (filter (\<lambda>t. tr_open t \<and> \<not> tr_paper t) (st_trades st)))"

definition attempt_from_row :: "attempt_row \<Rightarrow> order_attempt" where
  "attempt_from_row r =
     \<lparr>at_identity = FullIdentity (ar_exchange r) (ar_symbol r) (text_or_empty (ar_native_market_id r))
                      (text_or_empty (ar_market_type r)) (ar_side r),
      at_attempt_id = ar_id r, at_base = upper (text_or_empty (ar_base r)),
      at_client_order_id = ar_client_order_id r, at_order_id = ar_order_id r,
      at_status = ar_status r, at_requested_amount = ar_requested_amount r,
      at_filled_amount = ar_filled_amount r, at_trade_id = ar_trade_id r\<rparr>"

type_synonym attempts_by_id = "(full_identity \<times> order_attempt list) list"

definition attempts_of :: "attempts_by_id \<Rightarrow> full_identity \<Rightarrow> order_attempt list" where
  "attempts_of d i = (case map_of d i of None \<Rightarrow> [] | Some as \<Rightarrow> as)"

definition add_attempt :: "attempts_by_id \<Rightarrow> order_attempt \<Rightarrow> attempts_by_id" where
  "add_attempt d a = AList.update (at_identity a) (attempts_of d (at_identity a) @ [a]) d"

definition add_attempt_new :: "attempts_by_id \<Rightarrow> order_attempt \<Rightarrow> attempts_by_id" where
  "add_attempt_new d a =
     (let seen = attempts_of d (at_identity a) in
      if list_all (\<lambda>x. at_attempt_id x \<noteq> at_attempt_id a) seen
      then AList.update (at_identity a) (seen @ [a]) d
      else AList.update (at_identity a) seen d)"

record db_snapshots =
  db_trades :: "(full_identity \<times> owned_trade) list"
  db_attempts :: attempts_by_id
  db_trades_by_id :: "(int \<times> owned_trade) list"

definition add_trade :: "db_snapshots \<Rightarrow> trade_row \<times> attempt_row option \<Rightarrow> db_snapshots" where
  "add_trade d ta =
     (case ta of (t, ma) \<Rightarrow>
        (let attempts = (case ma of None \<Rightarrow> db_attempts d
                         | Some a \<Rightarrow> add_attempt_new (db_attempts d) (attempt_from_row a));
             i = (case ma of None \<Rightarrow> FullIdentity (tr_exchange t) (tr_symbol t) '''' '''' (tr_side t)
                  | Some a \<Rightarrow> at_identity (attempt_from_row a));
             trade = \<lparr>ot_identity = i, ot_trade_id = tr_id t,
                      ot_attempt_id = map_option ar_id ma,
                      ot_base = upper (case ma of None \<Rightarrow> '''' | Some a \<Rightarrow> text_or_empty (ar_base a)),
                      ot_contracts = (case ma of None \<Rightarrow> None | Some a \<Rightarrow> ar_filled_amount a)\<rparr>
         in \<lparr>db_trades = AList.update i trade (db_trades d), db_attempts = attempts,
             db_trades_by_id = AList.update (tr_id t) trade (db_trades_by_id d)\<rparr>))"

definition fetch_db_snapshots :: "scan_env \<Rightarrow> scan_state \<Rightarrow> db_snapshots res" where
  "fetch_db_snapshots env st =
     bindE (raised (env_db_fetch env)) (\<lambda>_.
       Inr (foldl add_trade
              \<lparr>db_trades = [], db_attempts = foldl add_attempt [] (map attempt_from_row (attempts_sql st)),
               db_trades_by_id = []\<rparr>
              (open_trades_sql st)))"

subsection \<open>Redis\<close>

fun split_colon :: "nat \<Rightarrow> string \<Rightarrow> string \<Rightarrow> string list" where
  "split_colon n acc [] = [rev acc]"
| "split_colon n acc (c # cs) =
     (if 0 < n \<and> c = CHR '':'' then rev acc # split_colon (n - 1) [] cs
      else split_colon n (c # acc) cs)"

text \<open>
  The positions the scanned keys name. \<open>SCAN\<close> returns, over all its pages, the keys that match the
  pattern; positions are kept in the order in which they are first seen.
\<close>

definition insert_new :: "'a \<Rightarrow> 'a list \<Rightarrow> 'a list" where
  "insert_new x xs = (if x \<in> set xs then xs else xs @ [x])"

definition add_key :: "string \<Rightarrow> (string \<times> string) list \<Rightarrow> string \<Rightarrow> (string \<times> string) list" where
  "add_key exchange_name ps key =
     (case split_colon 3 [] key of
        [_, _, ex, base] \<Rightarrow> if ex = exchange_name then insert_new (ex, upper base) ps else ps
      | _ \<Rightarrow> ps)"

definition position_keys :: "string list \<Rightarrow> (string \<times> string) list \<Rightarrow> (string \<times> string) list" where
  "position_keys names store =
     foldl (\<lambda>ps n.
       foldl (\<lambda>qs prefix. foldl (add_key n) qs (filter (\<lambda>k. startswith k prefix) (map fst store))) ps
         [''trade:id:'' @ n @ '':'', ''position:opened_at:'' @ n @ '':''])
     [] names"

definition required_keys :: "string \<Rightarrow> string \<Rightarrow> string list" where
  "required_keys ex base =
     [''position:opened_at:'' @ ex @ '':'' @ base, ''position:sl_order_id:'' @ ex @ '':'' @ base,
      params_key ex base, entry_key ex base, side_key ex base, size_usd_key ex base]"

type_synonym redis_snaps = "(full_identity \<times> redis_snapshot) list"

definition add_redis ::
  "(string \<times> string) list \<Rightarrow> (int \<times> owned_trade) list \<Rightarrow> redis_snaps \<Rightarrow> string \<times> string \<Rightarrow> redis_snaps" where
  "add_redis store by_id snaps eb =
     (case eb of (ex, base) \<Rightarrow>
        (let tid = (case map_of store (''trade:id:'' @ ex @ '':'' @ base) of
                      None \<Rightarrow> -1
                    | Some raw \<Rightarrow> (case parse_int raw of None \<Rightarrow> -1 | Some n \<Rightarrow> n));
             snap = \<lparr>rs_trade_id = tid, rs_exchange = ex, rs_base = base\<rparr>;
             stray = AList.update (FullIdentity ex (''redis-key:'' @ base) '''' '''' '''') snap snaps
         in case map_of by_id tid of
              None \<Rightarrow> stray
            | Some t \<Rightarrow>
                if fi_exchange (ot_identity t) \<noteq> ex \<or> ot_base t \<noteq> base then stray
                else if list_all (\<lambda>k. map_of store k \<noteq> None) (required_keys ex base)
                then AList.update (ot_identity t) snap snaps else snaps))"

definition fetch_redis_snapshots ::
  "scan_env \<Rightarrow> (int \<times> owned_trade) list \<Rightarrow> redis_snaps res" where
  "fetch_redis_snapshots env by_id =
     bindE (env_redis env) (\<lambda>store.
       Inr (foldl (add_redis store by_id) [] (position_keys (map fst (env_exchanges env)) store)))"

subsection \<open>Resolving attempts\<close>

text \<open>The first listed row with the attempt's client order id; a failed listing is skipped.\<close>

definition find_listed :: "bool \<Rightarrow> order option list res \<Rightarrow> string \<Rightarrow> order option" where
  "find_listed capable rows cid =
     (if \<not> capable then None
      else case rows of
        Inl _ \<Rightarrow> None
      | Inr os \<Rightarrow> (case find (\<lambda>row. case row of None \<Rightarrow> False | Some ord \<Rightarrow> client_order_id ord = Some cid) os of
                     Some (Some ord) \<Rightarrow> Some ord | _ \<Rightarrow> None))"

definition find_exact_order :: "exchange_view \<Rightarrow> order_attempt \<Rightarrow> order option" where
  "find_exact_order ex a =
     (let cid = at_client_order_id a; sym = fi_symbol (at_identity a);
          listed = (case find_listed (ev_has_fetchOpenOrders ex) (ev_fetch_open_orders ex sym) cid of
                      Some ord \<Rightarrow> Some ord
                    | None \<Rightarrow> find_listed (ev_has_fetchClosedOrders ex) (ev_fetch_closed_orders ex sym) cid)
      in case at_order_id a of
           Some (c # cs) \<Rightarrow>
             if ev_has_fetchOrder ex
             then (case ev_fetch_order ex (c # cs) sym of
                     Inl _ \<Rightarrow> listed
                   | Inr None \<Rightarrow> None
                   | Inr (Some ord) \<Rightarrow>
                       if client_order_id ord \<in> {None, Some cid} then Some ord else listed)
             else listed
         | _ \<Rightarrow> listed)"

definition coalesce :: "'a option \<Rightarrow> 'a option \<Rightarrow> 'a option" where
  "coalesce a b = (case a of None \<Rightarrow> b | Some x \<Rightarrow> Some x)"

text \<open>\<open>_UPDATE_ATTEMPT_SQL\<close>.\<close>

definition update_attempt_sql ::
  "attempt_status \<Rightarrow> string option \<Rightarrow> number option \<Rightarrow> int \<Rightarrow> attempt_row list \<Rightarrow> attempt_row list" where
  "update_attempt_sql st oid filled aid rows =
     map (\<lambda>r. if ar_id r = aid
              then r\<lparr>ar_status := st, ar_order_id := coalesce oid (ar_order_id r),
                     ar_filled_amount := coalesce filled (ar_filled_amount r)\<rparr> else r) rows"

definition update_attempt_from_order ::
  "scan_env \<Rightarrow> order_attempt \<Rightarrow> order \<Rightarrow> attempt_row list \<Rightarrow> attempt_row list \<times> order_attempt res" where
  "update_attempt_from_order env a ord rows =
     (case attempt_state_from_order ord of
        Inl e \<Rightarrow> (rows, Inl e)
      | Inr (status, filled, _) \<Rightarrow>
          (let oid = coalesce (o_id ord) (at_order_id a) in
           case env_db_update env (at_attempt_id a) of
             Some e \<Rightarrow> (rows, Inl e)
           | None \<Rightarrow> (update_attempt_sql status oid filled (at_attempt_id a) rows,
                      Inr (a\<lparr>at_status := status, at_order_id := oid, at_filled_amount := filled\<rparr>))))"

text \<open>\<open>late_fill.is_candidate\<close>.\<close>

definition is_candidate :: "order_attempt \<Rightarrow> bool" where
  "is_candidate a \<longleftrightarrow>
     at_status a \<in> {Att_pending, Att_accepted, Att_submission_unknown} \<and> at_trade_id a = None \<and>
     complete (at_identity a) \<and> is_entry_client_order_id (at_client_order_id a)"

definition needs_resolution :: "order_attempt \<Rightarrow> bool" where
  "needs_resolution a \<longleftrightarrow>
     active_attempt (at_status a) \<or> at_status a = Att_completed \<and> at_filled_amount a = None"

definition resolve_attempt ::
  "scan_env \<Rightarrow> exchange_view \<Rightarrow> order_attempt \<Rightarrow> attempt_row list \<Rightarrow> attempt_row list \<times> order_attempt res" where
  "resolve_attempt env ex a rows =
     (if \<not> needs_resolution a then (rows, Inr a)
      else if is_candidate a
      then (case env_late env a rows of
              (rows', Inl e) \<Rightarrow> (rows', Inl e)
            | (rows', Inr None) \<Rightarrow> (rows', Inr a)
            | (rows', Inr (Some a')) \<Rightarrow> (rows', Inr a'))
      else case find_exact_order ex a of
             None \<Rightarrow> (rows, Inr a)
           | Some ord \<Rightarrow> update_attempt_from_order env a ord rows)"

fun resolve_list ::
  "scan_env \<Rightarrow> exchange_view \<Rightarrow> order_attempt list \<Rightarrow> attempt_row list \<Rightarrow>
   attempt_row list \<times> order_attempt list res" where
  "resolve_list env ex [] rows = (rows, Inr [])"
| "resolve_list env ex (a # as) rows =
     (case resolve_attempt env ex a rows of
        (rows1, Inl e) \<Rightarrow> (rows1, Inl e)
      | (rows1, Inr a') \<Rightarrow>
          (case resolve_list env ex as rows1 of
             (rows2, Inl e) \<Rightarrow> (rows2, Inl e)
           | (rows2, Inr as') \<Rightarrow> (rows2, Inr (a' # as'))))"

fun resolve_attempts ::
  "scan_env \<Rightarrow> attempts_by_id \<Rightarrow> attempt_row list \<Rightarrow> attempt_row list \<times> attempts_by_id res" where
  "resolve_attempts env [] rows = (rows, Inr [])"
| "resolve_attempts env ((i, as) # rest) rows =
     (case (case map_of (env_exchanges env) (fi_exchange i) of
              None \<Rightarrow> (rows, Inr as)
            | Some ex \<Rightarrow> resolve_list env ex as rows) of
        (rows1, Inl e) \<Rightarrow> (rows1, Inl e)
      | (rows1, Inr as') \<Rightarrow>
          (case resolve_attempts env rest rows1 of
             (rows2, Inl e) \<Rightarrow> (rows2, Inl e)
           | (rows2, Inr rest') \<Rightarrow> (rows2, Inr ((i, as') # rest'))))"

subsection \<open>Incidents\<close>

fun discrepancy_value :: "discrepancy_type \<Rightarrow> string" where
  "discrepancy_value HEALTHY = ''healthy''"
| "discrepancy_value UNRESOLVED_ORDER_ATTEMPT = ''unresolved_order_attempt''"
| "discrepancy_value MISSING_REDIS = ''missing_redis''"
| "discrepancy_value MISSING_TRADE_EXACT_ATTEMPT = ''missing_trade_exact_attempt''"
| "discrepancy_value EXCHANGE_ONLY_ORPHAN = ''exchange_only_orphan''"
| "discrepancy_value DB_ONLY_ORPHAN = ''db_only_orphan''"
| "discrepancy_value REDIS_ONLY_STALE = ''redis_only_stale''"
| "discrepancy_value POSITION_SIZE_MISMATCH = ''position_size_mismatch''"
| "discrepancy_value INCOMPLETE_IDENTITY = ''incomplete_identity''"
| "discrepancy_value UNKNOWN_MISMATCH = ''unknown_mismatch''"

fun join :: "string \<Rightarrow> string list \<Rightarrow> string" where
  "join sep [] = ''''"
| "join sep [x] = x"
| "join sep (x # y # xs) = x @ sep @ join sep (y # xs)"

definition str_of_int :: "int \<Rightarrow> string" where
  "str_of_int n = (if n < 0 then CHR ''-'' # str_of_nat (nat (- n)) else str_of_nat (nat n))"

definition incident_key :: "scan_env \<Rightarrow> full_identity \<Rightarrow> discrepancy_type \<Rightarrow> string \<Rightarrow> string" where
  "incident_key env i d entity =
     env_digest env (join [CHR 0x1F]
       [discrepancy_value d, fi_exchange i, fi_symbol i, fi_native_market_id i, fi_market_type i,
        fi_side i, entity])"

definition entity_key :: "order_attempt list \<Rightarrow> redis_snapshot option \<Rightarrow> string" where
  "entity_key as r =
     join '','' (map (\<lambda>a. str_of_int (at_attempt_id a)) (sort_key at_attempt_id as)) @
     (case r of None \<Rightarrow> '''' | Some s \<Rightarrow> ''|redis_trade:'' @ str_of_int (rs_trade_id s))"

text \<open>
  \<open>_UPSERT_INCIDENT_SQL\<close>: a row the operator promoted to manual_required keeps its status, every
  other row is open again. On conflict the identity columns of the old row stay.
\<close>

definition upsert_row :: "string \<Rightarrow> incident \<Rightarrow> (string \<times> incident) list \<Rightarrow> (string \<times> incident) list" where
  "upsert_row key new incs =
     AList.update key
       (case map_of incs key of
          None \<Rightarrow> new
        | Some old \<Rightarrow>
            old\<lparr>inc_status := (if inc_status old = Inc_manual_required then Inc_manual_required
                              else inc_status new),
                inc_contracts := inc_contracts new\<rparr>) incs"

definition upsert_incident ::
  "scan_env \<Rightarrow> decision \<Rightarrow> full_identity \<Rightarrow> exchange_snapshot option \<Rightarrow> order_attempt list \<Rightarrow>
   redis_snapshot option \<Rightarrow> scan_state \<Rightarrow> scan_state \<times> string res" where
  "upsert_incident env d i x as r st =
     (let key = incident_key env i (discrepancy d) (entity_key as r);
          previous = map_option inc_status (map_of (st_incidents st) key)
      in case env_db_upsert env key of
           Some e \<Rightarrow> (st, Inl e)
         | None \<Rightarrow>
             (st\<lparr>st_incidents :=
                   upsert_row key
                     \<lparr>inc_exchange = fi_exchange i, inc_discrepancy = discrepancy d,
                      inc_contracts = map_option ex_contracts x, inc_status = Inc_open\<rparr> (st_incidents st),
                 st_alerts :=
                   st_alerts st @
                   (if previous \<in> {None, Some Inc_resolved} then [(key, previous \<noteq> None)] else [])\<rparr>,
              Inr key))"

definition resolve_absent_rows ::
  "string list \<Rightarrow> string list \<Rightarrow> (string \<times> incident) list \<Rightarrow> (string \<times> incident) list" where
  "resolve_absent_rows scanned active incs =
     map (\<lambda>(k, n). (k, if inc_status n = Inc_open \<and> inc_exchange n \<in> set scanned \<and> k \<notin> set active
                       then n\<lparr>inc_status := Inc_resolved\<rparr> else n)) incs"

definition unresolved_incidents :: "(string \<times> incident) list \<Rightarrow> nat" where
  "unresolved_incidents incs =
     length (filter (\<lambda>(k, n). inc_status n \<in> {Inc_open, Inc_manual_required}) incs)"

subsection \<open>The scan\<close>

definition STARTUP_BLOCKER :: string where
  "STARTUP_BLOCKER = ''startup_reconciliation_pending''"

definition SOURCE_BLOCKER :: string where
  "SOURCE_BLOCKER = ''reconciliation_source_unavailable''"

definition INCIDENT_BLOCKER :: string where
  "INCIDENT_BLOCKER = ''unresolved_reconciliation_incident''"

definition SUBMISSION_UNKNOWN_BLOCKER :: string where
  "SUBMISSION_UNKNOWN_BLOCKER = ''submission_unknown''"

record scan_view =
  sv_exchange :: exchange_snaps
  sv_trades :: "(full_identity \<times> owned_trade) list"
  sv_attempts :: attempts_by_id
  sv_redis :: redis_snaps

text \<open>The four sources, with the attempts as resolved; a database update made on the way stays.\<close>

definition gather :: "scan_env \<Rightarrow> scan_state \<Rightarrow> scan_state \<times> scan_view res" where
  "gather env st =
     (case bindE (fetch_exchange_snapshots env) (\<lambda>x.
           bindE (fetch_db_snapshots env st) (\<lambda>d.
           bindE (fetch_redis_snapshots env (db_trades_by_id d)) (\<lambda>r. Inr (x, d, r)))) of
        Inl e \<Rightarrow> (st, Inl e)
      | Inr (x, d, r) \<Rightarrow>
          (case resolve_attempts env (db_attempts d) (st_attempts st) of
             (rows, Inl e) \<Rightarrow> (st\<lparr>st_attempts := rows\<rparr>, Inl e)
           | (rows, Inr as) \<Rightarrow>
               (st\<lparr>st_attempts := rows\<rparr>,
                Inr \<lparr>sv_exchange = x, sv_trades = db_trades d, sv_attempts = as, sv_redis = r\<rparr>)))"

definition all_identities :: "scan_view \<Rightarrow> full_identity list" where
  "all_identities v =
     sorted_list_of_set
       (fst ` set (sv_exchange v) \<union> fst ` set (sv_trades v) \<union> fst ` set (sv_attempts v) \<union>
        fst ` set (sv_redis v))"

definition classify :: "scan_view \<Rightarrow> full_identity \<Rightarrow> decision res" where
  "classify v i =
     classify_position_state i (map_of (sv_exchange v) i) (map_of (sv_trades v) i)
       (attempts_of (sv_attempts v) i) (map_of (sv_redis v) i)"

fun scan_identities ::
  "scan_env \<Rightarrow> scan_view \<Rightarrow> full_identity list \<Rightarrow> string list \<Rightarrow> scan_state \<Rightarrow>
   scan_state \<times> string list res" where
  "scan_identities env v [] keys st = (st, Inr keys)"
| "scan_identities env v (i # ids) keys st =
     (case classify v i of
        Inl e \<Rightarrow> (st, Inl e)
      | Inr d \<Rightarrow>
          if incident_required d
          then (case upsert_incident env d i (map_of (sv_exchange v) i) (attempts_of (sv_attempts v) i)
                       (map_of (sv_redis v) i)
                       (st\<lparr>st_gate := set_safety_blocker INCIDENT_BLOCKER (st_gate st)\<rparr>) of
                  (st1, Inl e) \<Rightarrow> (st1, Inl e)
                | (st1, Inr key) \<Rightarrow> scan_identities env v ids (insert_new key keys) st1)
          else scan_identities env v ids keys st)"

definition resolve_absent_incidents ::
  "scan_env \<Rightarrow> string list \<Rightarrow> scan_state \<Rightarrow> scan_state \<times> nat res" where
  "resolve_absent_incidents env active st =
     (case env_db_resolve env of
        Some e \<Rightarrow> (st, Inl e)
      | None \<Rightarrow>
          (let incs = resolve_absent_rows (map fst (env_exchanges env)) active (st_incidents st)
           in (st\<lparr>st_incidents := incs\<rparr>, Inr (unresolved_incidents incs))))"

text \<open>The body of the \<open>try\<close>: the resolved attempts and the number of unresolved incidents.\<close>

definition scan_body :: "scan_env \<Rightarrow> scan_state \<Rightarrow> scan_state \<times> (attempts_by_id \<times> nat) res" where
  "scan_body env st =
     (case gather env st of
        (st1, Inl e) \<Rightarrow> (st1, Inl e)
      | (st1, Inr v) \<Rightarrow>
          (case scan_identities env v (all_identities v) [] st1 of
             (st2, Inl e) \<Rightarrow> (st2, Inl e)
           | (st2, Inr keys) \<Rightarrow>
               (case resolve_absent_incidents env keys st2 of
                  (st3, Inl e) \<Rightarrow> (st3, Inl e)
                | (st3, Inr n) \<Rightarrow> (st3, Inr (sv_attempts v, n)))))"

definition set_or_clear :: "bool \<Rightarrow> string \<Rightarrow> gate \<Rightarrow> gate" where
  "set_or_clear b name g = (if b then set_safety_blocker name g else clear_safety_blocker name g)"

definition final_gate :: "attempts_by_id \<Rightarrow> nat \<Rightarrow> gate \<Rightarrow> gate" where
  "final_gate as n g =
     set_or_clear (n \<noteq> 0) INCIDENT_BLOCKER
       (set_or_clear (list_ex (\<lambda>(i, xs). list_ex unresolved xs) as) SUBMISSION_UNKNOWN_BLOCKER
          (clear_safety_blocker STARTUP_BLOCKER (clear_safety_blocker SOURCE_BLOCKER g)))"

definition run_scan :: "scan_env \<Rightarrow> scan_state \<Rightarrow> scan_state \<times> bool" where
  "run_scan env st =
     (case scan_body env st of
        (st1, Inl e) \<Rightarrow> (st1\<lparr>st_gate := set_safety_blocker SOURCE_BLOCKER (st_gate st1)\<rparr>, False)
      | (st1, Inr (as, n)) \<Rightarrow> (st1\<lparr>st_gate := final_gate as n (st_gate st1)\<rparr>, True))"

text \<open>One turn of the worker's loop: the scan between its heartbeats.\<close>

definition worker_turn ::
  "scan_env \<Rightarrow> rat \<Rightarrow> int \<Rightarrow> rat \<Rightarrow> int \<Rightarrow> scan_state \<times> tick_tracker \<Rightarrow> scan_state \<times> tick_tracker" where
  "worker_turn env m0 u0 m1 u1 stt =
     (case run_scan env (fst stt) of
        (st, ok) \<Rightarrow>
          (st, if ok then tick_succeeded m1 u1 (tick_started m0 u0 (snd stt))
               else tick_failed m1 u1 ''reconciliation source unavailable'' (tick_started m0 u0 (snd stt))))"

subsection \<open>An open gate after a scan\<close>

definition incident_stands :: "(string \<times> incident) list \<Rightarrow> string \<Rightarrow> bool" where
  "incident_stands incs k \<longleftrightarrow>
     (\<exists>n. map_of incs k = Some n \<and> inc_status n \<in> {Inc_open, Inc_manual_required})"

lemma upsert_row_stands:
  "inc_status new = Inc_open \<Longrightarrow> incident_stands (upsert_row k new incs) k"
  "incident_stands incs j \<Longrightarrow> inc_status new = Inc_open \<Longrightarrow> incident_stands (upsert_row k new incs) j"
  by (auto simp: incident_stands_def upsert_row_def update_conv' split: option.splits)

lemma upsert_incident_stands:
  assumes "upsert_incident env d i x as r st = (st', Inr key)"
  shows "incident_stands (st_incidents st') key"
    and "incident_stands (st_incidents st) j \<Longrightarrow> incident_stands (st_incidents st') j"
    and "st_gate st' = st_gate st" and "st_attempts st' = st_attempts st"
  using assms
  by (auto simp: upsert_incident_def Let_def upsert_row_stands split: option.splits)

lemma upsert_incident_gate: "upsert_incident env d i x as r st = (st', q) \<Longrightarrow> st_gate st' = st_gate st"
  by (auto simp: upsert_incident_def Let_def split: option.splits)

lemma set_insert_new [simp]: "set (insert_new x xs) = insert x (set xs)"
  by (auto simp: insert_new_def)

lemma scan_identities_gate:
  "scan_identities env v ids keys st = (st', q) \<Longrightarrow> gate_inv (st_gate st) \<Longrightarrow> gate_inv (st_gate st')"
proof (induction ids arbitrary: keys st)
  case (Cons i ids)
  show ?case
  proof (cases "classify v i")
    case (Inl e)
    then show ?thesis using Cons.prems by simp
  next
    case (Inr d)
    let ?st = "st\<lparr>st_gate := set_safety_blocker INCIDENT_BLOCKER (st_gate st)\<rparr>"
    obtain st1 o1 where up: "upsert_incident env d i (map_of (sv_exchange v) i)
        (attempts_of (sv_attempts v) i) (map_of (sv_redis v) i) ?st = (st1, o1)"
      by (cases "upsert_incident env d i (map_of (sv_exchange v) i)
        (attempts_of (sv_attempts v) i) (map_of (sv_redis v) i) ?st")
    have "gate_inv (st_gate st1)"
      using upsert_incident_gate[OF up] gate_inv_steps(1)[OF Cons.prems(2)] by simp
    then show ?thesis
      using Cons.prems Inr up Cons.IH by (cases o1) (auto split: if_splits)
  qed
qed simp

lemma scan_identities_stands:
  assumes "scan_identities env v ids keys st = (st', Inr keys')"
    and "\<forall>k \<in> set keys. incident_stands (st_incidents st) k"
  shows "(\<forall>k \<in> set keys'. incident_stands (st_incidents st') k) \<and> set keys \<subseteq> set keys' \<and>
         (\<forall>i \<in> set ids. \<exists>d. classify v i = Inr d \<and> (incident_required d \<longrightarrow> keys' \<noteq> []))"
  using assms
proof (induction ids arbitrary: keys st)
  case (Cons i ids)
  obtain d where d: "classify v i = Inr d"
    using Cons.prems(1) by (auto split: sum.splits)
  show ?case
  proof (cases "incident_required d")
    case False
    then show ?thesis using Cons.prems d Cons.IH[of keys st] by auto
  next
    case True
    let ?st = "st\<lparr>st_gate := set_safety_blocker INCIDENT_BLOCKER (st_gate st)\<rparr>"
    obtain st1 key where up: "upsert_incident env d i (map_of (sv_exchange v) i)
        (attempts_of (sv_attempts v) i) (map_of (sv_redis v) i) ?st = (st1, Inr key)"
      and rest: "scan_identities env v ids (insert_new key keys) st1 = (st', Inr keys')"
      using Cons.prems(1) d True by (auto split: prod.splits sum.splits)
    have "\<forall>k \<in> set (insert_new key keys). incident_stands (st_incidents st1) k"
      using upsert_incident_stands(1,2)[OF up] Cons.prems(2) by auto
    note IH = Cons.IH[OF rest this]
    then have "keys' \<noteq> []" by auto
    then show ?thesis using IH d by auto
  qed
qed simp

lemma stands_survives_resolution:
  assumes "incident_stands incs k" "k \<in> set active"
  shows "unresolved_incidents (resolve_absent_rows scanned active incs) \<noteq> 0"
proof -
  obtain n where "(k, n) \<in> set incs" "inc_status n \<in> {Inc_open, Inc_manual_required}"
    using assms(1) by (auto simp: incident_stands_def dest: map_of_SomeD)
  then have "(k, n) \<in> set (filter (\<lambda>(k, n). inc_status n \<in> {Inc_open, Inc_manual_required})
      (resolve_absent_rows scanned active incs))"
    using assms(2) by (force simp: resolve_absent_rows_def)
  then show ?thesis
    unfolding unresolved_incidents_def by (metis list.size(3) length_0_conv list.set(1) empty_iff)
qed

lemma gather_gate: "gather env st = (st', q) \<Longrightarrow> st_gate st' = st_gate st"
  by (auto simp: gather_def split: sum.splits prod.splits)

lemma safety_blockers_simps [simp]:
  "safety_blockers (set_safety_blocker b g) = insert b (safety_blockers g)"
  "safety_blockers (clear_safety_blocker b g) = safety_blockers g - {b}"
  by (auto simp: set_safety_blocker_def clear_safety_blocker_def)

lemma gate_inv_set_or_clear: "gate_inv g \<Longrightarrow> gate_inv (set_or_clear b n g)"
  by (simp add: set_or_clear_def gate_inv_steps)

lemma gate_inv_final: "gate_inv g \<Longrightarrow> gate_inv (final_gate as n g)"
  by (simp add: final_gate_def gate_inv_set_or_clear gate_inv_steps)

lemma final_gate_clear:
  assumes "safety_blockers (final_gate as n g) = {}"
  shows "n = 0 \<and> \<not> list_ex (\<lambda>(i, xs). list_ex unresolved xs) as"
proof -
  have "INCIDENT_BLOCKER \<noteq> SUBMISSION_UNKNOWN_BLOCKER"
    by (simp add: INCIDENT_BLOCKER_def SUBMISSION_UNKNOWN_BLOCKER_def)
  then show ?thesis
    using assms by (auto simp: final_gate_def set_or_clear_def split: if_splits)
qed

lemma gate_open_no_blockers: "gate_inv g \<Longrightarrow> gate_open g \<Longrightarrow> safety_blockers g = {}"
  by (simp add: gate_inv_def should_be_open_def)

lemma scan_body_Inr:
  assumes "scan_body env st = (st', Inr (as, n))"
  obtains st1 v st2 keys where "gather env st = (st1, Inr v)"
    "scan_identities env v (all_identities v) [] st1 = (st2, Inr keys)"
    "st' = st2\<lparr>st_incidents := resolve_absent_rows (map fst (env_exchanges env)) keys (st_incidents st2)\<rparr>"
    "as = sv_attempts v" "n = unresolved_incidents (st_incidents st')"
  using assms
  by (auto simp: scan_body_def resolve_absent_incidents_def Let_def split: sum.splits prod.splits option.splits)

lemma scan_body_gate:
  assumes "scan_body env st = (st', q)" "gate_inv (st_gate st)"
  shows "gate_inv (st_gate st')"
proof -
  obtain st1 g where g: "gather env st = (st1, g)" by (cases "gather env st")
  have inv1: "gate_inv (st_gate st1)" using gather_gate[OF g] assms(2) by simp
  show ?thesis
  proof (cases g)
    case (Inl e)
    then show ?thesis using assms(1) g inv1 by (simp add: scan_body_def)
  next
    case (Inr v)
    obtain st2 k where s: "scan_identities env v (all_identities v) [] st1 = (st2, k)"
      by (cases "scan_identities env v (all_identities v) [] st1")
    have "gate_inv (st_gate st2)" by (rule scan_identities_gate[OF s inv1])
    then show ?thesis
      using assms(1) g s Inr
      by (auto simp: scan_body_def resolve_absent_incidents_def Let_def
          split: sum.splits option.splits)
  qed
qed

lemma scan_open_gate:
  assumes "gate_inv (st_gate st)" and "run_scan env st = (st', ok)" and "fst (is_open (st_gate st'))"
  shows "ok \<and> (\<exists>st1 v. gather env st = (st1, Inr v) \<and>
     (\<forall>i \<in> set (all_identities v). \<exists>d. classify v i = Inr d \<and> allow_entry d) \<and>
     \<not> list_ex (\<lambda>(i, xs). list_ex unresolved xs) (sv_attempts v) \<and>
     unresolved_incidents (st_incidents st') = 0)"
proof -
  obtain sb q where sb: "scan_body env st = (sb, q)" by (cases "scan_body env st")
  have inv: "gate_inv (st_gate sb)" by (rule scan_body_gate[OF sb assms(1)])
  have opn: "gate_open (st_gate st')" using assms(3) by (simp add: is_open_def)
  show ?thesis
  proof (cases q)
    case (Inl e)
    then have g: "st_gate st' = set_safety_blocker SOURCE_BLOCKER (st_gate sb)"
      using assms(2) sb by (auto simp: run_scan_def)
    then have "safety_blockers (st_gate st') = {}"
      using gate_open_no_blockers[OF _ opn] gate_inv_steps(1)[OF inv] by simp
    then show ?thesis using g by simp
  next
    case (Inr an)
    obtain as n where an: "an = (as, n)" by (cases an)
    have st': "st' = sb\<lparr>st_gate := final_gate as n (st_gate sb)\<rparr>" "ok"
      using assms(2) sb Inr an by (auto simp: run_scan_def)
    have "safety_blockers (final_gate as n (st_gate sb)) = {}"
      using gate_open_no_blockers[OF gate_inv_final[OF inv]] opn st' by simp
    note fin = final_gate_clear[OF this]
    obtain st1 v st2 keys where b: "gather env st = (st1, Inr v)"
      "scan_identities env v (all_identities v) [] st1 = (st2, Inr keys)"
      "sb = st2\<lparr>st_incidents := resolve_absent_rows (map fst (env_exchanges env)) keys (st_incidents st2)\<rparr>"
      "as = sv_attempts v" "n = unresolved_incidents (st_incidents sb)"
      using scan_body_Inr[of env st sb as n] sb Inr an by metis
    have sc: "(\<forall>k \<in> set keys. incident_stands (st_incidents st2) k) \<and>
         (\<forall>i \<in> set (all_identities v). \<exists>d. classify v i = Inr d \<and> (incident_required d \<longrightarrow> keys \<noteq> []))"
      using scan_identities_stands[OF b(2)] by simp
    have "keys = []"
    proof (rule ccontr)
      assume "keys \<noteq> []"
      then obtain k where "k \<in> set keys" by (cases keys) auto
      then show False
        using sc fin b(3,5) stands_survives_resolution[of "st_incidents st2" k keys "map fst (env_exchanges env)"]
        by simp
    qed
    then have "\<forall>i \<in> set (all_identities v). \<exists>d. classify v i = Inr d \<and> allow_entry d"
      using sc classify_allow_iff_no_incident unfolding classify_def by metis
    then show ?thesis using st' b fin by auto
  qed
qed

text \<open>
  C1. After a reconciliation scan the gate is open only if the scan completed, every identity that
  any source knows was classified as allowing entry, no order attempt is unresolved and no incident
  stands in the table. A source that fails, a statement that raises or a single mismatch leaves the
  gate closed, whatever the exchanges, Redis, the database and the late-fill recovery answer.
\<close>

theorem open_gate_after_scan:
  assumes "gate_inv (st_gate st)" and "run_scan env st = (st', ok)" and "fst (is_open (st_gate st'))"
  shows "ok \<and> (\<exists>st1 v. gather env st = (st1, Inr v) \<and>
     (\<forall>i \<in> set (all_identities v). \<exists>d. classify v i = Inr d \<and> allow_entry d) \<and>
     \<not> list_ex (\<lambda>(i, xs). list_ex unresolved xs) (sv_attempts v) \<and>
     unresolved_incidents (st_incidents st') = 0)"
  using assms by (rule scan_open_gate)

definition sample_exchange :: exchange_view where
  "sample_exchange =
     \<lparr>ev_markets = [(''ABC/USDT:USDT'', \<lparr>m_id = Some ''ABCUSDT'', m_type = Some ''swap''\<rparr>)],
      ev_load_markets = Inr [],
      ev_positions = Inr [\<lparr>p_symbol = Some ''ABC/USDT:USDT'', p_side = Some ''Short'', p_contracts = PInt 3,
                           p_entryPrice = PNone\<rparr>],
      ev_has_fetchOrder = False, ev_fetch_order = (\<lambda>_ _. Inr None),
      ev_has_fetchOpenOrders = False, ev_fetch_open_orders = (\<lambda>_. Inr []),
      ev_has_fetchClosedOrders = False, ev_fetch_closed_orders = (\<lambda>_. Inr [])\<rparr>"

definition sample_env :: scan_env where
  "sample_env =
     \<lparr>env_exchanges = [(''bybit'', sample_exchange)],
      env_redis = Inr ((''trade:id:bybit:ABC'', ''7'') #
        map (\<lambda>k. (k, ''1'')) (required_keys ''bybit'' ''ABC'')),
      env_db_fetch = None, env_db_update = (\<lambda>_. None), env_db_upsert = (\<lambda>_. None), env_db_resolve = None,
      env_late = (\<lambda>a rows. (rows, Inr None)), env_digest = (\<lambda>s. s)\<rparr>"

definition sample_state :: scan_state where
  "sample_state =
     \<lparr>st_attempts =
        [\<lparr>ar_id = 4, ar_operation = ''entry'', ar_client_order_id = ''x'', ar_exchange = ''bybit'',
          ar_base = Some ''abc'', ar_symbol = ''ABC/USDT:USDT'', ar_native_market_id = Some ''ABCUSDT'',
          ar_market_type = Some ''swap'', ar_side = ''short'', ar_status = Att_completed,
          ar_order_id = Some ''o'', ar_requested_amount = Some (Num 3), ar_filled_amount = Some (Num 3),
          ar_trade_id = Some 7\<rparr>],
      st_trades =
        [\<lparr>tr_id = 7, tr_exchange = ''bybit'', tr_symbol = ''ABC/USDT:USDT'', tr_side = ''short'',
          tr_open = True, tr_paper = False\<rparr>],
      st_incidents = [],
      st_gate = set_safety_blocker STARTUP_BLOCKER (gate_init {}),
      st_alerts = []\<rparr>"

lemma sample_scan_opens: "fst (is_open (st_gate (fst (run_scan sample_env sample_state))))"
  by code_simp

theorem open_gate_after_scan_witness:
  "fst (is_open (st_gate (fst (run_scan sample_env sample_state)))) \<and>
   snd (run_scan sample_env sample_state) \<and>
   unresolved_incidents (st_incidents (fst (run_scan sample_env sample_state))) = 0"
proof -
  have "gate_inv (st_gate sample_state)"
    using gate_inv_steps(1)[OF gate_inv_init] by (simp add: sample_state_def)
  then show ?thesis
    using open_gate_after_scan[of sample_state sample_env "fst (run_scan sample_env sample_state)"
        "snd (run_scan sample_env sample_state)"] sample_scan_opens by auto
qed



text \<open>
  A position whose size cannot be read is passed over: it reaches no snapshot, so a scan that meets
  it can still open the gate.
\<close>

lemma unreadable_position_skipped:
  "decimal_or_none (p_contracts p) = None \<Longrightarrow> add_position n markets snaps p = Inr snaps"
  by (simp add: add_position_def)

definition unreadable_env :: scan_env where
  "unreadable_env =
     sample_env\<lparr>env_exchanges :=
       [(''bybit'', sample_exchange\<lparr>ev_positions :=
          Inr [\<lparr>p_symbol = Some ''ABC/USDT:USDT'', p_side = Some ''short'', p_contracts = PStr ''?'',
               p_entryPrice = PNone\<rparr>]\<rparr>)], env_redis := Inr []\<rparr>"

lemma unreadable_position_opens_gate:
  "fst (is_open (st_gate (fst (run_scan unreadable_env (sample_state\<lparr>st_attempts := [], st_trades := []\<rparr>)))))"
  by code_simp

text \<open>
  Alerts follow the incident table: an upsert alerts exactly when the incident is new or was
  resolved before, the row then stands (open, or manual_required if the operator promoted it), and
  rows of other keys are untouched; so a repeat scan of a standing incident never alerts again.
\<close>

theorem upsert_alerts_once:
  assumes "upsert_incident env d i x as r st = (st1, Inr key)"
  shows "(st_alerts st1 = st_alerts st \<longleftrightarrow> incident_stands (st_incidents st) key) \<and>
         incident_stands (st_incidents st1) key \<and>
         (\<forall>k. k \<noteq> key \<longrightarrow> map_of (st_incidents st1) k = map_of (st_incidents st) k) \<and>
         st_alerts (fst (upsert_incident env d i x as r st1)) = st_alerts st1"
proof -
  have key: "key = incident_key env i (discrepancy d) (entity_key as r)" "env_db_upsert env key = None"
    using assms by (auto simp: upsert_incident_def Let_def split: option.splits)
  have alerts: "st_alerts st1 = st_alerts st \<longleftrightarrow> incident_stands (st_incidents st) key"
    using assms key
    by (auto simp: upsert_incident_def Let_def incident_stands_def split: if_splits)
       (metis incident_status.exhaust)+
  have stands: "incident_stands (st_incidents st1) key" by (rule upsert_incident_stands(1)[OF assms])
  have other: "map_of (st_incidents st1) k = map_of (st_incidents st) k" if "k \<noteq> key" for k
    using assms key that by (auto simp: upsert_incident_def Let_def upsert_row_def update_conv')
  have "st_alerts (fst (upsert_incident env d i x as r st1)) = st_alerts st1"
    using key stands by (auto simp: upsert_incident_def Let_def incident_stands_def split: option.splits)
  then show ?thesis using alerts stands other by blast
qed

theorem upsert_alerts_once_witness:
  "st_alerts (fst (upsert_incident sample_env (quarantine MISSING_REDIS True) sample_identity None [] None sample_state)) =
     [(incident_key sample_env sample_identity MISSING_REDIS '''', False)] \<and>
   incident_stands (st_incidents (fst (upsert_incident sample_env (quarantine MISSING_REDIS True) sample_identity
     None [] None sample_state))) (incident_key sample_env sample_identity MISSING_REDIS '''')"
proof -
  let ?u = "upsert_incident sample_env (quarantine MISSING_REDIS True) sample_identity None [] None sample_state"
  have u: "?u = (fst ?u, Inr (incident_key sample_env sample_identity MISSING_REDIS ''''))"
    "st_alerts (fst ?u) = [(incident_key sample_env sample_identity MISSING_REDIS '''', False)]"
    by (simp_all add: upsert_incident_def Let_def entity_key_def sample_env_def sample_state_def)
  show ?thesis using upsert_alerts_once[OF u(1)] u(2) by blast
qed

end
