(* ===== verification/Accounting.thy ===== *)
theory Accounting
  imports Py_Num
begin

text \<open>
  Performance accounting shared by replay, paper and shadow trading
  (\<open>schurfer_performance/accounting.py\<close>): gross movement of a position and its conservative net
  result after fees, funding and slippage, in binary64 arithmetic.
\<close>

definition acc_finite_non_negative :: "string \<Rightarrow> pyfloat \<Rightarrow> unit res" where
  "acc_finite_non_negative name v =
     check (isfinite v \<and> \<not> flt v (Fin 0)) (ValueError (name @ '' must be finite and non-negative''))"

definition finite_positive :: "string \<Rightarrow> pyfloat \<Rightarrow> unit res" where
  "finite_positive name v =
     check (isfinite v \<and> \<not> fle v (Fin 0)) (ValueError (name @ '' must be finite and positive''))"

record cost_parameters =
  taker_fee_bps_per_side :: pyfloat
  funding_cost_bps_per_8h :: pyfloat

definition cost_parameters_post_init :: "cost_parameters \<Rightarrow> cost_parameters res" where
  "cost_parameters_post_init c =
     bindE (acc_finite_non_negative ''taker fee'' (taker_fee_bps_per_side c)) (\<lambda>_.
     bindE (acc_finite_non_negative ''funding cost'' (funding_cost_bps_per_8h c)) (\<lambda>_. Inr c))"

definition DEFAULT_COSTS :: cost_parameters where
  "DEFAULT_COSTS = \<lparr>taker_fee_bps_per_side = Fin 10, funding_cost_bps_per_8h = Fin 5\<rparr>"

datatype accounting_status = Acc_complete | Acc_incomplete "string list"

record accounting_result =
  gross_return_pct :: pyfloat
  net_return_pct :: "pyfloat option"
  gross_pnl_usd :: pyfloat
  net_pnl_usd :: "pyfloat option"
  fees_usd :: pyfloat
  funding_usd :: pyfloat
  slippage_usd :: "pyfloat option"
  fee_cost_bps :: pyfloat
  funding_cost_bps :: pyfloat
  slippage_cost_bps :: "pyfloat option"
  acc_status :: accounting_status

record performance_input =
  position_usd :: pyfloat
  entry_price :: pyfloat
  exit_price :: pyfloat
  trade_side :: string
  duration_minutes :: pyfloat
  entry_slippage_bps :: "pyfloat option"
  exit_slippage_bps :: "pyfloat option"
  costs :: cost_parameters
  entry_fee_bps :: "pyfloat option"
  exit_fee_bps :: "pyfloat option"

text \<open>Division by a non-zero literal, and a product scaled down by one.\<close>

definition scaled :: "pyfloat \<Rightarrow> pyfloat \<Rightarrow> rat \<Rightarrow> pyfloat res" where
  "scaled x y c = fdiv (fmul x y) (Fin c)"

definition validate_input :: "performance_input \<Rightarrow> unit res" where
  "validate_input i =
     bindE (finite_positive ''position_usd'' (position_usd i)) (\<lambda>_.
     bindE (finite_positive ''entry_price'' (entry_price i)) (\<lambda>_.
     bindE (finite_positive ''exit_price'' (exit_price i)) (\<lambda>_.
     bindE (acc_finite_non_negative ''duration_minutes'' (duration_minutes i)) (\<lambda>_.
     check (trade_side i \<in> {''long'', ''short''}) (ValueError ''side must be long or short'')))))"

definition gross_return :: "performance_input \<Rightarrow> pyfloat res" where
  "gross_return i =
     bindE (fdiv (if trade_side i = ''short'' then fsub (entry_price i) (exit_price i)
                  else fsub (exit_price i) (entry_price i)) (entry_price i))
       (\<lambda>r. Inr (fmul r (Fin 100)))"

definition effective_fee :: "cost_parameters \<Rightarrow> pyfloat option \<Rightarrow> pyfloat" where
  "effective_fee c f = (case f of None \<Rightarrow> taker_fee_bps_per_side c | Some x \<Rightarrow> x)"

definition missing_slippage :: "performance_input \<Rightarrow> string list" where
  "missing_slippage i =
     (if entry_slippage_bps i = None then [''entry_slippage_bps''] else []) @
     (if exit_slippage_bps i = None then [''exit_slippage_bps''] else [])"

text \<open>The gross part, fees and funding, with the net fields still empty.\<close>

definition gross_performance :: "performance_input \<Rightarrow> accounting_result res" where
  "gross_performance i =
     bindE (validate_input i) (\<lambda>_.
     bindE (gross_return i) (\<lambda>gross_ret.
     bindE (scaled (position_usd i) gross_ret 100) (\<lambda>gross.
     bindE (acc_finite_non_negative ''entry fee'' (effective_fee (costs i) (entry_fee_bps i))) (\<lambda>_.
     bindE (acc_finite_non_negative ''exit fee'' (effective_fee (costs i) (exit_fee_bps i))) (\<lambda>_.
     let fee_bps = fadd (effective_fee (costs i) (entry_fee_bps i)) (effective_fee (costs i) (exit_fee_bps i)) in
     bindE (scaled (funding_cost_bps_per_8h (costs i)) (duration_minutes i) 480) (\<lambda>funding_bps.
     bindE (scaled (position_usd i) fee_bps 10000) (\<lambda>fees.
     bindE (scaled (position_usd i) funding_bps 10000) (\<lambda>funding.
     Inr \<lparr>gross_return_pct = gross_ret, net_return_pct = None, gross_pnl_usd = gross,
          net_pnl_usd = None, fees_usd = fees, funding_usd = funding, slippage_usd = None,
          fee_cost_bps = fee_bps, funding_cost_bps = funding_bps, slippage_cost_bps = None,
          acc_status = Acc_incomplete (missing_slippage i)\<rparr>))))))))"

definition calculate_performance :: "performance_input \<Rightarrow> accounting_result res" where
  "calculate_performance i =
     bindE (gross_performance i) (\<lambda>g.
     case (entry_slippage_bps i, exit_slippage_bps i) of
       (Some en, Some ex) \<Rightarrow>
         bindE (acc_finite_non_negative ''entry_slippage_bps'' en) (\<lambda>_.
         bindE (acc_finite_non_negative ''exit_slippage_bps'' ex) (\<lambda>_.
         bindE (scaled (position_usd i) (fadd en ex) 10000) (\<lambda>slip.
         let net = fsub (fsub (fsub (gross_pnl_usd g) (fees_usd g)) (funding_usd g)) slip in
         bindE (fdiv net (position_usd i)) (\<lambda>r.
         Inr (g\<lparr>net_return_pct := Some (fmul r (Fin 100)), net_pnl_usd := Some net,
                slippage_usd := Some slip, slippage_cost_bps := Some (fadd en ex),
                acc_status := Acc_complete\<rparr>)))))
     | _ \<Rightarrow> Inr g)"

subsection \<open>Net never exceeds gross\<close>

lemma scaled_nonneg:
  assumes "isfinite x" "fle (Fin 0) x" "isfinite y \<or> y = PInf" "fle (Fin 0) y" "0 < c" "scaled x y c = Inr z"
    and "\<not> (x = Fin 0 \<and> y = PInf)"
  shows "fle (Fin 0) z"
proof -
  obtain a where x: "x = Fin a" "0 \<le> a" using assms(1,2) by (cases x) auto
  have m: "fle (Fin 0) (fmul x y)"
    using x assms(3,4,7) by (cases y) (auto simp: inf_sgn_def intro: fl_nonneg)
  then show ?thesis
    using assms(5,6) by (cases "fmul x y") (auto simp: scaled_def inf_sgn_def intro: fl_nonneg)
qed

lemma fadd_nonneg:
  assumes "fle (Fin 0) x" "fle (Fin 0) y"
  shows "fle (Fin 0) (fadd x y) \<and> (isfinite (fadd x y) \<or> fadd x y = PInf)"
proof (cases x)
  case (Fin a)
  note x = Fin
  show ?thesis
  proof (cases y)
    case (Fin b)
    have "fle (Fin 0) (fl (a + b))" using assms x Fin by (intro fl_nonneg) simp
    then show ?thesis using x Fin by (cases "fl (a + b)") auto
  qed (use assms x in auto)
next
  case PInf
  then show ?thesis using assms by (cases y) auto
qed (use assms in auto)

lemma fsub_nonneg_chain:
  assumes "is_float a" "isfinite a \<or> a = NInf" "fle (Fin 0) c"
  shows "fle (fsub a c) a \<and> is_float (fsub a c) \<and> (isfinite (fsub a c) \<or> fsub a c = NInf)"
proof (cases a)
  case (Fin x)
  have le: "fle (fsub a c) a" using assms Fin by (intro fsub_le) auto
  have "isfinite (fsub a c) \<or> fsub a c = NInf"
    using le Fin by (cases "fsub a c") auto
  moreover have "is_float (fsub a c)"
    unfolding fsub_def using assms Fin by (cases c) auto
  ultimately show ?thesis using le by simp
next
  case NInf
  then show ?thesis using assms by (cases c) (auto simp: fsub_def)
qed (use assms in auto)

lemma is_float_fdiv: "fdiv x y = Inr z \<Longrightarrow> is_float z"
  by (cases x; cases y) (auto simp: inf_sgn_def split: if_splits)

lemma not_flt_zero: "isfinite x \<Longrightarrow> \<not> flt x (Fin 0) \<Longrightarrow> fle (Fin 0) x"
  by (cases x) auto

lemma not_fle_zero: "isfinite x \<Longrightarrow> \<not> fle x (Fin 0) \<Longrightarrow> fle (Fin 0) x \<and> x \<noteq> Fin 0"
  by (cases x) auto

lemma gross_performance_Inr:
  assumes "gross_performance i = Inr g" "cost_parameters_post_init (costs i) = Inr (costs i)"
  shows "fle (Fin 0) (fees_usd g)" "fle (Fin 0) (funding_usd g)" "is_float (gross_pnl_usd g)"
    "isfinite (position_usd i)" "fle (Fin 0) (position_usd i)" "position_usd i \<noteq> Fin 0"
proof -
  let ?a = "effective_fee (costs i) (entry_fee_bps i)" and ?b = "effective_fee (costs i) (exit_fee_bps i)"
  from assms(1) obtain gr fb where
    v: "validate_input i = Inr ()"
    and f: "acc_finite_non_negative ''entry fee'' ?a = Inr ()" "acc_finite_non_negative ''exit fee'' ?b = Inr ()"
    and g: "scaled (position_usd i) gr 100 = Inr (gross_pnl_usd g)"
      "scaled (funding_cost_bps_per_8h (costs i)) (duration_minutes i) 480 = Inr fb"
      "scaled (position_usd i) (fadd ?a ?b) 10000 = Inr (fees_usd g)"
      "scaled (position_usd i) fb 10000 = Inr (funding_usd g)"
    by (auto simp: gross_performance_def bindE_eq_Inr Let_def)
  have pos: "isfinite (position_usd i)" "fle (Fin 0) (position_usd i)" "position_usd i \<noteq> Fin 0"
    and dur: "isfinite (duration_minutes i)" "fle (Fin 0) (duration_minutes i)"
    using v
    by (auto simp: validate_input_def finite_positive_def acc_finite_non_negative_def bindE_eq_Inr
        intro: not_flt_zero dest: not_fle_zero)
  have fnd: "isfinite (funding_cost_bps_per_8h (costs i))" "fle (Fin 0) (funding_cost_bps_per_8h (costs i))"
    using assms(2)
    by (auto simp: cost_parameters_post_init_def acc_finite_non_negative_def bindE_eq_Inr intro: not_flt_zero)
  have ab: "fle (Fin 0) ?a" "fle (Fin 0) ?b"
    using f by (auto simp: acc_finite_non_negative_def intro: not_flt_zero)
  have fb: "fle (Fin 0) fb"
    using dur fnd g(2) by (intro scaled_nonneg[OF fnd _ dur(2) _ g(2)]) auto
  then have "isfinite fb \<or> fb = PInf" by (cases fb) auto
  then show "fle (Fin 0) (funding_usd g)"
    using pos fb g(4) by (intro scaled_nonneg[OF pos(1,2) _ fb _ g(4)]) auto
  show "fle (Fin 0) (fees_usd g)"
    using fadd_nonneg[OF ab] pos(3) by (intro scaled_nonneg[OF pos(1,2) _ _ _ g(3)]) auto
  show "is_float (gross_pnl_usd g)" using g(1) by (auto simp: scaled_def intro: is_float_fdiv)
  show "isfinite (position_usd i)" "fle (Fin 0) (position_usd i)" "position_usd i \<noteq> Fin 0" by fact+
qed

text \<open>
  Net accounting is conservative and fails closed: with validated cost parameters and a gross
  result that does not overflow, a net result exists exactly when both slippages are known, then
  never exceeds the gross result, and fees and funding are never negative.
\<close>

theorem net_never_exceeds_gross:
  assumes "calculate_performance i = Inr r" and "cost_parameters_post_init (costs i) = Inr (costs i)"
    and "isfinite (gross_pnl_usd r)"
  shows "(net_pnl_usd r = None \<longleftrightarrow> entry_slippage_bps i = None \<or> exit_slippage_bps i = None) \<and>
         (\<forall>n. net_pnl_usd r = Some n \<longrightarrow> acc_status r = Acc_complete \<and> fle n (gross_pnl_usd r)) \<and>
         fle (Fin 0) (fees_usd r) \<and> fle (Fin 0) (funding_usd r)"
proof -
  obtain g where g: "gross_performance i = Inr g"
    using assms(1) by (auto simp: calculate_performance_def bindE_eq_Inr)
  note gp = gross_performance_Inr[OF g assms(2)]
  show ?thesis
  proof (cases "entry_slippage_bps i = None \<or> exit_slippage_bps i = None")
    case True
    then have "r = g"
      using assms(1) g by (auto simp: calculate_performance_def split: option.splits)
    moreover have "net_pnl_usd g = None"
      using g by (auto simp: gross_performance_def bindE_eq_Inr Let_def)
    ultimately show ?thesis using gp True by simp
  next
    case False
    then obtain en ex where s: "entry_slippage_bps i = Some en" "exit_slippage_bps i = Some ex" by auto
    obtain slip q where
      nn: "acc_finite_non_negative ''entry_slippage_bps'' en = Inr ()" "acc_finite_non_negative ''exit_slippage_bps'' ex = Inr ()"
      and slip: "scaled (position_usd i) (fadd en ex) 10000 = Inr slip"
      and r: "r = g\<lparr>net_return_pct := Some (fmul q (Fin 100)),
          net_pnl_usd := Some (fsub (fsub (fsub (gross_pnl_usd g) (fees_usd g)) (funding_usd g)) slip),
          slippage_usd := Some slip, slippage_cost_bps := Some (fadd en ex), acc_status := Acc_complete\<rparr>"
      using assms(1) g s by (auto simp: calculate_performance_def bindE_eq_Inr Let_def)
    have "fle (Fin 0) en" "fle (Fin 0) ex"
      using nn by (auto simp: acc_finite_non_negative_def intro: not_flt_zero)
    then have "fle (Fin 0) slip"
      using fadd_nonneg[of en ex] gp(6) by (intro scaled_nonneg[OF gp(4,5) _ _ _ slip]) auto
    moreover have "isfinite (gross_pnl_usd g)" using assms(3) r by simp
    ultimately have
      "fle (fsub (fsub (fsub (gross_pnl_usd g) (fees_usd g)) (funding_usd g)) slip) (gross_pnl_usd g)"
      using gp(1-3) fsub_nonneg_chain by (meson fle_trans)
    then show ?thesis using r s gp(1,2) by simp
  qed
qed

theorem net_never_exceeds_gross_witness:
  "\<exists>r. calculate_performance
     \<lparr>position_usd = Fin 10000, entry_price = Fin 128, exit_price = Fin 64, trade_side = ''short'',
      duration_minutes = Fin 480, entry_slippage_bps = Some (Fin 3), exit_slippage_bps = Some (Fin 2),
      costs = DEFAULT_COSTS, entry_fee_bps = None, exit_fee_bps = None\<rparr> = Inr r \<and>
     net_pnl_usd r = Some (Fin 4970) \<and> gross_pnl_usd r = Fin 5000 \<and>
     (\<forall>n. net_pnl_usd r = Some n \<longrightarrow> acc_status r = Acc_complete \<and> fle n (gross_pnl_usd r))"
proof -
  let ?i = "\<lparr>position_usd = Fin 10000, entry_price = Fin 128, exit_price = Fin 64, trade_side = ''short'',
      duration_minutes = Fin 480, entry_slippage_bps = Some (Fin 3), exit_slippage_bps = Some (Fin 2),
      costs = DEFAULT_COSTS, entry_fee_bps = None, exit_fee_bps = None\<rparr>"
  have "\<exists>r. calculate_performance ?i = Inr r \<and> net_pnl_usd r = Some (Fin 4970) \<and> gross_pnl_usd r = Fin 5000"
    by (simp add: calculate_performance_def gross_performance_def validate_input_def finite_positive_def
        acc_finite_non_negative_def gross_return_def effective_fee_def DEFAULT_COSTS_def scaled_def fsub_def Let_def)
  moreover have "cost_parameters_post_init (costs ?i) = Inr (costs ?i)"
    by (simp add: cost_parameters_post_init_def acc_finite_non_negative_def DEFAULT_COSTS_def)
  ultimately show ?thesis using net_never_exceeds_gross[of ?i] by force
qed

end
