(* ===== verification/Fill_Price.thy ===== *)
theory Fill_Price
  imports Exchange_Orders
begin

text \<open>
  Fill-price resolution (\<open>fill_price.py\<close>): the price of an order is taken from the order itself, a
  re-fetched view of it, or its confirmed trades, never from a ticker. What the exchange answers to
  the two follow-up requests is an argument.
\<close>

datatype fill_status = FILL_CONFIRMED | FILL_PARTIAL | FILL_NONE | FILL_UNRESOLVED

datatype fill_source =
    Order_average | Order_price | Order_cost_filled | Refetch fill_source | Trades_vwap
  | No_fill | Unresolved

datatype time_source = Exchange_lastTradeTimestamp | Exchange_timestamp | Exchange_datetime

text \<open>Instants are microseconds since the epoch.\<close>

record fill_resolution =
  fr_status :: fill_status
  fr_price :: "pyfloat option"
  fr_source :: fill_source
  fr_filled_amount :: "pyfloat option"
  fr_executed_at :: "int option"
  fr_time_source :: "time_source option"

text \<open>
  The fields of a unified trade. An ISO time text is identified with what it denotes: no or empty
  text, a text that does not parse, one without a time zone, or an instant.
\<close>

datatype iso_text = Iso_absent | Iso_bad | Iso_naive | Iso_at int

record trade_payload =
  t_price :: pyval
  t_amount :: pyval
  t_lastTradeTimestamp :: pyval
  t_timestamp :: pyval
  t_datetime :: iso_text

definition order_is_terminal :: "order \<Rightarrow> bool" where
  "order_is_terminal ord \<longleftrightarrow>
     (case o_status ord of
        None \<Rightarrow> False
      | Some s \<Rightarrow> lower s \<in> {''closed'', ''canceled'', ''cancelled'', ''expired'', ''rejected''})"

text \<open>
  \<open>float(value)\<close> under a handler for \<open>TypeError\<close> and \<open>ValueError\<close>: an integer too large for a
  float still raises \<open>OverflowError\<close>.
\<close>

definition float_or_none :: "pyval \<Rightarrow> pyfloat option res" where
  "float_or_none v =
     (case py_float v of
        Inr f \<Rightarrow> Inr (Some f)
      | Inl OverflowError \<Rightarrow> Inl OverflowError
      | Inl _ \<Rightarrow> Inr None)"

definition keep_if :: "(pyfloat \<Rightarrow> bool) \<Rightarrow> pyfloat option \<Rightarrow> pyfloat option" where
  "keep_if p x = (case x of None \<Rightarrow> None | Some f \<Rightarrow> if isfinite f \<and> p f then Some f else None)"

definition finite_positive :: "pyval \<Rightarrow> pyfloat option res" where
  "finite_positive v = bindE (float_or_none v) (\<lambda>x. Inr (keep_if (\<lambda>f. flt (Fin 0) f) x))"

definition finite_non_negative :: "pyval \<Rightarrow> pyfloat option res" where
  "finite_non_negative v = bindE (float_or_none v) (\<lambda>x. Inr (keep_if (\<lambda>f. fle (Fin 0) f) x))"

subsection \<open>Execution time\<close>

text \<open>
  \<open>datetime.fromtimestamp(seconds, tz=UTC)\<close> of a positive float: the fraction is scaled in floating
  point and rounded half to even; beyond the year 9999 it raises, which the code treats as absent.
\<close>

definition from_timestamp :: "rat \<Rightarrow> int option" where
  "from_timestamp x =
     (let whole = \<lfloor>x\<rfloor>; us = rhe (b64 ((x - of_int whole) * 1000000)); t = whole * 1000000 + us
      in if t < 253402300800 * 1000000 then Some t else None)"

definition timestamp_instant :: "pyval \<Rightarrow> int option res" where
  "timestamp_instant raw =
     (if raw = PNone then Inr None
      else bindE (finite_positive raw) (\<lambda>n.
        case n of
          None \<Rightarrow> Inr None
        | Some numeric \<Rightarrow>
            bindE (if fle (Fin 100000000000) numeric then fdiv numeric (Fin 1000) else Inr numeric)
              (\<lambda>seconds. Inr (case seconds of Fin x \<Rightarrow> from_timestamp x | _ \<Rightarrow> None))))"

fun first_instant :: "(pyval \<times> time_source) list \<Rightarrow> (int \<times> time_source) option res" where
  "first_instant [] = Inr None"
| "first_instant ((raw, src) # rest) =
     bindE (timestamp_instant raw) (\<lambda>t.
       case t of Some us \<Rightarrow> Inr (Some (us, src)) | None \<Rightarrow> first_instant rest)"

definition order_execution_time :: "order \<Rightarrow> (int \<times> time_source) option res" where
  "order_execution_time ord = first_instant [(o_lastTradeTimestamp ord, Exchange_lastTradeTimestamp)]"

definition trade_execution_time :: "trade_payload \<Rightarrow> (int \<times> time_source) option res" where
  "trade_execution_time t =
     bindE (first_instant [(t_lastTradeTimestamp t, Exchange_lastTradeTimestamp),
                           (t_timestamp t, Exchange_timestamp)]) (\<lambda>r.
       case r of
         Some x \<Rightarrow> Inr (Some x)
       | None \<Rightarrow> Inr (case t_datetime t of Iso_at us \<Rightarrow> Some (us, Exchange_datetime) | _ \<Rightarrow> None))"

subsection \<open>Price and volume\<close>

definition from_order_fields :: "order \<Rightarrow> (pyfloat option \<times> pyfloat option \<times> fill_source option) res" where
  "from_order_fields ord =
     bindE (finite_non_negative (o_filled ord)) (\<lambda>filled.
     bindE (finite_positive (o_average ord)) (\<lambda>average.
     case average of
       Some a \<Rightarrow> Inr (Some a, filled, Some Order_average)
     | None \<Rightarrow>
         bindE (finite_positive (o_price ord)) (\<lambda>price.
         case price of
           Some p \<Rightarrow> Inr (Some p, filled, Some Order_price)
         | None \<Rightarrow>
             bindE (finite_positive (o_cost ord)) (\<lambda>cost.
             case (cost, filled) of
               (Some c, Some f) \<Rightarrow>
                 if flt (Fin 0) f
                 then bindE (fdiv c f) (\<lambda>q. Inr (Some q, filled, Some Order_cost_filled))
                 else Inr (None, filled, None)
             | _ \<Rightarrow> Inr (None, filled, None)))))"

record vwap_state =
  vs_cost :: pyfloat
  vs_amount :: pyfloat
  vs_latest :: "(int \<times> time_source) option"

definition add_trade_payload :: "vwap_state \<Rightarrow> trade_payload option \<Rightarrow> vwap_state res" where
  "add_trade_payload s row =
     (case row of
        None \<Rightarrow> Inr s
      | Some t \<Rightarrow>
          bindE (finite_positive (t_price t)) (\<lambda>price.
          bindE (finite_positive (t_amount t)) (\<lambda>amount.
          case (price, amount) of
            (Some p, Some a) \<Rightarrow>
              bindE (trade_execution_time t) (\<lambda>when_at.
                Inr \<lparr>vs_cost = fadd (vs_cost s) (fmul p a), vs_amount = fadd (vs_amount s) a,
                     vs_latest =
                       (case when_at of
                          None \<Rightarrow> vs_latest s
                        | Some (us, src) \<Rightarrow>
                            (case vs_latest s of
                               None \<Rightarrow> Some (us, src)
                             | Some (old, _) \<Rightarrow> if old < us then Some (us, src) else vs_latest s))\<rparr>)
          | _ \<Rightarrow> Inr s)))"

text \<open>
  What the trade request returned: \<open>None\<close> when the exchange has no such call, the call raised or
  timed out, or the answer is no list; otherwise the rows (\<open>None\<close> for a row that is no dictionary).
\<close>

definition vwap_from_trades ::
  "trade_payload option list option \<Rightarrow> (pyfloat \<times> pyfloat \<times> (int \<times> time_source) option) option res" where
  "vwap_from_trades answer =
     (case answer of
        None \<Rightarrow> Inr None
      | Some [] \<Rightarrow> Inr None
      | Some trades \<Rightarrow>
          bindE (foldE add_trade_payload \<lparr>vs_cost = Fin 0, vs_amount = Fin 0, vs_latest = None\<rparr> trades) (\<lambda>s.
          if fle (vs_amount s) (Fin 0) then Inr None
          else bindE (fdiv (vs_cost s) (vs_amount s)) (\<lambda>v. Inr (Some (v, vs_amount s, vs_latest s)))))"

definition PARTIAL_FILL_TOLERANCE :: pyfloat where
  "PARTIAL_FILL_TOLERANCE = fl (1 / 1000)"

definition status_for :: "pyfloat option \<Rightarrow> pyfloat option \<Rightarrow> fill_status" where
  "status_for filled_amount requested_amount =
     (case (requested_amount, filled_amount) of
        (Some r, Some f) \<Rightarrow>
          if flt f (fmul r (fsub (Fin 1) PARTIAL_FILL_TOLERANCE)) then FILL_PARTIAL else FILL_CONFIRMED
      | _ \<Rightarrow> FILL_CONFIRMED)"

definition resolved ::
  "pyfloat \<Rightarrow> pyfloat option \<Rightarrow> pyfloat option \<Rightarrow> fill_source \<Rightarrow> (int \<times> time_source) option \<Rightarrow> fill_resolution" where
  "resolved price filled_amount requested_amount src when_at =
     \<lparr>fr_status = status_for filled_amount requested_amount, fr_price = Some price, fr_source = src,
      fr_filled_amount = filled_amount, fr_executed_at = map_option fst when_at,
      fr_time_source = map_option snd when_at\<rparr>"

definition unresolved_fill :: fill_resolution where
  "unresolved_fill =
     \<lparr>fr_status = FILL_UNRESOLVED, fr_price = None, fr_source = Unresolved, fr_filled_amount = None,
      fr_executed_at = None, fr_time_source = None\<rparr>"

definition no_fill_resolution :: fill_resolution where
  "no_fill_resolution =
     \<lparr>fr_status = FILL_NONE, fr_price = None, fr_source = No_fill, fr_filled_amount = Some (Fin 0),
      fr_executed_at = None, fr_time_source = None\<rparr>"

text \<open>
  A view of the order that settles the question: it has a price and its filled amount is not an
  explicit zero.
\<close>

definition view_resolution ::
  "(fill_source \<Rightarrow> fill_source) \<Rightarrow> pyfloat option \<Rightarrow> order \<Rightarrow>
   pyfloat option \<times> pyfloat option \<times> fill_source option \<Rightarrow> fill_resolution option res" where
  "view_resolution tag requested ord fds =
     (case fds of
        (Some price, filled, Some src) \<Rightarrow>
          if filled \<noteq> Some (Fin 0)
          then bindE (order_execution_time ord) (\<lambda>when_at. Inr (Some (resolved price filled requested (tag src) when_at)))
          else Inr None
      | _ \<Rightarrow> Inr None)"

definition trades_or_nothing ::
  "pyfloat option \<Rightarrow> pyfloat option \<Rightarrow> trade_payload option list option \<Rightarrow> fill_resolution res" where
  "trades_or_nothing requested latest_filled trades =
     bindE (vwap_from_trades trades) (\<lambda>v.
     let nothing = (if latest_filled = Some (Fin 0) then no_fill_resolution else unresolved_fill)
     in case v of
          Some (vwap, amount, when_at) \<Rightarrow>
            if flt (Fin 0) amount then Inr (resolved vwap (Some amount) requested Trades_vwap when_at)
            else Inr nothing
        | None \<Rightarrow> Inr nothing)"

text \<open>
  \<open>refreshed\<close> is the re-fetched order (\<open>None\<close> when the request failed or returned no dictionary),
  \<open>trades\<close> the answer to the trade request.
\<close>

definition after_refetch ::
  "pyfloat option \<Rightarrow> pyfloat option \<Rightarrow> order option \<Rightarrow> trade_payload option list option \<Rightarrow> fill_resolution res" where
  "after_refetch requested filled_amount refreshed trades =
     bindE (case refreshed of
              None \<Rightarrow> Inr (None, None)
            | Some ord \<Rightarrow>
                bindE (from_order_fields ord) (\<lambda>fds.
                bindE (view_resolution Refetch requested ord fds) (\<lambda>r.
                  Inr (r, fst (snd fds))))) (\<lambda>(settled, refreshed_filled).
     case settled of
       Some r \<Rightarrow> Inr r
     | None \<Rightarrow>
         trades_or_nothing requested
           (case refreshed_filled of Some f \<Rightarrow> Some f | None \<Rightarrow> filled_amount) trades)"

definition resolve_fill_price ::
  "order \<Rightarrow> pyfloat option \<Rightarrow> order option \<Rightarrow> trade_payload option list option \<Rightarrow> fill_resolution res" where
  "resolve_fill_price ord requested refreshed trades =
     bindE (from_order_fields ord) (\<lambda>fds.
     bindE (view_resolution (\<lambda>s. s) requested ord fds) (\<lambda>r.
     case r of
       Some res \<Rightarrow> Inr res
     | None \<Rightarrow>
         if o_id ord = None then Inr unresolved_fill
         else after_refetch requested (fst (snd fds)) refreshed trades))"

subsection \<open>No fill is fabricated\<close>

text \<open>Where a price may come from: a view of the order, or its trades.\<close>

definition order_shows :: "order \<Rightarrow> pyfloat \<Rightarrow> pyfloat option \<Rightarrow> bool" where
  "order_shows ord p f \<longleftrightarrow>
     (\<exists>src. from_order_fields ord = Inr (Some p, f, Some src)) \<and> f \<noteq> Some (Fin 0)"

definition trades_show :: "trade_payload option list option \<Rightarrow> pyfloat \<Rightarrow> pyfloat option \<Rightarrow> bool" where
  "trades_show trades p f \<longleftrightarrow>
     (\<exists>a t. vwap_from_trades trades = Inr (Some (p, a, t)) \<and> f = Some a \<and> flt (Fin 0) a)"

definition explicit_zero :: "order \<Rightarrow> bool" where
  "explicit_zero ord \<longleftrightarrow> (\<exists>fds. from_order_fields ord = Inr fds \<and> fst (snd fds) = Some (Fin 0))"

lemma explicit_zeroI: "from_order_fields ord = Inr fds \<Longrightarrow> fst (snd fds) = Some (Fin 0) \<Longrightarrow> explicit_zero ord"
  unfolding explicit_zero_def by blast

lemma order_shows_nonzero: "\<forall>p f. order_shows ord p f \<longrightarrow> f \<noteq> Some (Fin 0)"
  by (simp add: order_shows_def)

lemma trades_show_nonzero: "\<forall>p f. trades_show trades p f \<longrightarrow> f \<noteq> Some (Fin 0)"
  by (auto simp: trades_show_def)

lemma status_for_cases: "status_for f r \<in> {FILL_CONFIRMED, FILL_PARTIAL}"
  by (auto simp: status_for_def split: option.splits)

lemma view_resolution_Some:
  assumes "view_resolution tag req ord fds = Inr (Some r)" "from_order_fields ord = Inr fds"
  shows "\<exists>p f. fr_price r = Some p \<and> fr_filled_amount r = f \<and> fr_status r = status_for f req \<and>
               order_shows ord p f"
  using assms
  by (auto simp: view_resolution_def resolved_def order_shows_def bindE_eq_Inr
      split: prod.splits option.splits if_splits)

lemma view_resolution_None:
  assumes "view_resolution tag req ord fds = Inr None" "from_order_fields ord = Inr fds"
  shows "\<not> order_shows ord p f"
  using assms
  by (auto simp: view_resolution_def order_shows_def bindE_eq_Inr split: prod.splits option.splits if_splits)

lemma trades_or_nothing_cases:
  assumes "trades_or_nothing req latest trades = Inr r"
  shows "(\<exists>p f. trades_show trades p f \<and> fr_price r = Some p \<and> fr_filled_amount r = f \<and>
            fr_status r = status_for f req) \<or>
         r = unresolved_fill \<or> r = no_fill_resolution \<and> latest = Some (Fin 0)"
proof -
  obtain v where v: "vwap_from_trades trades = Inr v"
    using assms by (auto simp: trades_or_nothing_def bindE_eq_Inr)
  show ?thesis
    using assms v
    by (cases v) (auto simp: trades_or_nothing_def Let_def trades_show_def resolved_def split: if_splits)
qed

text \<open>What a resolution after the re-fetch can be.\<close>

definition shows_fill :: "pyfloat option \<Rightarrow> fill_resolution \<Rightarrow> (pyfloat \<Rightarrow> pyfloat option \<Rightarrow> bool) \<Rightarrow> bool" where
  "shows_fill req r P \<longleftrightarrow>
     (\<exists>p. fr_price r = Some p \<and> P p (fr_filled_amount r) \<and> fr_status r = status_for (fr_filled_amount r) req)"

lemma after_refetch_cases:
  assumes "after_refetch req filled refreshed trades = Inr r"
  shows "(\<exists>ord. refreshed = Some ord \<and> shows_fill req r (order_shows ord)) \<or>
         shows_fill req r (trades_show trades) \<or>
         r = unresolved_fill \<or>
         r = no_fill_resolution \<and>
           (filled = Some (Fin 0) \<or> (\<exists>ord. refreshed = Some ord \<and> explicit_zero ord))"
proof (cases refreshed)
  case None
  then have "trades_or_nothing req filled trades = Inr r" using assms by (simp add: after_refetch_def)
  from trades_or_nothing_cases[OF this] show ?thesis by (auto simp: shows_fill_def)
next
  case (Some ord)
  then obtain fds s where f: "from_order_fields ord = Inr fds"
    and s: "view_resolution Refetch req ord fds = Inr s"
    using assms by (auto simp: after_refetch_def bindE_eq_Inr)
  show ?thesis
  proof (cases s)
    case None
    then have "trades_or_nothing req (case fst (snd fds) of Some f \<Rightarrow> Some f | None \<Rightarrow> filled) trades = Inr r"
      using assms Some f s by (simp add: after_refetch_def)
    from trades_or_nothing_cases[OF this] show ?thesis
      using Some explicit_zeroI[OF f] by (auto simp: shows_fill_def split: option.splits)
  next
    case (Some r')
    then have "r' = r" using assms \<open>refreshed = Some ord\<close> f s by (simp add: after_refetch_def)
    then have "shows_fill req r (order_shows ord)"
      using view_resolution_Some[of Refetch req ord fds r] Some s f by (auto simp: shows_fill_def)
    then show ?thesis using \<open>refreshed = Some ord\<close> by blast
  qed
qed

lemma shows_fill_facts:
  assumes "shows_fill req r P" "\<forall>p f. P p f \<longrightarrow> f \<noteq> Some (Fin 0)"
  shows "fr_status r \<in> {FILL_CONFIRMED, FILL_PARTIAL}" "fr_price r \<noteq> None"
    "fr_filled_amount r \<noteq> Some (Fin 0)" "fr_status r = status_for (fr_filled_amount r) req"
    "fr_price r = Some p \<Longrightarrow> P p (fr_filled_amount r)"
  using assms status_for_cases[of "fr_filled_amount r" req] unfolding shows_fill_def by auto



end
