(* ===== verification/Config.thy ===== *)
theory Config
  imports Py_Value
begin

text \<open>
  The service configuration (\<open>config.py\<close>): how each setting is read from the environment, with
  its default, and the record of the settings the execution code reads. Credentials are opaque text
  and are left out. The validation \<open>__post_init__\<close> also resolves the trading modes and is in the
  theory of \<open>execution_intent.py\<close>.
\<close>

type_synonym environment = "string \<Rightarrow> string option"

text \<open>\<open>os.getenv(key) or default\<close>: an empty value counts as unset.\<close>

definition env_text :: "environment \<Rightarrow> string \<Rightarrow> string option" where
  "env_text env key = (case env key of Some (c # cs) \<Rightarrow> Some (c # cs) | _ \<Rightarrow> None)"

definition env_float :: "environment \<Rightarrow> string \<Rightarrow> pyfloat \<Rightarrow> pyfloat" where
  "env_float env key dflt =
     (case env_text env key of
        None \<Rightarrow> dflt
      | Some s \<Rightarrow> (case parse_number s of None \<Rightarrow> dflt | Some n \<Rightarrow> float_of_number n))"

definition env_int :: "environment \<Rightarrow> string \<Rightarrow> int \<Rightarrow> int" where
  "env_int env key dflt =
     (case env_text env key of
        None \<Rightarrow> dflt
      | Some s \<Rightarrow> (case parse_int s of None \<Rightarrow> dflt | Some n \<Rightarrow> n))"

definition env_bool :: "environment \<Rightarrow> string \<Rightarrow> bool \<Rightarrow> bool" where
  "env_bool env key dflt =
     (case env key of
        None \<Rightarrow> dflt
      | Some s \<Rightarrow> lower (strip s) \<notin> {''0'', ''false'', ''no'', ''''})"

definition env_default :: "environment \<Rightarrow> string \<Rightarrow> string \<Rightarrow> string" where
  "env_default env key dflt = (case env key of None \<Rightarrow> dflt | Some s \<Rightarrow> s)"

record config =
  testnet :: bool
  max_positions :: int
  max_position_usd :: pyfloat
  daily_loss_limit_usd :: pyfloat
  score_threshold :: int
  entry_min_pct :: pyfloat
  measurement_strategy_version :: string
  liquidation_buffer_pct :: pyfloat
  min_funding_rate_pct :: pyfloat
  require_funding_rate :: bool
  require_market_quality :: bool
  max_spread_bps :: pyfloat
  max_liquidity_impact_bps :: pyfloat
  liquidity_depth_multiplier :: pyfloat
  early_momentum_rearm_cooldown_seconds :: int
  identity_snapshot_max_age_hours :: pyfloat
  early_momentum_health_alert_cooldown_seconds :: int
  market_refresh_interval_seconds :: pyfloat
  market_refresh_min_interval_seconds :: pyfloat
  auto_trade :: bool
  dry_run :: bool
  signal_position_usd :: pyfloat
  signal_leverage :: int
  strategy_version :: string
  risk_per_trade_pct :: pyfloat
  require_red_candle :: bool
  cfg_min_retrace_pct :: pyfloat
  db_url :: "string option"
  pump_short_mode :: "string option"
  early_momentum_mode :: "string option"
  liquidation_cascade_mode :: "string option"
  source_lead_mode :: "string option"

definition load_config :: "environment \<Rightarrow> config" where
  "load_config env =
     \<lparr>testnet = env_bool env ''TESTNET'' False,
      max_positions = env_int env ''MAX_POSITIONS'' 5,
      max_position_usd = env_float env ''MAX_POSITION_USD'' (Fin 500),
      daily_loss_limit_usd = env_float env ''DAILY_LOSS_LIMIT_USD'' (Fin 200),
      score_threshold = env_int env ''SCORE_THRESHOLD'' 6,
      entry_min_pct = env_float env ''PUMP_ENTRY_MIN_PCT'' (env_float env ''PUMP_MIN_PCT'' (Fin 30)),
      measurement_strategy_version =
        env_default env ''MEASUREMENT_STRATEGY_VERSION'' ''pump_short_measurement_v1'',
      liquidation_buffer_pct = env_float env ''LIQUIDATION_BUFFER_PCT'' (Fin 20),
      min_funding_rate_pct = env_float env ''MIN_FUNDING_RATE_PCT'' (fl (- 1 / 10)),
      require_funding_rate = env_bool env ''REQUIRE_FUNDING_RATE'' False,
      require_market_quality = env_bool env ''REQUIRE_MARKET_QUALITY'' True,
      max_spread_bps = env_float env ''MAX_SPREAD_BPS'' (Fin 50),
      max_liquidity_impact_bps = env_float env ''MAX_LIQUIDITY_IMPACT_BPS'' (Fin 50),
      liquidity_depth_multiplier = env_float env ''LIQUIDITY_DEPTH_MULTIPLIER'' (Fin 2),
      early_momentum_rearm_cooldown_seconds = env_int env ''EARLY_MOMENTUM_REARM_COOLDOWN_SECONDS'' 1800,
      identity_snapshot_max_age_hours = env_float env ''IDENTITY_SNAPSHOT_MAX_AGE_HOURS'' (Fin 720),
      early_momentum_health_alert_cooldown_seconds =
        env_int env ''EARLY_MOMENTUM_HEALTH_ALERT_COOLDOWN_SECONDS'' 1800,
      market_refresh_interval_seconds = env_float env ''MARKET_REFRESH_INTERVAL_SECONDS'' (Fin 900),
      market_refresh_min_interval_seconds = env_float env ''MARKET_REFRESH_MIN_INTERVAL_SECONDS'' (Fin 60),
      auto_trade = env_bool env ''AUTO_TRADE'' False,
      dry_run = env_bool env ''DRY_RUN'' False,
      signal_position_usd = env_float env ''SIGNAL_POSITION_USD'' (Fin 50),
      signal_leverage = env_int env ''SIGNAL_LEVERAGE'' 3,
      strategy_version = env_default env ''STRATEGY_VERSION'' ''pump_short_v1_market_quality'',
      risk_per_trade_pct = env_float env ''RISK_PER_TRADE_PCT'' (Fin 0),
      require_red_candle = env_bool env ''REQUIRE_RED_CANDLE'' False,
      cfg_min_retrace_pct = env_float env ''MIN_RETRACE_PCT'' (Fin 0),
      db_url = env_text env ''DATABASE_URL'',
      pump_short_mode = env_text env ''PUMP_SHORT_MODE'',
      early_momentum_mode = env_text env ''EARLY_MOMENTUM_MODE'',
      liquidation_cascade_mode = env_text env ''LIQUIDATION_CASCADE_MODE'',
      source_lead_mode = env_text env ''SOURCE_LEAD_MODE''\<rparr>"

end
