(* ===== verification/Execution_Intent.thy ===== *)
theory Execution_Intent
  imports Config Supervisor Risk
begin

text \<open>
  Trading modes and brokers (\<open>execution_intent.py\<close>) and the validation of the configuration that
  depends on them (\<open>config.py\<close>). The mode ladder decides which broker a strategy gets; a broker
  turns an intent into a result. What the paper journal and the decision store answer is an
  argument; which of their operations a broker calls, and in which order, is an effect log.
\<close>

datatype trading_mode = DISABLED | SHADOW | PAPER | LIVE_PROBE | LIVE_MICRO

fun ladder :: "trading_mode \<Rightarrow> nat" where
  "ladder DISABLED = 0"
| "ladder SHADOW = 1"
| "ladder PAPER = 2"
| "ladder LIVE_PROBE = 3"
| "ladder LIVE_MICRO = 4"

definition unimplemented_mode :: "trading_mode \<Rightarrow> bool" where
  "unimplemented_mode m \<longleftrightarrow> m = LIVE_PROBE \<or> m = LIVE_MICRO"

definition STRATEGY_PUMP_SHORT :: string where
  "STRATEGY_PUMP_SHORT = ''pump_short''"

definition STRATEGY_EARLY_MOMENTUM :: string where
  "STRATEGY_EARLY_MOMENTUM = ''early_momentum''"

definition STRATEGY_LIQUIDATION_CASCADE :: string where
  "STRATEGY_LIQUIDATION_CASCADE = ''liquidation_cascade''"

lemmas strategy_names = STRATEGY_PUMP_SHORT_def STRATEGY_EARLY_MOMENTUM_def STRATEGY_LIQUIDATION_CASCADE_def

definition parse_mode :: "string \<Rightarrow> trading_mode res" where
  "parse_mode value =
     (if value = ''disabled'' then Inr DISABLED
      else if value = ''shadow'' then Inr SHADOW
      else if value = ''paper'' then Inr PAPER
      else if value = ''live_probe'' then Inr LIVE_PROBE
      else if value = ''live_micro'' then Inr LIVE_MICRO
      else Inl (ValueError ''not a valid TradingMode''))"

definition mode_override :: "config \<Rightarrow> string \<Rightarrow> trading_mode option res" where
  "mode_override cfg strategy =
     (let parse = (\<lambda>raw. case raw of None \<Rightarrow> Inr None | Some s \<Rightarrow> bindE (parse_mode s) (\<lambda>m. Inr (Some m)))
      in if strategy = STRATEGY_PUMP_SHORT then parse (pump_short_mode cfg)
         else if strategy = STRATEGY_EARLY_MOMENTUM then parse (early_momentum_mode cfg)
         else if strategy = STRATEGY_LIQUIDATION_CASCADE then parse (liquidation_cascade_mode cfg)
         else Inl (ValueError ''unknown strategy''))"

definition mode_ceiling :: "config \<Rightarrow> trading_mode" where
  "mode_ceiling cfg = (if auto_trade cfg then LIVE_MICRO else if dry_run cfg then PAPER else DISABLED)"

definition live_execution_allowed :: "config \<Rightarrow> bool" where
  "live_execution_allowed cfg \<longleftrightarrow> ladder LIVE_PROBE \<le> ladder (mode_ceiling cfg)"

definition resolve_mode :: "config \<Rightarrow> string \<Rightarrow> trading_mode res" where
  "resolve_mode cfg strategy =
     bindE (mode_override cfg strategy) (\<lambda>override.
     let ceiling = mode_ceiling cfg in
     case override of
       None \<Rightarrow> Inr (if ladder PAPER \<le> ladder ceiling then PAPER else ceiling)
     | Some m \<Rightarrow>
         bindE (check (ladder m \<le> ladder ceiling) (ValueError ''mode exceeds the ceiling'')) (\<lambda>_.
         bindE (check (\<not> unimplemented_mode m) (ValueError ''mode has no implemented broker'')) (\<lambda>_.
         bindE (check (\<not> (m = SHADOW \<and> strategy = STRATEGY_PUMP_SHORT))
            (ValueError ''shadow is not usable by this strategy'')) (\<lambda>_. Inr m))))"

subsection \<open>Validation of the configuration\<close>

definition validate_trading_modes :: "config \<Rightarrow> unit res" where
  "validate_trading_modes cfg =
     forE (\<lambda>s. bindE (resolve_mode cfg s) (\<lambda>_. Inr ()))
       [STRATEGY_PUMP_SHORT, STRATEGY_EARLY_MOMENTUM, STRATEGY_LIQUIDATION_CASCADE]"

definition present :: "string option \<Rightarrow> bool" where
  "present t \<longleftrightarrow> (case t of Some (c # cs) \<Rightarrow> True | _ \<Rightarrow> False)"

definition validate_limits :: "config \<Rightarrow> unit res" where
  "validate_limits cfg =
     bindE (check (\<not> fle (signal_position_usd cfg) (Fin 0)) (ValueError ''SIGNAL_POSITION_USD'')) (\<lambda>_.
     bindE (check (1 \<le> signal_leverage cfg \<and> signal_leverage cfg \<le> 125) (ValueError ''SIGNAL_LEVERAGE'')) (\<lambda>_.
     bindE (check (fle (Fin 0) (liquidation_buffer_pct cfg) \<and> flt (liquidation_buffer_pct cfg) (Fin 100))
        (ValueError ''LIQUIDATION_BUFFER_PCT'')) (\<lambda>_.
     bindE (check (fle (Fin 0) (risk_per_trade_pct cfg) \<and> fle (risk_per_trade_pct cfg) (Fin 5))
        (ValueError ''RISK_PER_TRADE_PCT'')) (\<lambda>_.
     bindE (check (fle (Fin 0) (cfg_min_retrace_pct cfg) \<and> fle (cfg_min_retrace_pct cfg) (Fin 20))
        (ValueError ''MIN_RETRACE_PCT'')) (\<lambda>_.
     bindE (check (flt (Fin 0) (max_spread_bps cfg) \<and> fle (max_spread_bps cfg) (Fin 10000))
        (ValueError ''MAX_SPREAD_BPS'')) (\<lambda>_.
     bindE (check (flt (Fin 0) (max_liquidity_impact_bps cfg) \<and> fle (max_liquidity_impact_bps cfg) (Fin 10000))
        (ValueError ''MAX_LIQUIDITY_IMPACT_BPS'')) (\<lambda>_.
     bindE (check (fle (Fin 1) (liquidity_depth_multiplier cfg) \<and> fle (liquidity_depth_multiplier cfg) (Fin 10))
        (ValueError ''LIQUIDITY_DEPTH_MULTIPLIER'')) (\<lambda>_.
     bindE (check (\<not> early_momentum_rearm_cooldown_seconds cfg < 0)
        (ValueError ''EARLY_MOMENTUM_REARM_COOLDOWN_SECONDS'')) (\<lambda>_.
     bindE (check (flt (Fin 0) (identity_snapshot_max_age_hours cfg) \<and>
                   fle (identity_snapshot_max_age_hours cfg) (Fin 8760))
        (ValueError ''IDENTITY_SNAPSHOT_MAX_AGE_HOURS'')) (\<lambda>_.
     bindE (check (\<not> fle (market_refresh_interval_seconds cfg) (Fin 0))
        (ValueError ''MARKET_REFRESH_INTERVAL_SECONDS'')) (\<lambda>_.
     bindE (check (\<not> flt (market_refresh_min_interval_seconds cfg) (Fin 0))
        (ValueError ''MARKET_REFRESH_MIN_INTERVAL_SECONDS'')) (\<lambda>_.
     check (\<not> early_momentum_health_alert_cooldown_seconds cfg \<le> 0)
        (ValueError ''EARLY_MOMENTUM_HEALTH_ALERT_COOLDOWN_SECONDS'')))))))))))))"

definition config_post_init :: "config \<Rightarrow> unit res" where
  "config_post_init cfg =
     bindE (check (\<not> (auto_trade cfg \<and> dry_run cfg))
        (ValueError ''AUTO_TRADE and DRY_RUN are mutually exclusive'')) (\<lambda>_.
     bindE (check (\<not> (auto_trade cfg \<and> \<not> present (db_url cfg)))
        (ValueError ''DATABASE_URL is required when AUTO_TRADE=true'')) (\<lambda>_.
     bindE (check (\<not> (auto_trade cfg \<and> \<not> require_market_quality cfg))
        (ValueError ''REQUIRE_MARKET_QUALITY must be true when AUTO_TRADE=true'')) (\<lambda>_.
     bindE (check (\<not> (auto_trade cfg \<and> pump_short_mode cfg \<noteq> None))
        (ValueError ''PUMP_SHORT_MODE cannot be set while AUTO_TRADE=true'')) (\<lambda>_.
     bindE (check (flt (Fin 0) (entry_min_pct cfg) \<and> fle (entry_min_pct cfg) (Fin 5000))
        (ValueError ''PUMP_ENTRY_MIN_PCT'')) (\<lambda>_.
     bindE (check (strip (measurement_strategy_version cfg) \<noteq> [])
        (ValueError ''MEASUREMENT_STRATEGY_VERSION must not be empty'')) (\<lambda>_.
     bindE (validate_trading_modes cfg) (\<lambda>_.
     if \<not> auto_trade cfg \<and> \<not> dry_run cfg then Inr () else validate_limits cfg)))))))"

subsection \<open>Intents and results\<close>

record intent =
  in_strategy_name :: string
  in_strategy_version :: string
  in_base :: string
  in_exchange :: string
  in_side :: string
  in_size_usd :: pyfloat
  in_leverage :: int
  in_score :: int
  in_idempotency_key :: string
  in_price :: "pyfloat option"
  in_exit_params :: "(string \<times> pyfloat) list option"
  in_claim :: "(string \<times> string) option"

definition intent_post_init :: "intent \<Rightarrow> intent res" where
  "intent_post_init i =
     bindE (check (in_side i \<in> {''long'', ''short''}) (ValueError ''side must be long or short'')) (\<lambda>_.
     bindE (check (isfinite (in_size_usd i) \<and> \<not> fle (in_size_usd i) (Fin 0))
        (ValueError ''size_usd must be finite and positive'')) (\<lambda>_.
     bindE (check (\<not> in_leverage i < 1) (ValueError ''leverage must be >= 1'')) (\<lambda>_.
     bindE (check (case in_price i of None \<Rightarrow> True | Some p \<Rightarrow> isfinite p \<and> \<not> fle p (Fin 0))
        (ValueError ''price must be finite and positive when given'')) (\<lambda>_.
     bindE (check (in_idempotency_key i \<noteq> []) (ValueError ''idempotency_key must not be empty'')) (\<lambda>_.
     bindE (check (in_strategy_name i \<noteq> [] \<and> in_strategy_version i \<noteq> [])
        (ValueError ''strategy name and version must not be empty'')) (\<lambda>_. Inr i))))))"

datatype execution_status = REJECTED | SHADOW_RECORDED | PAPER_OPENED

record execution_result =
  res_mode :: trading_mode
  res_status :: execution_status
  res_reason :: string
  res_trade_id :: "int option"
  res_filled_price :: "pyfloat option"
  res_claim_valid :: bool

definition committed :: "execution_result \<Rightarrow> bool" where
  "committed r \<longleftrightarrow> res_status r \<noteq> REJECTED"

definition rejected :: "trading_mode \<Rightarrow> string \<Rightarrow> bool \<Rightarrow> execution_result" where
  "rejected m why valid =
     \<lparr>res_mode = m, res_status = REJECTED, res_reason = why, res_trade_id = None,
      res_filled_price = None, res_claim_valid = valid\<rparr>"

subsection \<open>Brokers\<close>

text \<open>The operations on other components a broker performs, and what they answer.\<close>

datatype broker_effect =
    Open_paper
  | Open_paper_for_episode string string string
  | Ensure_strategy string string
  | Write_decision string int

record broker_env =
  be_open_paper :: "intent \<Rightarrow> int option res"
  be_open_paper_for_episode :: "intent \<Rightarrow> (int option \<times> bool) res"
  be_ensure_strategy :: "string \<Rightarrow> string \<Rightarrow> int option"
  be_write_decision :: "string \<Rightarrow> unit res"
  be_uuid5 :: "string \<Rightarrow> string"

datatype broker = DisabledBroker | PaperBroker | ShadowBroker

definition shadow_decision_id :: "broker_env \<Rightarrow> intent \<Rightarrow> string" where
  "shadow_decision_id env i =
     be_uuid5 env (in_strategy_name i @ '':'' @ in_strategy_version i @ '':'' @ in_idempotency_key i)"

definition gate_closed_reason :: string where
  "gate_closed_reason = ''worker readiness gate closed''"

definition paper_open ::
  "broker_env \<Rightarrow> config \<Rightarrow> gate \<Rightarrow> intent \<Rightarrow> broker_effect list \<times> execution_result res" where
  "paper_open env cfg g i =
     (if \<not> fst (is_open g) then ([], Inr (rejected PAPER gate_closed_reason True))
      else if in_price i = None then ([], Inr (rejected PAPER ''paper broker requires a resolved price'' True))
      else case in_claim i of
        Some (episode, token) \<Rightarrow>
          if in_exit_params i = None
          then ([], Inr (rejected PAPER ''episode intent requires exit_params'' True))
          else if \<not> present (db_url cfg)
          then ([], Inr (rejected PAPER ''episode path requires cfg.db_url'' True))
          else ([Open_paper_for_episode episode token (in_idempotency_key i)],
                bindE (be_open_paper_for_episode env i) (\<lambda>(tid, valid).
                  Inr (if tid = None
                       then rejected PAPER (if \<not> valid then ''episode claim invalid (reclaimed/expired)''
                                            else ''idempotency-key collision'') valid
                       else \<lparr>res_mode = PAPER, res_status = PAPER_OPENED, res_reason = [],
                             res_trade_id = tid, res_filled_price = in_price i, res_claim_valid = True\<rparr>)))
      | None \<Rightarrow>
          ([Open_paper],
           bindE (be_open_paper env i) (\<lambda>tid.
             Inr \<lparr>res_mode = PAPER, res_status = PAPER_OPENED, res_reason = [],
                  res_trade_id = tid, res_filled_price = in_price i, res_claim_valid = True\<rparr>)))"

definition shadow_open ::
  "broker_env \<Rightarrow> config \<Rightarrow> gate \<Rightarrow> intent \<Rightarrow> broker_effect list \<times> execution_result res" where
  "shadow_open env cfg g i =
     (if \<not> fst (is_open g) then ([], Inr (rejected SHADOW gate_closed_reason True))
      else if in_price i = None then ([], Inr (rejected SHADOW ''shadow broker requires a resolved price'' True))
      else if \<not> present (db_url cfg) then ([], Inr (rejected SHADOW ''shadow broker requires cfg.db_url'' True))
      else
        (let ensure = Ensure_strategy (in_strategy_name i) (in_strategy_version i) in
         case be_ensure_strategy env (in_strategy_name i) (in_strategy_version i) of
           None \<Rightarrow> ([ensure], Inr (rejected SHADOW ''shadow broker: failed to register strategy identity'' True))
         | Some sid \<Rightarrow>
             ([ensure, Write_decision (shadow_decision_id env i) sid],
              bindE (be_write_decision env (shadow_decision_id env i)) (\<lambda>_.
                Inr \<lparr>res_mode = SHADOW, res_status = SHADOW_RECORDED, res_reason = [],
                     res_trade_id = None, res_filled_price = None, res_claim_valid = True\<rparr>))))"

definition broker_open ::
  "broker \<Rightarrow> broker_env \<Rightarrow> config \<Rightarrow> gate \<Rightarrow> intent \<Rightarrow> broker_effect list \<times> execution_result res" where
  "broker_open b env cfg g i =
     (case b of
        DisabledBroker \<Rightarrow> ([], Inr (rejected DISABLED ''strategy disabled'' True))
      | PaperBroker \<Rightarrow> paper_open env cfg g i
      | ShadowBroker \<Rightarrow> shadow_open env cfg g i)"

definition build_broker :: "trading_mode \<Rightarrow> bool \<Rightarrow> broker res" where
  "build_broker m has_gate =
     (case m of
        PAPER \<Rightarrow> if has_gate then Inr PaperBroker
                 else Inl (ValueError ''TradingMode.PAPER requires a worker readiness gate'')
      | DISABLED \<Rightarrow> Inr DisabledBroker
      | SHADOW \<Rightarrow> if has_gate then Inr ShadowBroker
                  else Inl (ValueError ''TradingMode.SHADOW requires a worker readiness gate'')
      | _ \<Rightarrow> Inl (NotImplementedError ''no broker implementation yet''))"

subsection \<open>The mode ladder\<close>

lemma resolve_mode_Inr:
  assumes "resolve_mode cfg s = Inr m"
  shows "ladder m \<le> ladder (mode_ceiling cfg) \<and> ladder m \<le> ladder PAPER \<and>
         (m = SHADOW \<longrightarrow> s \<noteq> STRATEGY_PUMP_SHORT)"
proof -
  obtain ov where ov: "mode_override cfg s = Inr ov"
    using assms by (auto simp: resolve_mode_def bindE_eq_Inr)
  show ?thesis
  proof (cases ov)
    case None
    then have "m = (if ladder PAPER \<le> ladder (mode_ceiling cfg) then PAPER else mode_ceiling cfg)"
      using assms ov by (simp add: resolve_mode_def Let_def)
    then show ?thesis by (cases "mode_ceiling cfg") (auto simp: mode_ceiling_def split: if_splits)
  next
    case (Some o')
    then have "m = o'" "ladder m \<le> ladder (mode_ceiling cfg)" "\<not> unimplemented_mode m"
      "\<not> (m = SHADOW \<and> s = STRATEGY_PUMP_SHORT)"
      using assms ov by (auto simp: resolve_mode_def Let_def bindE_eq_Inr)
    then show ?thesis by (cases m) (auto simp: unimplemented_mode_def)
  qed
qed

lemma build_broker_total: "ladder m \<le> ladder PAPER \<Longrightarrow> \<exists>b. build_broker m True = Inr b"
  by (cases m) (simp_all add: build_broker_def)

text \<open>
  C5. A configuration that passes startup validation never yields a live broker: each of the three
  strategies resolves to a mode, the mode is at most what AUTO_TRADE and DRY_RUN allow and at most
  paper, pump_short never runs in shadow, and the broker for it exists.
\<close>

theorem validated_config_has_safe_brokers:
  assumes "config_post_init cfg = Inr ()"
    and "s \<in> {STRATEGY_PUMP_SHORT, STRATEGY_EARLY_MOMENTUM, STRATEGY_LIQUIDATION_CASCADE}"
  shows "\<exists>m b. resolve_mode cfg s = Inr m \<and> build_broker m True = Inr b \<and>
           ladder m \<le> ladder (mode_ceiling cfg) \<and> ladder m \<le> ladder PAPER \<and>
           (s = STRATEGY_PUMP_SHORT \<longrightarrow> b \<noteq> ShadowBroker)"
proof -
  have "\<forall>x \<in> {STRATEGY_PUMP_SHORT, STRATEGY_EARLY_MOMENTUM, STRATEGY_LIQUIDATION_CASCADE}.
          \<exists>m. resolve_mode cfg x = Inr m"
    using assms(1) by (auto simp: config_post_init_def validate_trading_modes_def bindE_eq_Inr)
  then obtain m where m: "resolve_mode cfg s = Inr m" using assms(2) by blast
  note r = resolve_mode_Inr[OF m]
  obtain b where b: "build_broker m True = Inr b" using r build_broker_total by blast
  have "b = ShadowBroker \<Longrightarrow> m = SHADOW" using b by (cases m) (auto simp: build_broker_def)
  then show ?thesis using m b r by blast
qed

definition sample_config :: config where
  "sample_config = load_config (\<lambda>_. None)"

theorem validated_config_has_safe_brokers_witness:
  "config_post_init sample_config = Inr () \<and>
   (\<exists>m b. resolve_mode sample_config STRATEGY_PUMP_SHORT = Inr m \<and> build_broker m True = Inr b \<and>
          ladder m \<le> ladder PAPER)"
proof -
  have c: "config_post_init sample_config = Inr ()"
    by (simp add: config_post_init_def sample_config_def load_config_def env_bool_def env_int_def
        env_float_def env_text_def env_default_def validate_trading_modes_def resolve_mode_def
        mode_override_def strategy_names strip_def is_space_def mode_ceiling_def Let_def)
  show ?thesis
    using validated_config_has_safe_brokers[OF c, of STRATEGY_PUMP_SHORT] c by auto
qed

subsection \<open>The brokers\<close>

definition opens_position :: "broker_effect \<Rightarrow> bool" where
  "opens_position e \<longleftrightarrow> (case e of Open_paper \<Rightarrow> True | Open_paper_for_episode _ _ _ \<Rightarrow> True | _ \<Rightarrow> False)"

text \<open>
  The contract of every broker: nothing outside is touched unless the readiness gate is open and
  the intent carries a price; at most one position is opened, by the paper broker only; a rejected
  result always says why, and a committed one is backed by an effect.
\<close>

theorem broker_contract:
  assumes "broker_open b env cfg g i = (effects, out)"
  shows "(effects \<noteq> [] \<longrightarrow> fst (is_open g) \<and> in_price i \<noteq> None \<and> b \<noteq> DisabledBroker) \<and>
         length (filter opens_position effects) \<le> 1 \<and>
         (list_ex opens_position effects \<longrightarrow> b = PaperBroker) \<and>
         (out = Inr r \<longrightarrow>
            (res_status r = REJECTED \<longleftrightarrow> res_reason r \<noteq> []) \<and>
            (committed r \<longrightarrow> effects \<noteq> []) \<and>
            (res_status r = PAPER_OPENED \<longrightarrow> list_ex opens_position effects) \<and>
            (res_status r = SHADOW_RECORDED \<longrightarrow> \<not> list_ex opens_position effects))"
proof (cases b)
  case DisabledBroker
  then show ?thesis using assms by (auto simp: broker_open_def rejected_def committed_def)
next
  case PaperBroker
  then show ?thesis
    using assms
    by (auto simp: broker_open_def paper_open_def rejected_def committed_def opens_position_def
        gate_closed_reason_def bindE_eq_Inr split: if_splits option.splits)
next
  case ShadowBroker
  then show ?thesis
    using assms
    by (auto simp: broker_open_def shadow_open_def rejected_def committed_def opens_position_def
        gate_closed_reason_def Let_def bindE_eq_Inr split: if_splits option.splits)
qed

definition sample_intent :: intent where
  "sample_intent =
     \<lparr>in_strategy_name = ''pump_short'', in_strategy_version = ''v1'', in_base = ''ABC'',
      in_exchange = ''bybit'', in_side = ''short'', in_size_usd = Fin 50, in_leverage = 3, in_score = 7,
      in_idempotency_key = ''k'', in_price = Some (Fin 2), in_exit_params = None, in_claim = None\<rparr>"

definition sample_broker_env :: broker_env where
  "sample_broker_env =
     \<lparr>be_open_paper = (\<lambda>_. Inr (Some 1)), be_open_paper_for_episode = (\<lambda>_. Inr (None, False)),
      be_ensure_strategy = (\<lambda>_ _. Some 4), be_write_decision = (\<lambda>_. Inr ()), be_uuid5 = (\<lambda>s. s)\<rparr>"

theorem broker_contract_witness:
  "broker_open PaperBroker sample_broker_env sample_config (gate_init {}) sample_intent =
     ([Open_paper], Inr \<lparr>res_mode = PAPER, res_status = PAPER_OPENED, res_reason = [],
        res_trade_id = Some 1, res_filled_price = Some (Fin 2), res_claim_valid = True\<rparr>) \<and>
   fst (is_open (gate_init {}))"
proof -
  have b: "broker_open PaperBroker sample_broker_env sample_config (gate_init {}) sample_intent =
     ([Open_paper], Inr \<lparr>res_mode = PAPER, res_status = PAPER_OPENED, res_reason = [],
        res_trade_id = Some 1, res_filled_price = Some (Fin 2), res_claim_valid = True\<rparr>)"
    by (simp add: broker_open_def paper_open_def is_open_def gate_init_def sample_intent_def
        sample_broker_env_def)
  show ?thesis using broker_contract[OF b] b by blast
qed

subsection \<open>Limits that are not numbers\<close>

text \<open>
  The daily loss limit is read with \<open>float\<close>, which accepts the word for NaN, and no check of the
  validation looks at it: a service started with it runs without its daily loss limit, since every
  comparison with NaN is false.
\<close>

lemma nan_daily_loss_limit:
  assumes "env ''DAILY_LOSS_LIMIT_USD'' = Some ''nan''"
  shows "daily_loss_limit_usd (load_config env) = NaN"
    and "config_post_init (cfg\<lparr>daily_loss_limit_usd := NaN\<rparr>) = config_post_init cfg"
    and "allowed (check_daily_loss pnl NaN)"
proof -
  have "parse_number ''nan'' = Some NotANumber" by code_simp
  then show "daily_loss_limit_usd (load_config env) = NaN"
    using assms by (simp add: load_config_def env_float_def env_text_def float_of_number_def)
  show "config_post_init (cfg\<lparr>daily_loss_limit_usd := NaN\<rparr>) = config_post_init cfg"
    by (simp add: config_post_init_def validate_trading_modes_def resolve_mode_def mode_override_def
        mode_ceiling_def validate_limits_def Let_def)
  show "allowed (check_daily_loss pnl NaN)" by (simp add: check_daily_loss_def)
qed

end
