(* ===== verification/Probe_Loss.thy ===== *)
theory Probe_Loss
  imports Py_Num
begin

text \<open>
  The loss threshold of the live probe (\<open>probe_loss.py\<close>): the probe's loss at a mark price, the
  reserve of an entry, and admission under the threshold. All amounts are finite decimals with 28
  significant digits; every operation rounds. Instants are microseconds.
\<close>

definition MARK_MAX_AGE :: int where
  "MARK_MAX_AGE = 60000000"

definition side_sign :: "string \<Rightarrow> decimal res" where
  "side_sign side =
     (if side = ''long'' then Inr 1
      else if side = ''short'' then Inr (- 1)
      else Inl (ValueError ''unknown side''))"

record fill =
  f_quantity :: decimal
  f_price :: decimal

definition entry_vwap :: "fill list \<Rightarrow> decimal res" where
  "entry_vwap fills =
     (let quantity = dsum (map f_quantity fills) in
      bindE (check (\<not> quantity \<le> 0) (ValueError ''an open trade needs a positive entry quantity'')) (\<lambda>_.
        ddiv (dsum (map (\<lambda>f. dmul (f_quantity f) (f_price f)) fills)) quantity))"

definition realized_open_parts :: "string \<Rightarrow> decimal \<Rightarrow> fill list \<Rightarrow> decimal res" where
  "realized_open_parts side vwap exits =
     bindE (side_sign side) (\<lambda>sign.
       Inr (dmul sign (dsum (map (\<lambda>f. dmul (f_quantity f) (dsub (f_price f) vwap)) exits))))"

definition settlement_estimate :: "string \<Rightarrow> decimal \<Rightarrow> decimal \<Rightarrow> decimal \<Rightarrow> decimal res" where
  "settlement_estimate side quantity_held mark rate =
     bindE (side_sign side) (\<lambda>sign.
       let x = dmul (dmul (dmul sign quantity_held) mark) rate in Inr (if 0 < x then x else 0))"

record unlisted_settlement =
  us_at :: int
  us_rate :: "decimal option"
  us_quantity_held :: "decimal option"
  us_mark :: "decimal option"

definition unlisted_estimate :: "string \<Rightarrow> unlisted_settlement \<Rightarrow> decimal option res" where
  "unlisted_estimate side u =
     (case (us_rate u, us_quantity_held u, us_mark u) of
        (Some rate, Some q, Some m) \<Rightarrow> bindE (settlement_estimate side q m rate) (\<lambda>x. Inr (Some x))
      | _ \<Rightarrow> Inr None)"

record open_position =
  op_side :: string
  op_entry_vwap :: decimal
  op_open_qty :: decimal
  op_realized_open_parts :: decimal
  op_fees_paid_open :: decimal
  op_funding_paid_open :: decimal
  op_unlisted :: "unlisted_settlement list"

record loss =
  loss_amount :: decimal
  lower_bound :: bool
  unrealized_at_mark :: decimal
  funding_unlisted_estimate :: decimal
  exit_fee_estimate :: decimal
  unknown_settlements :: "int list"

definition reached :: "loss \<Rightarrow> decimal \<Rightarrow> bool" where
  "reached l threshold \<longleftrightarrow> threshold \<le> loss_amount l"

fun estimate_unlisted ::
  "string \<Rightarrow> decimal \<Rightarrow> int list \<Rightarrow> unlisted_settlement list \<Rightarrow> (decimal \<times> int list) res" where
  "estimate_unlisted side estimated unknown [] = Inr (estimated, unknown)"
| "estimate_unlisted side estimated unknown (u # us) =
     bindE (unlisted_estimate side u) (\<lambda>e.
       case e of
         None \<Rightarrow> estimate_unlisted side estimated (unknown @ [us_at u]) us
       | Some x \<Rightarrow> estimate_unlisted side (dadd estimated x) unknown us)"

text \<open>The loss formula, term by term from the left.\<close>

definition loss_formula ::
  "decimal \<Rightarrow> open_position \<Rightarrow> decimal \<Rightarrow> decimal \<Rightarrow> decimal \<Rightarrow> decimal" where
  "loss_formula realized_closed p unrealized estimated exit_fee =
     dadd (dadd (dadd (dadd (dsub (dsub (dneg realized_closed) (op_realized_open_parts p)) unrealized)
       (op_fees_paid_open p)) (op_funding_paid_open p)) estimated) exit_fee"

definition probe_loss ::
  "decimal \<Rightarrow> open_position option \<Rightarrow> decimal option \<Rightarrow> decimal option \<Rightarrow> loss res" where
  "probe_loss realized_closed position mark taker_rate =
     (case position of
        None \<Rightarrow> Inr \<lparr>loss_amount = dneg realized_closed, lower_bound = False, unrealized_at_mark = 0,
                     funding_unlisted_estimate = 0, exit_fee_estimate = 0, unknown_settlements = []\<rparr>
      | Some p \<Rightarrow>
          (case (mark, taker_rate) of
             (Some m, Some t) \<Rightarrow>
               bindE (check (\<not> op_open_qty p \<le> 0)
                  (ValueError ''an open probe position needs a positive open quantity'')) (\<lambda>_.
               bindE (check (\<not> t < 0) (ValueError ''a negative taker rate would understate the close'')) (\<lambda>_.
               bindE (side_sign (op_side p)) (\<lambda>sign.
               let unrealized = dmul (dmul sign (op_open_qty p)) (dsub m (op_entry_vwap p)) in
               bindE (estimate_unlisted (op_side p) 0 [] (op_unlisted p)) (\<lambda>(estimated, unknown).
               let exit_fee = dmul (dmul (op_open_qty p) m) t in
               Inr \<lparr>loss_amount = loss_formula realized_closed p unrealized estimated exit_fee,
                    lower_bound = True, unrealized_at_mark = unrealized,
                    funding_unlisted_estimate = estimated, exit_fee_estimate = exit_fee,
                    unknown_settlements = unknown\<rparr>))))
           | _ \<Rightarrow> Inl (ValueError ''an open probe position needs a fresh mark and the taker rate'')))"

definition mark_is_fresh :: "int \<Rightarrow> int \<Rightarrow> bool" where
  "mark_is_fresh read_at now \<longleftrightarrow> 0 \<le> now - read_at \<and> now - read_at \<le> MARK_MAX_AGE"

text \<open>The quotient of two time spans is a float.\<close>

definition settlements_in_max_hold :: "int \<Rightarrow> int \<Rightarrow> int res" where
  "settlements_in_max_hold max_hold interval =
     bindE (check (\<not> (max_hold \<le> 0 \<or> interval \<le> 0))
        (ValueError ''the maximum hold and the funding interval must be positive'')) (\<lambda>_.
       Inr (\<lceil>b64 (of_int max_hold / of_int interval)\<rceil> + 1))"

record reserve_inputs =
  ri_initial_sl_pct :: decimal
  ri_taker_rate :: decimal
  ri_funding_rate :: decimal
  ri_settlements_in_max_hold :: int

definition entry_reserve :: "decimal \<Rightarrow> reserve_inputs \<Rightarrow> decimal res" where
  "entry_reserve notional i =
     bindE (check (\<not> (notional \<le> 0 \<or> ri_initial_sl_pct i \<le> 0))
        (ValueError ''an entry reserve needs a positive notional and stop distance'')) (\<lambda>_.
     bindE (check (\<not> (ri_taker_rate i < 0 \<or> ri_settlements_in_max_hold i < 1))
        (ValueError ''an entry reserve needs a taker rate and at least one settlement'')) (\<lambda>_.
     bindE (ddiv (ri_initial_sl_pct i) 100) (\<lambda>sl.
       Inr (dadd (dmul notional (dadd sl (dmul 2 (ri_taker_rate i))))
              (dmul (dmul notional (dabs (ri_funding_rate i))) (of_int (ri_settlements_in_max_hold i)))))))"

definition admits :: "decimal \<Rightarrow> decimal \<Rightarrow> decimal \<Rightarrow> decimal \<Rightarrow> bool" where
  "admits realized_closed reserved_open reserve threshold \<longleftrightarrow>
     dadd (dadd (dneg realized_closed) reserved_open) reserve \<le> threshold"

subsection \<open>The loss is a lower bound\<close>

lemmas decimal_ops = dadd_def dsub_def dmul_def dneg_def dabs_def

lemma dadd_mono: "x \<le> x' \<Longrightarrow> y \<le> y' \<Longrightarrow> dadd x y \<le> dadd x' y'"
  by (simp add: dadd_def dec28.mono)

lemma dsub_mono: "x \<le> x' \<Longrightarrow> y' \<le> y \<Longrightarrow> dsub x y \<le> dsub x' y'"
  by (simp add: dsub_def dec28.mono)

lemma dmul_mono_nonneg: "0 \<le> x \<Longrightarrow> x \<le> x' \<Longrightarrow> 0 \<le> y \<Longrightarrow> y \<le> y' \<Longrightarrow> dmul x y \<le> dmul x' y'"
  by (simp add: dmul_def dec28.mono mult_mono)

lemma dmul_left_mono: "0 \<le> x \<Longrightarrow> y \<le> y' \<Longrightarrow> dmul x y \<le> dmul x y'"
  by (simp add: dmul_def dec28.mono mult_left_mono)

lemma dmul_left_antimono: "x \<le> 0 \<Longrightarrow> y \<le> y' \<Longrightarrow> dmul x y' \<le> dmul x y"
  by (simp add: dmul_def dec28.mono mult_left_mono_neg)

lemma dmul_nonneg: "0 \<le> x \<Longrightarrow> 0 \<le> y \<Longrightarrow> 0 \<le> dmul x y"
  by (simp add: dmul_def dec28.nonneg)

lemma settlement_estimate_nonneg: "settlement_estimate side q m r = Inr x \<Longrightarrow> 0 \<le> x"
  by (auto simp: settlement_estimate_def bindE_eq_Inr Let_def split: if_splits)

lemma unlisted_estimate_nonneg: "unlisted_estimate side u = Inr (Some x) \<Longrightarrow> 0 \<le> x"
  by (auto simp: unlisted_estimate_def bindE_eq_Inr split: option.splits dest: settlement_estimate_nonneg)

text \<open>One settlement knows at least what another knows, for the same time.\<close>

definition better_known :: "unlisted_settlement \<Rightarrow> unlisted_settlement \<Rightarrow> bool" where
  "better_known u u' \<longleftrightarrow>
     (us_rate u = None \<or> us_rate u' = us_rate u) \<and>
     (us_quantity_held u = None \<or> us_quantity_held u' = us_quantity_held u) \<and>
     (us_mark u = None \<or> us_mark u' = us_mark u)"

lemma better_known_estimate:
  assumes "better_known u u'" "unlisted_estimate side u = Inr (Some x)"
  shows "unlisted_estimate side u' = Inr (Some x)"
  using assms by (auto simp: better_known_def unlisted_estimate_def split: option.splits)

lemma estimate_unlisted_mono:
  assumes "list_all2 better_known us us'" "a \<le> a'" "dec28 a = a"
    and "estimate_unlisted side a xs us = Inr (e, ys)" "estimate_unlisted side a' xs' us' = Inr (e', ys')"
  shows "e \<le> e'"
  using assms
proof (induction us us' arbitrary: a a' xs xs' rule: list_all2_induct)
  case Nil
  then show ?case by simp
next
  case (Cons u us u' us')
  obtain x where x: "unlisted_estimate side u = Inr x"
    using Cons.prems(3) by (auto simp: bindE_eq_Inr)
  obtain x' where x': "unlisted_estimate side u' = Inr x'"
    using Cons.prems(4) by (auto simp: bindE_eq_Inr)
  show ?case
  proof (cases x)
    case (Some y)
    then have "x' = Some y" using better_known_estimate[OF Cons.hyps(1)] x x' by fastforce
    then show ?thesis
      using Cons.IH[of "dadd a y" "dadd a' y"] Cons.prems x x' Some by (simp add: dadd_mono)
  next
    case None
    show ?thesis
    proof (cases x')
      case None
      then show ?thesis using Cons.IH[of a a'] Cons.prems x x' \<open>x = None\<close> by simp
    next
      case (Some y)
      have "0 \<le> y" using unlisted_estimate_nonneg x' Some by blast
      then have "dec28 a \<le> dec28 (a' + y)" using Cons.prems(1) by (intro dec28.mono) simp
      then have "a \<le> dadd a' y" using Cons.prems(2) by (simp add: dadd_def)
      then show ?thesis using Cons.IH[of a "dadd a' y"] Cons.prems x x' \<open>x = None\<close> Some by simp
    qed
  qed
qed

text \<open>
  The loss of an open probe is a lower bound that knowledge can only raise: at the same mark and
  fee rate, reading the missing rate, quantity or mark of an unlisted settlement never lowers the
  loss, so a threshold reached before is still reached.
\<close>

theorem loss_only_grows_with_knowledge:
  assumes "probe_loss rc (Some p) (Some m) (Some t) = Inr l"
    and "probe_loss rc (Some (p\<lparr>op_unlisted := us'\<rparr>)) (Some m) (Some t) = Inr l'"
    and "list_all2 better_known (op_unlisted p) us'"
  shows "loss_amount l \<le> loss_amount l' \<and> (reached l threshold \<longrightarrow> reached l' threshold)"
proof -
  obtain sign e ys where s: "side_sign (op_side p) = Inr sign"
    and e: "estimate_unlisted (op_side p) 0 [] (op_unlisted p) = Inr (e, ys)"
    and l: "loss_amount l = loss_formula rc p (dmul (dmul sign (op_open_qty p)) (dsub m (op_entry_vwap p))) e
                              (dmul (dmul (op_open_qty p) m) t)"
    using assms(1) by (auto simp: probe_loss_def bindE_eq_Inr Let_def)
  obtain e' ys' where e': "estimate_unlisted (op_side p) 0 [] us' = Inr (e', ys')"
    and l': "loss_amount l' = loss_formula rc p (dmul (dmul sign (op_open_qty p)) (dsub m (op_entry_vwap p))) e'
                              (dmul (dmul (op_open_qty p) m) t)"
    using assms(2) s by (auto simp: probe_loss_def bindE_eq_Inr Let_def loss_formula_def)
  have "e \<le> e'" by (rule estimate_unlisted_mono[OF assms(3) _ _ e e']) simp_all
  then have "loss_amount l \<le> loss_amount l'"
    unfolding l l' loss_formula_def by (intro dadd_mono order_refl)
  then show ?thesis by (auto simp: reached_def)
qed

definition sample_open_position :: open_position where
  "sample_open_position =
     \<lparr>op_side = ''long'', op_entry_vwap = 10, op_open_qty = 4, op_realized_open_parts = 0,
      op_fees_paid_open = 1, op_funding_paid_open = 0,
      op_unlisted = [\<lparr>us_at = 0, us_rate = Some (1 / 100), us_quantity_held = Some 4, us_mark = None\<rparr>]\<rparr>"

lemmas probe_defs =
  probe_loss_def side_sign_def unlisted_estimate_def settlement_estimate_def loss_formula_def

theorem loss_only_grows_with_knowledge_witness:
  "\<exists>l l'. probe_loss 0 (Some sample_open_position) (Some 8) (Some 0) = Inr l \<and>
     probe_loss 0 (Some (sample_open_position\<lparr>op_unlisted :=
       [\<lparr>us_at = 0, us_rate = Some (1 / 100), us_quantity_held = Some 4, us_mark = Some 10\<rparr>]\<rparr>))
       (Some 8) (Some 0) = Inr l' \<and>
     loss_amount l = 9 \<and> loss_amount l \<le> loss_amount l'"
proof -
  obtain l where l: "probe_loss 0 (Some sample_open_position) (Some 8) (Some 0) = Inr l" "loss_amount l = 9"
    by (simp add: probe_defs sample_open_position_def decimal_ops)
  obtain l' where l': "probe_loss 0 (Some (sample_open_position\<lparr>op_unlisted :=
       [\<lparr>us_at = 0, us_rate = Some (1 / 100), us_quantity_held = Some 4, us_mark = Some 10\<rparr>]\<rparr>))
       (Some 8) (Some 0) = Inr l'"
    by (simp add: probe_defs sample_open_position_def Let_def)
  have "loss_amount l \<le> loss_amount l'"
    using loss_only_grows_with_knowledge[OF l(1) l']
    by (simp add: sample_open_position_def better_known_def)
  then show ?thesis using l l' by blast
qed

subsection \<open>The entry reserve\<close>

text \<open>
  The reserve grows with everything that can cost money, and admission shrinks with it: a larger
  notional, stop distance, taker rate, funding rate in absolute value or number of settlements never
  lowers the reserve, so an entry refused under the threshold is also refused at higher costs.
\<close>

theorem reserve_monotone:
  assumes "entry_reserve notional i = Inr r" and "entry_reserve notional' i' = Inr r'"
    and "notional \<le> notional'" and "ri_initial_sl_pct i \<le> ri_initial_sl_pct i'"
    and "ri_taker_rate i \<le> ri_taker_rate i'" and "\<bar>ri_funding_rate i\<bar> \<le> \<bar>ri_funding_rate i'\<bar>"
    and "ri_settlements_in_max_hold i \<le> ri_settlements_in_max_hold i'"
  shows "r \<le> r' \<and> (admits rc ro r' threshold \<longrightarrow> admits rc ro r threshold)"
proof -
  have pos: "0 \<le> notional" "0 \<le> ri_initial_sl_pct i" "0 \<le> ri_taker_rate i" "1 \<le> ri_settlements_in_max_hold i"
    using assms(1) by (auto simp: entry_reserve_def bindE_eq_Inr)
  have r: "r = dadd (dmul notional (dadd (dec28 (ri_initial_sl_pct i / 100)) (dmul 2 (ri_taker_rate i))))
              (dmul (dmul notional (dabs (ri_funding_rate i))) (of_int (ri_settlements_in_max_hold i)))"
    using assms(1) by (auto simp: entry_reserve_def bindE_eq_Inr ddiv_def)
  have r': "r' = dadd (dmul notional' (dadd (dec28 (ri_initial_sl_pct i' / 100)) (dmul 2 (ri_taker_rate i'))))
              (dmul (dmul notional' (dabs (ri_funding_rate i'))) (of_int (ri_settlements_in_max_hold i')))"
    using assms(2) by (auto simp: entry_reserve_def bindE_eq_Inr ddiv_def)
  have sl: "dec28 (ri_initial_sl_pct i / 100) \<le> dec28 (ri_initial_sl_pct i' / 100)"
    using assms(4) by (intro dec28.mono) simp
  have "0 \<le> dec28 (ri_initial_sl_pct i / 100)" using pos by (intro dec28.nonneg) simp
  moreover have "0 \<le> dmul 2 (ri_taker_rate i)" using pos by (intro dmul_nonneg) simp_all
  ultimately have c: "0 \<le> dadd (dec28 (ri_initial_sl_pct i / 100)) (dmul 2 (ri_taker_rate i))"
    unfolding dadd_def by (intro dec28.nonneg) simp
  have f: "0 \<le> dabs (ri_funding_rate i)" "dabs (ri_funding_rate i) \<le> dabs (ri_funding_rate i')"
    unfolding dabs_def using assms(6) by (simp_all add: dec28.mono dec28.nonneg)
  have le: "r \<le> r'"
    unfolding r r' using pos assms(3,5,7) sl c f
    by (intro dadd_mono dmul_mono_nonneg dmul_nonneg dmul_left_mono) auto
  then have "dadd (dadd (dneg rc) ro) r \<le> dadd (dadd (dneg rc) ro) r'" by (intro dadd_mono order_refl)
  then show ?thesis using le by (auto simp: admits_def)
qed

theorem reserve_monotone_witness:
  "\<exists>r r'. entry_reserve 100 \<lparr>ri_initial_sl_pct = 10, ri_taker_rate = 0, ri_funding_rate = 0, ri_settlements_in_max_hold = 1\<rparr> = Inr r \<and>
     entry_reserve 100 \<lparr>ri_initial_sl_pct = 20, ri_taker_rate = 0, ri_funding_rate = - (1 / 100), ri_settlements_in_max_hold = 2\<rparr> = Inr r' \<and>
     r = 10 \<and> r \<le> r'"
proof -
  let ?i = "\<lparr>ri_initial_sl_pct = 10, ri_taker_rate = 0, ri_funding_rate = 0, ri_settlements_in_max_hold = 1\<rparr>"
  let ?i' = "\<lparr>ri_initial_sl_pct = 20, ri_taker_rate = 0, ri_funding_rate = - (1 / 100), ri_settlements_in_max_hold = 2\<rparr>"
  have r: "entry_reserve 100 ?i = Inr 10"
    by (simp add: entry_reserve_def ddiv_def decimal_ops)
  obtain r' where r': "entry_reserve 100 ?i' = Inr r'"
    by (simp add: entry_reserve_def ddiv_def)
  show ?thesis using reserve_monotone[OF r r'] r r' by auto
qed

lemma nonneg_div_shift: "0 < (i :: int) \<Longrightarrow> 0 \<le> x + k * i \<longleftrightarrow> - k \<le> x div i"
proof -
  assume i: "0 < i"
  have "0 \<le> x + k * i \<longleftrightarrow> 0 \<le> (x + k * i) div i" by (simp only: pos_imp_zdiv_nonneg_iff[OF i])
  also have "(x + k * i) div i = k + x div i" using i by simp
  finally show ?thesis by linarith
qed

lemma div_add_le: "0 < (i :: int) \<Longrightarrow> x div i + y div i \<le> (x + y) div i"
proof -
  assume i: "0 < i"
  have "0 \<le> (x mod i + y mod i) div i" using i by (simp add: pos_imp_zdiv_nonneg_iff)
  then show ?thesis using div_add1_eq[of x y i] by linarith
qed

lemma card_int_window:
  assumes i: "0 < (i :: int)" and m: "0 \<le> m"
  shows "int (card {k. a \<le> t + k * i \<and> t + k * i \<le> a + m}) \<le> m div i + 1"
proof -
  have lo: "a \<le> t + k * i \<longleftrightarrow> - ((t - a) div i) \<le> k" for k
    using nonneg_div_shift[OF i, of "t - a" k] by linarith
  have hi: "t + k * i \<le> a + m \<longleftrightarrow> k \<le> (a + m - t) div i" for k
    using nonneg_div_shift[OF i, of "a + m - t" "- k"] by (simp only: mult_minus_left minus_minus) linarith
  have set_eq: "{k. a \<le> t + k * i \<and> t + k * i \<le> a + m} = {- ((t - a) div i) .. (a + m - t) div i}"
    using lo hi by (auto simp only: atLeastAtMost_iff mem_Collect_eq)
  have "(a + m - t) div i + (t - a) div i \<le> m div i"
    using div_add_le[OF i, of "a + m - t" "t - a"] by simp
  moreover have "0 \<le> m div i" using i m by (simp only: pos_imp_zdiv_nonneg_iff)
  ultimately show ?thesis unfolding set_eq by simp
qed

text \<open>
  The count of settlements is enough: for a hold and a funding interval with a quotient below
  2^53, \<open>settlements_in_max_hold\<close> is at least the number of settlements, spaced by the interval, that
  any holding period of that length can contain, although the quotient is rounded to a float.
\<close>

theorem settlements_in_max_hold_covers:
  assumes "settlements_in_max_hold max_hold interval = Inr n" and "max_hold div interval \<le> 2 ^ 53"
  shows "int (card {k. start \<le> t + k * interval \<and> t + k * interval \<le> start + max_hold}) \<le> n"
proof -
  have pos: "0 < max_hold" "0 < interval"
    and n: "n = \<lceil>b64 (of_int max_hold / of_int interval)\<rceil> + 1"
    using assms(1) by (auto simp: settlements_in_max_hold_def bindE_eq_Inr)
  let ?q = "max_hold div interval"
  have "(of_int ?q :: rat) \<le> of_int max_hold / of_int interval"
    using floor_divide_of_int_eq[of max_hold interval, where 'a = rat] of_int_floor_le by metis
  then have "b64 (of_int ?q) \<le> b64 (of_int max_hold / of_int interval)" by (rule b64.mono)
  moreover have "b64 (of_int ?q) = of_int ?q"
    using assms(2) pos by (intro b64_int) (simp add: pos_imp_zdiv_nonneg_iff)
  ultimately have "?q \<le> \<lceil>b64 (of_int max_hold / of_int interval)\<rceil>" by (simp add: le_ceiling_iff)
  then show ?thesis using card_int_window[OF pos(2), of max_hold start t] pos n by linarith
qed

theorem settlements_in_max_hold_covers_witness:
  "\<exists>n. settlements_in_max_hold 21600 28800 = Inr n \<and>
       int (card {k. 0 \<le> 5 + k * 28800 \<and> 5 + k * 28800 \<le> 0 + (21600 :: int)}) \<le> n"
proof -
  obtain n where n: "settlements_in_max_hold 21600 28800 = Inr n" by (simp add: settlements_in_max_hold_def)
  show ?thesis using settlements_in_max_hold_covers[OF n, of 0 5] n by simp
qed

end
