(* ===== verification/Live_Costs.thy ===== *)
theory Live_Costs
  imports Order_Ids Py_Num "HOL-Library.AList" "HOL-Library.List_Lexorder" "HOL-Library.Char_ord"
    "HOL-Library.Product_Lexorder"
begin

text \<open>
  Fees and funding of a live trade from the exchange's executions (\<open>live_costs.py\<close>): ownership of
  execution rows by order, exact quantities, and matching of funding rows to settlements. Instants
  are microseconds; amounts are finite decimals, as \<open>_decimal\<close> guarantees for everything read from
  Bybit. A frozen set of ids is a list of ids read as a set; the raw row kept for audit and the text of
  an error message are left out, the reason of a stop is a constructor.
\<close>

definition BOUNDARY :: int where "BOUNDARY = 5000000"
definition SETTLE_DELAY :: int where "SETTLE_DELAY = 300000000"
definition FUNDING_ROW_MATCH :: int where "FUNDING_ROW_MATCH = 5000000"
definition NEIGHBOUR_MARGIN :: int where "NEIGHBOUR_MARGIN = 60000000"
definition WINDOW_MARGIN :: int where "WINDOW_MARGIN = 60000000"

text \<open>\<open>exec_type\<close> is "trade", "funding" or the lower-cased native type.\<close>

record execution =
  exec_id :: string
  exec_type :: string
  x_order_id :: "string option"
  x_order_link_id :: "string option"
  x_side :: "string option"
  x_quantity :: decimal
  x_price :: "decimal option"
  x_value :: "decimal option"
  x_fee :: decimal
  x_fee_currency :: "string option"
  executed_at :: int

record order_state =
  os_order_id :: string
  os_terminal :: bool
  os_filled :: "decimal option"

record trade_facts =
  tf_trade_id :: int
  tf_exchange :: string
  tf_native_market_id :: string
  tf_side :: string
  tf_entry_client_order_id :: string
  tf_entry_order_id :: "string option"
  tf_entry_filled :: decimal
  tf_contract_size :: "decimal option"
  tf_order_ids :: "string list"
  tf_client_order_ids :: "string list"
  tf_sent_at :: int
  tf_exit_at :: "int option"

record neighbours =
  nb_order_ids :: "string list"
  nb_client_order_ids :: "string list"
  nb_entry_client_order_ids :: "string list"
  nb_intervals :: "(int \<times> int option) list"

datatype leg = Leg int string execution

datatype cost_status = STATUS_COMPLETE | STATUS_PENDING | STATUS_INCOMPLETE | STATUS_UNPROVEN_TAIL

text \<open>\<open>_StopError\<close>: why the attribution ends without a result. The messages are constructors.\<close>

datatype stop_reason =
    Contract_size_not_1 | No_filled_quantity | No_entry_execution | Wrong_side string
  | Entry_listed decimal decimal | Exit_listed decimal decimal | No_order_id string
  | Order_not_read string | No_filled_amount string | Order_not_terminal string
  | Order_listed string decimal decimal | Unknown_order_inside string | Fee_currency string
  | Waiting_after_exit | No_settlement_published | Settlement_listed_late int | Published_to int int
  | Several_funding_rows int | Funding_not_listed int | Funding_quantity int decimal
  | Fill_next_to_settlement int | Other_owner int | Unmatched_funding string | No_value string
  | Already_closed | Fill_after_now | No_positive_price string | Open_executions_hold decimal decimal

datatype stop = Pending stop_reason | Incomplete stop_reason | Raised py_error

type_synonym 'a outcome = "stop + 'a"

record cost_result =
  c_status :: cost_status
  c_error :: "stop option"
  fees_usd :: "decimal option"
  funding_usd :: "decimal option"
  entry_value :: "decimal option"
  exit_value :: "decimal option"
  gross_pnl_usd :: "decimal option"
  legs :: "leg list"

definition net_pnl_usd :: "cost_result \<Rightarrow> decimal option" where
  "net_pnl_usd r =
     (case (gross_pnl_usd r, fees_usd r, funding_usd r) of
        (Some g, Some f, Some n) \<Rightarrow> Some (dsub (dsub g f) n)
      | _ \<Rightarrow> None)"

definition pct_of_entry :: "cost_result \<Rightarrow> decimal option \<Rightarrow> decimal option" where
  "pct_of_entry r amount =
     (case (amount, entry_value r) of
        (Some x, Some e) \<Rightarrow> if e = 0 then None else Some (dmul (dec28 (x / e)) 100)
      | _ \<Rightarrow> None)"

definition net_pnl_pct :: "cost_result \<Rightarrow> decimal option" where
  "net_pnl_pct r = pct_of_entry r (net_pnl_usd r)"

definition gross_pnl_pct :: "cost_result \<Rightarrow> decimal option" where
  "gross_pnl_pct r = pct_of_entry r (gross_pnl_usd r)"

definition exec_cost :: "execution \<Rightarrow> decimal" where
  "exec_cost x = x_fee x"

lemma exec_cost_eq: "exec_cost = x_fee"
  by (simp add: exec_cost_def fun_eq_iff)

definition entry_side :: "string \<Rightarrow> string" where
  "entry_side position_side = (if position_side = ''long'' then ''Buy'' else ''Sell'')"

definition exit_side :: "string \<Rightarrow> string" where
  "exit_side position_side = (if position_side = ''long'' then ''Sell'' else ''Buy'')"

definition sum_quantity :: "execution list \<Rightarrow> decimal" where
  "sum_quantity rows = dsum (map x_quantity rows)"

fun sum_value_from :: "decimal \<Rightarrow> execution list \<Rightarrow> decimal outcome" where
  "sum_value_from acc [] = Inr acc"
| "sum_value_from acc (x # xs) =
     (case x_value x of
        None \<Rightarrow> Inl (Incomplete (No_value (exec_id x)))
      | Some v \<Rightarrow> sum_value_from (dadd acc v) xs)"

definition sum_value :: "execution list \<Rightarrow> decimal outcome" where
  "sum_value rows = sum_value_from 0 rows"

subsection \<open>Ownership\<close>

definition truthy :: "string option \<Rightarrow> bool" where
  "truthy t \<longleftrightarrow> (case t of Some (c # cs) \<Rightarrow> True | _ \<Rightarrow> False)"

definition derived_link :: "string \<Rightarrow> string \<Rightarrow> bool" where
  "derived_link link entry \<longleftrightarrow>
     (startswith link (stop_prefix entry) \<or> startswith link (close_prefix entry)) \<and>
     str_isdigit (drop (length entry + 1) link)"

definition owned_by :: "execution \<Rightarrow> string list \<Rightarrow> string list \<Rightarrow> string list \<Rightarrow> bool" where
  "owned_by row known_order_ids known_client_order_ids entry_client_order_ids \<longleftrightarrow>
     (case x_order_id row of
        Some (c # cs) \<Rightarrow> (c # cs) \<in> set known_order_ids
      | _ \<Rightarrow> False) \<or>
     (case x_order_link_id row of
        Some (c # cs) \<Rightarrow>
          (c # cs) \<in> set known_client_order_ids \<or> (c # cs) \<in> set entry_client_order_ids \<or>
          list_ex (derived_link (c # cs)) entry_client_order_ids
      | _ \<Rightarrow> False)"

definition owned_by_trade :: "trade_facts \<Rightarrow> execution \<Rightarrow> bool" where
  "owned_by_trade facts row =
     owned_by row (tf_order_ids facts) (tf_client_order_ids facts) [tf_entry_client_order_id facts]"

definition owned_by_neighbour :: "neighbours \<Rightarrow> execution \<Rightarrow> bool" where
  "owned_by_neighbour nb row =
     owned_by row (nb_order_ids nb) (nb_client_order_ids nb) (nb_entry_client_order_ids nb)"

text \<open>The four lists of \<open>_partition\<close>: owned, others, unknown, odd. Funding rows are in none.\<close>

definition is_fill :: "execution \<Rightarrow> bool" where
  "is_fill x \<longleftrightarrow> exec_type x = ''trade''"

definition is_funding :: "execution \<Rightarrow> bool" where
  "is_funding x \<longleftrightarrow> exec_type x = ''funding''"

definition owned_rows :: "trade_facts \<Rightarrow> execution list \<Rightarrow> execution list" where
  "owned_rows facts xs = filter (\<lambda>x. is_fill x \<and> owned_by_trade facts x) xs"

definition other_rows :: "trade_facts \<Rightarrow> neighbours \<Rightarrow> execution list \<Rightarrow> execution list" where
  "other_rows facts nb xs = filter (\<lambda>x. is_fill x \<and> \<not> owned_by_trade facts x \<and> owned_by_neighbour nb x) xs"

definition unknown_rows :: "trade_facts \<Rightarrow> neighbours \<Rightarrow> execution list \<Rightarrow> execution list" where
  "unknown_rows facts nb xs =
     filter (\<lambda>x. is_fill x \<and> \<not> owned_by_trade facts x \<and> \<not> owned_by_neighbour nb x) xs"

definition odd_rows :: "execution list \<Rightarrow> execution list" where
  "odd_rows xs = filter (\<lambda>x. \<not> is_funding x \<and> \<not> is_fill x) xs"

definition is_entry :: "trade_facts \<Rightarrow> execution \<Rightarrow> bool" where
  "is_entry facts row \<longleftrightarrow>
     truthy (tf_entry_order_id facts) \<and> x_order_id row = tf_entry_order_id facts \<or>
     x_order_link_id row = Some (tf_entry_client_order_id facts)"

subsection \<open>Checks of the fills\<close>

definition check_sides :: "trade_facts \<Rightarrow> execution list \<Rightarrow> execution list \<Rightarrow> unit outcome" where
  "check_sides facts entry_rows exit_rows =
     bindE (forE (\<lambda>x. check (x_side x = Some (entry_side (tf_side facts))) (Incomplete (Wrong_side (exec_id x))))
              entry_rows) (\<lambda>_.
     forE (\<lambda>x. check (x_side x = Some (exit_side (tf_side facts))) (Incomplete (Wrong_side (exec_id x))))
       exit_rows)"

definition check_quantities ::
  "trade_facts \<Rightarrow> execution list \<Rightarrow> execution list \<Rightarrow> bool \<Rightarrow> unit outcome" where
  "check_quantities facts entry_rows exit_rows is_open_pos =
     (let entered = sum_quantity entry_rows; exited = sum_quantity exit_rows; filled = tf_entry_filled facts in
      bindE (check (\<not> entered < filled) (Pending (Entry_listed entered filled))) (\<lambda>_.
      bindE (check (\<not> filled < entered) (Incomplete (Entry_listed entered filled))) (\<lambda>_.
      bindE (check (\<not> filled < exited) (Incomplete (Exit_listed exited filled))) (\<lambda>_.
      check (is_open_pos \<or> \<not> exited < filled) (Pending (Exit_listed exited filled))))))"

text \<open>Rows listed per order id, in the order of first appearance.\<close>

fun listed_by_order ::
  "(string \<times> decimal) list \<Rightarrow> execution list \<Rightarrow> (string \<times> decimal) list outcome" where
  "listed_by_order d [] = Inr d"
| "listed_by_order d (x # xs) =
     (case x_order_id x of
        Some (c # cs) \<Rightarrow>
          listed_by_order
            (AList.update (c # cs)
               (dadd (case map_of d (c # cs) of None \<Rightarrow> 0 | Some q \<Rightarrow> q) (x_quantity x)) d) xs
      | _ \<Rightarrow> Inl (Incomplete (No_order_id (exec_id x))))"

definition check_order ::
  "trade_facts \<Rightarrow> (string \<times> decimal) list \<Rightarrow> (string \<Rightarrow> order_state option) \<Rightarrow> bool \<Rightarrow> string \<Rightarrow> unit outcome" where
  "check_order facts listed orders is_open_pos oid =
     (case orders oid of
        None \<Rightarrow> Inl (Pending (Order_not_read oid))
      | Some state \<Rightarrow>
          (let rows_quantity = (case map_of listed oid of None \<Rightarrow> 0 | Some q \<Rightarrow> q) in
           case os_filled state of
             None \<Rightarrow> Inl (Pending (No_filled_amount oid))
           | Some filled \<Rightarrow>
               if \<not> os_terminal state \<and> (\<not> is_open_pos \<or> Some oid = tf_entry_order_id facts)
               then check (rows_quantity = 0 \<and> filled = 0) (Pending (Order_not_terminal oid))
               else
                 bindE (check (\<not> rows_quantity < filled) (Pending (Order_listed oid rows_quantity filled))) (\<lambda>_.
                 check (\<not> filled < rows_quantity) (Incomplete (Order_listed oid rows_quantity filled)))))"

definition check_orders ::
  "trade_facts \<Rightarrow> execution list \<Rightarrow> (string \<Rightarrow> order_state option) \<Rightarrow> bool \<Rightarrow> unit outcome" where
  "check_orders facts owned orders is_open_pos =
     bindE (listed_by_order [] owned) (\<lambda>listed.
       forE (check_order facts listed orders is_open_pos)
         (sorted_list_of_set (fst ` set listed \<union> set (tf_order_ids facts))))"

definition usdt_or_absent :: "string option \<Rightarrow> bool" where
  "usdt_or_absent c \<longleftrightarrow> c \<in> {None, Some '''', Some ''USDT''}"

text \<open>
  \<open>max(row.executed_at for row in exit_rows)\<close> raises on no exit; the checks before it exclude that.
\<close>

definition last_exit_of :: "bool \<Rightarrow> int \<Rightarrow> execution list \<Rightarrow> int outcome" where
  "last_exit_of is_open_pos now exit_rows =
     (if is_open_pos then Inr now
      else case map executed_at exit_rows of
        [] \<Rightarrow> Inl (Raised (ValueError ''max() arg is an empty sequence''))
      | t # ts \<Rightarrow> Inr (list_max t ts))"

definition first_entry_of :: "execution list \<Rightarrow> int outcome" where
  "first_entry_of entry_rows =
     (case map executed_at entry_rows of
        [] \<Rightarrow> Inl (Raised (ValueError ''min() arg is an empty sequence''))
      | t # ts \<Rightarrow> Inr (list_min t ts))"

record fills =
  fl_entry :: "execution list"
  fl_exit :: "execution list"
  fl_others :: "execution list"
  fl_unknown :: "execution list"

definition checked_fills ::
  "trade_facts \<Rightarrow> execution list \<Rightarrow> (string \<Rightarrow> order_state option) \<Rightarrow> neighbours \<Rightarrow> int \<Rightarrow> bool \<Rightarrow> fills outcome" where
  "checked_fills facts executions orders nb now is_open_pos =
     bindE (check (tf_contract_size facts \<in> {None, Some 1}) (Incomplete Contract_size_not_1)) (\<lambda>_.
     bindE (check (\<not> tf_entry_filled facts \<le> 0) (Incomplete No_filled_quantity)) (\<lambda>_.
     let owned = owned_rows facts executions;
         entry_rows = filter (is_entry facts) owned;
         exit_rows = filter (\<lambda>x. \<not> is_entry facts x) owned;
         unknown = unknown_rows facts nb executions
     in
     bindE (check (entry_rows \<noteq> []) (Pending No_entry_execution)) (\<lambda>_.
     bindE (check_sides facts entry_rows exit_rows) (\<lambda>_.
     bindE (check_quantities facts entry_rows exit_rows is_open_pos) (\<lambda>_.
     bindE (check_orders facts owned orders is_open_pos) (\<lambda>_.
     bindE (first_entry_of entry_rows) (\<lambda>first_entry.
     bindE (last_exit_of is_open_pos now exit_rows) (\<lambda>last_exit.
     bindE (forE (\<lambda>x. check (\<not> (first_entry \<le> executed_at x \<and> executed_at x \<le> last_exit))
                        (Incomplete (Unknown_order_inside (exec_id x)))) (unknown @ odd_rows executions)) (\<lambda>_.
     bindE (forE (\<lambda>x. check (usdt_or_absent (x_fee_currency x)) (Incomplete (Fee_currency (exec_id x)))) owned) (\<lambda>_.
     Inr \<lparr>fl_entry = entry_rows, fl_exit = exit_rows, fl_others = other_rows facts nb executions,
          fl_unknown = unknown\<rparr>))))))))))"

subsection \<open>Funding\<close>

definition check_published :: "int option \<Rightarrow> int list \<Rightarrow> int \<Rightarrow> int \<Rightarrow> unit outcome" where
  "check_published published_to settlements start stop_at =
     (case published_to of
        None \<Rightarrow> Inl (Pending No_settlement_published)
      | Some p \<Rightarrow>
          bindE (check (\<not> (start \<le> p \<and> p \<le> stop_at \<and> p \<notin> set settlements)) (Pending (Settlement_listed_late p))) (\<lambda>_.
          check (\<not> p < stop_at) (Pending (Published_to p stop_at))))"

definition held_before :: "execution list \<Rightarrow> execution list \<Rightarrow> int \<Rightarrow> decimal" where
  "held_before entry_rows exit_rows moment =
     dsub (sum_quantity (filter (\<lambda>r. executed_at r < moment) entry_rows))
          (sum_quantity (filter (\<lambda>r. executed_at r < moment) exit_rows))"

definition near_rows :: "execution list \<Rightarrow> int \<Rightarrow> execution list" where
  "near_rows rows t = filter (\<lambda>r. \<bar>executed_at r - t\<bar> \<le> BOUNDARY) rows"

fun running_held :: "string list \<Rightarrow> decimal \<Rightarrow> execution list \<Rightarrow> decimal list" where
  "running_held entry_ids held [] = []"
| "running_held entry_ids held (r # rs) =
     (let h = (if exec_id r \<in> set entry_ids then dadd held (x_quantity r) else dadd held (dneg (x_quantity r)))
      in h # running_held entry_ids h rs)"

definition held_quantities :: "execution list \<Rightarrow> execution list \<Rightarrow> int \<Rightarrow> decimal list" where
  "held_quantities entries exits t =
     (let held = dsub (sum_quantity (filter (\<lambda>r. executed_at r < t - BOUNDARY) entries))
                      (sum_quantity (filter (\<lambda>r. executed_at r < t - BOUNDARY) exits))
      in held # running_held (map exec_id entries) held
                  (sort_key (\<lambda>r. (executed_at r, exec_id r)) (near_rows (entries @ exits) t)))"

definition check_single_owner :: "int \<Rightarrow> execution list \<Rightarrow> neighbours \<Rightarrow> unit outcome" where
  "check_single_owner t foreign_rows nb =
     bindE (forE (\<lambda>(entry_at, exit_at).
              check (\<not> (entry_at - NEIGHBOUR_MARGIN \<le> t \<and>
                        (case exit_at of None \<Rightarrow> True | Some e \<Rightarrow> t \<le> e + NEIGHBOUR_MARGIN)))
                    (Incomplete (Other_owner t))) (nb_intervals nb)) (\<lambda>_.
     forE (\<lambda>r. check (\<not> \<bar>executed_at r - t\<bar> \<le> BOUNDARY) (Incomplete (Other_owner t))) foreign_rows)"

definition settlement_rows :: "execution list \<Rightarrow> int \<Rightarrow> execution list" where
  "settlement_rows funding_rows t = filter (\<lambda>r. \<bar>executed_at r - t\<bar> \<le> FUNDING_ROW_MATCH) funding_rows"

text \<open>
  One settlement: the row counted for it, none, or, when unlisted rows are collected, the settlement
  as unlisted.
\<close>

datatype settled = Counted execution | Not_held | Unlisted

record funding_context =
  fc_entry :: "execution list"
  fc_exit :: "execution list"
  fc_rows :: "execution list"
  fc_foreign :: "execution list"
  fc_neighbours :: neighbours
  fc_now :: int
  fc_collect_unlisted :: bool

definition max_decimal :: "decimal list \<Rightarrow> decimal" where
  "max_decimal xs = (case xs of [] \<Rightarrow> 0 | y # ys \<Rightarrow> list_max y ys)"

definition count_row :: "funding_context \<Rightarrow> int \<Rightarrow> execution \<Rightarrow> settled outcome" where
  "count_row fc t row =
     bindE (check (usdt_or_absent (x_fee_currency row)) (Incomplete (Fee_currency (exec_id row)))) (\<lambda>_.
     bindE (check_single_owner t (fc_foreign fc) (fc_neighbours fc)) (\<lambda>_. Inr (Counted row)))"

definition match_settlement :: "funding_context \<Rightarrow> int \<Rightarrow> settled outcome" where
  "match_settlement fc t =
     (let rows = settlement_rows (fc_rows fc) t;
          near = near_rows (fc_entry fc @ fc_exit fc) t
      in case rows of
           _ # _ # _ \<Rightarrow> Inl (Incomplete (Several_funding_rows t))
         | [] \<Rightarrow>
             if fc_collect_unlisted fc
             then (let quantities = (if near \<noteq> [] then held_quantities (fc_entry fc) (fc_exit fc) t
                                     else [held_before (fc_entry fc) (fc_exit fc) t])
                   in if 0 < max_decimal quantities
                      then bindE (check_single_owner t (fc_foreign fc) (fc_neighbours fc)) (\<lambda>_. Inr Unlisted)
                      else Inr Not_held)
             else if near = []
             then (if held_before (fc_entry fc) (fc_exit fc) t = 0 then Inr Not_held
                   else Inl (Pending (Funding_not_listed t)))
             else if fc_now fc < t + SETTLE_DELAY then Inl (Pending (Funding_not_listed t))
             else Inl (Incomplete (Fill_next_to_settlement t))
         | [row] \<Rightarrow>
             if near = []
             then (let held = held_before (fc_entry fc) (fc_exit fc) t in
                   if held = 0 then Inr Not_held
                   else if x_quantity row \<noteq> held then Inl (Incomplete (Funding_quantity t (x_quantity row)))
                   else count_row fc t row)
             else if x_quantity row = 0 \<or> x_quantity row \<notin> set (held_quantities (fc_entry fc) (fc_exit fc) t)
             then Inl (Incomplete (Funding_quantity t (x_quantity row)))
             else count_row fc t row)"

fun match_all :: "funding_context \<Rightarrow> int list \<Rightarrow> ((int \<times> execution) list \<times> int list) outcome" where
  "match_all fc [] = Inr ([], [])"
| "match_all fc (t # ts) =
     bindE (match_settlement fc t) (\<lambda>s.
     bindE (match_all fc ts) (\<lambda>(counted, unlisted).
       Inr (case s of
              Counted row \<Rightarrow> ((t, row) # counted, unlisted)
            | Not_held \<Rightarrow> (counted, unlisted)
            | Unlisted \<Rightarrow> (counted, t # unlisted))))"

definition checked_settlements :: "int list \<Rightarrow> int \<Rightarrow> int \<Rightarrow> int list" where
  "checked_settlements settlements start stop_at =
     sorted_list_of_set {t \<in> set settlements. start \<le> t \<and> t \<le> stop_at}"

definition match_funding ::
  "funding_context \<Rightarrow> int list \<Rightarrow> int \<Rightarrow> int \<Rightarrow> ((int \<times> execution) list \<times> int list) outcome" where
  "match_funding fc settlements first_entry last_exit =
     (let start = first_entry - BOUNDARY; stop_at = last_exit + BOUNDARY;
          checked = checked_settlements settlements start stop_at
      in
      bindE (match_all fc checked) (\<lambda>r.
      bindE (forE (\<lambda>row.
               check (\<not> (start \<le> executed_at row \<and> executed_at row \<le> stop_at) \<or>
                      list_ex (\<lambda>t. \<bar>executed_at row - t\<bar> \<le> FUNDING_ROW_MATCH) checked)
                 (Incomplete (Unmatched_funding (exec_id row)))) (fc_rows fc)) (\<lambda>_. Inr r)))"

subsection \<open>Settling a trade\<close>

definition settle_inner ::
  "trade_facts \<Rightarrow> execution list \<Rightarrow> int list \<Rightarrow> (string \<Rightarrow> order_state option) \<Rightarrow> neighbours \<Rightarrow>
   int option \<Rightarrow> int \<Rightarrow> bool \<Rightarrow> cost_result outcome" where
  "settle_inner facts executions settlements orders nb published_to now is_open_pos =
     bindE (checked_fills facts executions orders nb now is_open_pos) (\<lambda>f.
     bindE (first_entry_of (fl_entry f)) (\<lambda>first_entry.
     bindE (last_exit_of is_open_pos now (fl_exit f)) (\<lambda>last_exit.
     bindE (check (is_open_pos \<or> \<not> now < last_exit + SETTLE_DELAY) (Pending Waiting_after_exit)) (\<lambda>_.
     bindE (check_published published_to settlements (first_entry - BOUNDARY) (last_exit + BOUNDARY)) (\<lambda>_.
     bindE (match_funding
              \<lparr>fc_entry = fl_entry f, fc_exit = fl_exit f, fc_rows = filter is_funding executions,
               fc_foreign = fl_others f @ fl_unknown f, fc_neighbours = nb, fc_now = now,
               fc_collect_unlisted = False\<rparr> settlements first_entry last_exit) (\<lambda>(counted, _).
     bindE (sum_value (fl_entry f)) (\<lambda>entry_val.
     bindE (sum_value (fl_exit f)) (\<lambda>exit_val.
     let owned = fl_entry f @ fl_exit f; funding_rows = map snd counted in
     Inr \<lparr>c_status = STATUS_COMPLETE, c_error = None,
          fees_usd = Some (dsum (map exec_cost owned)),
          funding_usd = Some (dsum (map exec_cost funding_rows)),
          entry_value = Some entry_val, exit_value = Some exit_val,
          gross_pnl_usd = (if is_open_pos then None
                           else Some (if tf_side facts = ''long'' then dsub exit_val entry_val
                                      else dsub entry_val exit_val)),
          legs = map (Leg (tf_trade_id facts) ''trade'') owned @
                 map (Leg (tf_trade_id facts) ''funding'') funding_rows\<rparr>))))))))"

definition stopped_result :: "stop \<Rightarrow> cost_result" where
  "stopped_result s =
     \<lparr>c_status = (case s of Pending _ \<Rightarrow> STATUS_PENDING | _ \<Rightarrow> STATUS_INCOMPLETE), c_error = Some s,
      fees_usd = None, funding_usd = None, entry_value = None, exit_value = None, gross_pnl_usd = None,
      legs = []\<rparr>"

text \<open>Only \<open>_StopError\<close> is caught: another exception leaves \<open>settle\<close>.\<close>

definition settle ::
  "trade_facts \<Rightarrow> execution list \<Rightarrow> int list \<Rightarrow> (string \<Rightarrow> order_state option) \<Rightarrow> neighbours \<Rightarrow>
   int option \<Rightarrow> int \<Rightarrow> bool \<Rightarrow> cost_result res" where
  "settle facts executions settlements orders nb published_to now is_open_pos =
     (case settle_inner facts executions settlements orders nb published_to now is_open_pos of
        Inr r \<Rightarrow> Inr r
      | Inl (Raised e) \<Rightarrow> Inl e
      | Inl s \<Rightarrow> Inr (stopped_result s))"

subsection \<open>What a successful pass has checked\<close>

definition entry_rows :: "trade_facts \<Rightarrow> execution list \<Rightarrow> execution list" where
  "entry_rows facts xs = filter (is_entry facts) (owned_rows facts xs)"

definition exit_rows :: "trade_facts \<Rightarrow> execution list \<Rightarrow> execution list" where
  "exit_rows facts xs = filter (\<lambda>x. \<not> is_entry facts x) (owned_rows facts xs)"

lemma first_entry_of_Inr:
  "first_entry_of xs = Inr t \<longleftrightarrow> xs \<noteq> [] \<and> t = Min (executed_at ` set xs)"
proof (cases xs)
  case (Cons x ys)
  have "list_min (executed_at x) (map executed_at ys) = Min (executed_at ` set xs)"
  proof (rule Min_eqI[symmetric])
    show "list_min (executed_at x) (map executed_at ys) \<le> y" if "y \<in> executed_at ` set xs" for y
      using that Cons list_min_le_init[of "executed_at x" "map executed_at ys"] list_min_le[of y "map executed_at ys" "executed_at x"]
      by auto
    show "list_min (executed_at x) (map executed_at ys) \<in> executed_at ` set xs"
      using list_min_in[of "executed_at x" "map executed_at ys"] Cons by auto
  qed simp
  then show ?thesis using Cons by (auto simp: first_entry_of_def)
qed (simp add: first_entry_of_def)

lemma last_exit_of_Inr:
  "last_exit_of False now xs = Inr t \<longleftrightarrow> xs \<noteq> [] \<and> t = Max (executed_at ` set xs)"
proof (cases xs)
  case (Cons x ys)
  have "list_max (executed_at x) (map executed_at ys) = Max (executed_at ` set xs)"
  proof (rule Max_eqI[symmetric])
    show "y \<le> list_max (executed_at x) (map executed_at ys)" if "y \<in> executed_at ` set xs" for y
      using that Cons list_max_ge_init[of "executed_at x" "map executed_at ys"] list_max_ge[of y "map executed_at ys" "executed_at x"]
      by auto
    show "list_max (executed_at x) (map executed_at ys) \<in> executed_at ` set xs"
      using list_max_in[of "executed_at x" "map executed_at ys"] Cons by auto
  qed simp
  then show ?thesis using Cons by (auto simp: last_exit_of_def)
qed (simp add: last_exit_of_def)

lemma last_exit_of_open [simp]: "last_exit_of True now xs = Inr now"
  by (simp add: last_exit_of_def)

lemma check_sides_Inr:
  "check_sides facts es xs = Inr () \<longleftrightarrow>
     (\<forall>x \<in> set es. x_side x = Some (entry_side (tf_side facts))) \<and>
     (\<forall>x \<in> set xs. x_side x = Some (exit_side (tf_side facts)))"
  by (auto simp: check_sides_def res_simps)

lemma check_quantities_Inr:
  "check_quantities facts es xs op = Inr () \<longleftrightarrow>
     sum_quantity es = tf_entry_filled facts \<and> sum_quantity xs \<le> tf_entry_filled facts \<and>
     (op \<or> sum_quantity xs = tf_entry_filled facts)"
  by (auto simp: check_quantities_def Let_def res_simps)

text \<open>The rows of one order, and what the dictionary \<open>listed\<close> of \<open>_check_orders\<close> says of it.\<close>

definition order_rows :: "string \<Rightarrow> execution list \<Rightarrow> execution list" where
  "order_rows oid xs = filter (\<lambda>x. x_order_id x = Some oid) xs"

definition quantity_of :: "(string \<times> decimal) list \<Rightarrow> string \<Rightarrow> decimal" where
  "quantity_of d oid = (case map_of d oid of None \<Rightarrow> 0 | Some q \<Rightarrow> q)"

lemma quantity_of_update: "quantity_of (AList.update k v d) oid = (if oid = k then v else quantity_of d oid)"
  by (simp add: quantity_of_def update_conv')

lemma listed_by_order_quantity:
  "listed_by_order d xs = Inr d' \<Longrightarrow>
     quantity_of d' oid = foldl dadd (quantity_of d oid) (map x_quantity (order_rows oid xs))"
proof (induction d xs rule: listed_by_order.induct)
  case (2 d x xs)
  then obtain c cs where x: "x_order_id x = Some (c # cs)" by (auto split: option.splits list.splits)
  with 2 show ?case by (auto simp: order_rows_def quantity_of_update quantity_of_def[symmetric])
qed (simp add: order_rows_def)

lemma listed_by_order_keys:
  "listed_by_order d xs = Inr d' \<Longrightarrow> Some ` fst ` set d' = Some ` fst ` set d \<union> x_order_id ` set xs"
proof (induction d xs rule: listed_by_order.induct)
  case (2 d x xs)
  then obtain c cs where x: "x_order_id x = Some (c # cs)" by (auto split: option.splits list.splits)
  with 2 show ?case by (auto simp: dom_update image_Un)
qed simp

definition order_settled :: "execution list \<Rightarrow> order_state \<Rightarrow> string \<Rightarrow> bool" where
  "order_settled owned st oid \<longleftrightarrow>
     os_filled st = Some (sum_quantity (order_rows oid owned)) \<and>
     (os_terminal st \<or> sum_quantity (order_rows oid owned) = 0)"

lemma check_orders_closed:
  assumes "check_orders facts owned orders False = Inr ()"
    and "oid \<in> set (tf_order_ids facts) \<or> Some oid \<in> x_order_id ` set owned"
  shows "\<exists>st. orders oid = Some st \<and> order_settled owned st oid"
proof -
  obtain d where d: "listed_by_order [] owned = Inr d"
    and chk: "\<And>i. i \<in> fst ` set d \<union> set (tf_order_ids facts) \<Longrightarrow> check_order facts d orders False i = Inr ()"
    using assms(1) by (auto simp: check_orders_def res_simps)
  have "oid \<in> fst ` set d \<union> set (tf_order_ids facts)"
    using assms(2) listed_by_order_keys[OF d] inj_image_mem_iff[OF inj_Some, of oid "fst ` set d"] by auto
  from chk[OF this] show ?thesis
    using listed_by_order_quantity[OF d, of oid]
    by (auto simp: check_order_def order_settled_def sum_quantity_def dsum_def quantity_of_def res_simps Let_def
          split: option.splits if_splits)
qed

lemma checked_fills_Inr:
  assumes "checked_fills facts xs orders nb now op = Inr f"
  shows "fl_entry f = entry_rows facts xs" "fl_exit f = exit_rows facts xs"
    "fl_others f = other_rows facts nb xs" "fl_unknown f = unknown_rows facts nb xs"
    "0 < tf_entry_filled facts" "entry_rows facts xs \<noteq> []"
    "check_sides facts (entry_rows facts xs) (exit_rows facts xs) = Inr ()"
    "check_quantities facts (entry_rows facts xs) (exit_rows facts xs) op = Inr ()"
    "check_orders facts (owned_rows facts xs) orders op = Inr ()"
    "\<exists>fe le. first_entry_of (entry_rows facts xs) = Inr fe \<and> last_exit_of op now (exit_rows facts xs) = Inr le \<and>
       (\<forall>x \<in> set (unknown_rows facts nb xs) \<union> set (odd_rows xs). \<not> (fe \<le> executed_at x \<and> executed_at x \<le> le))"
    "\<forall>x \<in> set (owned_rows facts xs). usdt_or_absent (x_fee_currency x)"
  using assms unfolding checked_fills_def
  by (auto simp: res_simps Let_def entry_rows_def exit_rows_def)

lemma owned_split: "set (owned_rows facts xs) = set (entry_rows facts xs) \<union> set (exit_rows facts xs)"
  by (auto simp: entry_rows_def exit_rows_def)

text \<open>After the quantity checks a closed trade has an exit, so the maximum exists.\<close>

lemma closed_has_exit:
  assumes "check_quantities facts es xs False = Inr ()" "0 < tf_entry_filled facts"
  shows "xs \<noteq> []"
  using assms by (auto simp: check_quantities_Inr sum_quantity_def)

lemma not_Raised_forE:
  assumes "\<And>x e. x \<in> set xs \<Longrightarrow> f x \<noteq> Inl (Raised e)" shows "forE f xs \<noteq> Inl (Raised e)"
  using assms forE_Inl_in[of f xs "Raised e"] by blast

lemma listed_by_order_not_Raised: "listed_by_order d xs \<noteq> Inl (Raised e)"
  by (induction d xs rule: listed_by_order.induct) (auto split: option.splits list.splits)

lemma check_order_not_Raised: "check_order facts d orders op oid \<noteq> Inl (Raised e)"
  by (auto simp: check_order_def Let_def res_simps split: option.splits)

lemma fills_checks_not_Raised:
  "check_sides facts es xs \<noteq> Inl (Raised e)" "check_quantities facts es xs op \<noteq> Inl (Raised e)"
  "check_orders facts owned orders op \<noteq> Inl (Raised e)"
  by (auto simp: check_sides_def check_quantities_def check_orders_def Let_def res_simps
        listed_by_order_not_Raised check_order_not_Raised dest!: forE_Inl_in)

lemma first_entry_of_not_Raised: "xs \<noteq> [] \<Longrightarrow> first_entry_of xs \<noteq> Inl e"
  by (cases xs) (auto simp: first_entry_of_def)

lemma last_exit_of_not_Raised: "op \<or> xs \<noteq> [] \<Longrightarrow> last_exit_of op now xs \<noteq> Inl e"
  by (cases xs) (auto simp: last_exit_of_def)

lemma checked_fills_not_Raised: "checked_fills facts xs orders nb now op \<noteq> Inl (Raised e)"
proof
  assume "checked_fills facts xs orders nb now op = Inl (Raised e)"
  then have pos: "0 < tf_entry_filled facts" "entry_rows facts xs \<noteq> []"
    and q: "check_quantities facts (entry_rows facts xs) (exit_rows facts xs) op = Inr ()"
    and bad: "first_entry_of (entry_rows facts xs) = Inl (Raised e) \<or>
              last_exit_of op now (exit_rows facts xs) = Inl (Raised e)"
    unfolding checked_fills_def Let_def entry_rows_def exit_rows_def
    by (auto simp: res_simps fills_checks_not_Raised dest!: forE_Inl_in)
  have "op \<or> exit_rows facts xs \<noteq> []" using closed_has_exit pos q by (cases op) auto
  then show False using bad pos first_entry_of_not_Raised last_exit_of_not_Raised by blast
qed

lemma check_single_owner_not_Raised: "check_single_owner t rows nb \<noteq> Inl (Raised e)"
  by (auto simp: check_single_owner_def res_simps dest!: forE_Inl_in)

lemma match_settlement_not_Raised: "match_settlement fc t \<noteq> Inl (Raised e)"
  by (auto simp: match_settlement_def Let_def count_row_def res_simps check_single_owner_not_Raised
        split: list.splits if_splits)

lemma match_funding_not_Raised: "match_funding fc sts fe le \<noteq> Inl (Raised e)"
proof -
  have "match_all fc ts \<noteq> Inl (Raised e)" for ts
    by (induction ts) (auto simp: res_simps match_settlement_not_Raised)
  then show ?thesis by (auto simp: match_funding_def Let_def res_simps dest!: forE_Inl_in)
qed

lemma sum_value_not_Raised: "sum_value xs \<noteq> Inl (Raised e)"
proof -
  have "sum_value_from a xs \<noteq> Inl (Raised e)" for a
    by (induction xs arbitrary: a) (auto split: option.splits)
  then show ?thesis by (simp add: sum_value_def)
qed

lemma check_published_not_Raised: "check_published p sts a b \<noteq> Inl (Raised e)"
  by (auto simp: check_published_def res_simps split: option.splits)


lemma settle_complete_inner:
  "settle facts xs sts orders nb published_to now op = Inr r \<Longrightarrow> c_status r = STATUS_COMPLETE \<Longrightarrow>
     settle_inner facts xs sts orders nb published_to now op = Inr r"
  by (auto simp: settle_def stopped_result_def split: sum.splits stop.splits)

lemma settle_inner_InrE:
  assumes "settle_inner facts xs sts orders nb published_to now op = Inr r"
  obtains f fe le counted un ev xv where
    "checked_fills facts xs orders nb now op = Inr f"
    "first_entry_of (entry_rows facts xs) = Inr fe" "last_exit_of op now (exit_rows facts xs) = Inr le"
    "op \<or> le + SETTLE_DELAY \<le> now"
    "check_published published_to sts (fe - BOUNDARY) (le + BOUNDARY) = Inr ()"
    "match_funding
       \<lparr>fc_entry = entry_rows facts xs, fc_exit = exit_rows facts xs, fc_rows = filter is_funding xs,
        fc_foreign = other_rows facts nb xs @ unknown_rows facts nb xs, fc_neighbours = nb, fc_now = now,
        fc_collect_unlisted = False\<rparr> sts fe le = Inr (counted, un)"
    "sum_value (entry_rows facts xs) = Inr ev" "sum_value (exit_rows facts xs) = Inr xv"
    "r = \<lparr>c_status = STATUS_COMPLETE, c_error = None,
          fees_usd = Some (dsum (map exec_cost (entry_rows facts xs @ exit_rows facts xs))),
          funding_usd = Some (dsum (map exec_cost (map snd counted))),
          entry_value = Some ev, exit_value = Some xv,
          gross_pnl_usd = (if op then None
                           else Some (if tf_side facts = ''long'' then dsub xv ev else dsub ev xv)),
          legs = map (Leg (tf_trade_id facts) ''trade'') (entry_rows facts xs @ exit_rows facts xs) @
                 map (Leg (tf_trade_id facts) ''funding'') (map snd counted)\<rparr>"
proof -
  obtain f where f: "checked_fills facts xs orders nb now op = Inr f"
    using assms by (auto simp: settle_inner_def res_simps)
  note g = checked_fills_Inr(1-4)[OF f]
  show thesis
    using assms that[OF f] unfolding settle_inner_def f bindE_Inr g Let_def
    by (fastforce simp: res_simps not_less)
qed

subsection \<open>What the funding of a complete trade rests on\<close>

text \<open>
  No other trade and no foreign order could own a settlement; and the row counted for a settlement
  is for a quantity the trade held there.
\<close>

definition sole_owner :: "funding_context \<Rightarrow> int \<Rightarrow> bool" where
  "sole_owner fc t \<longleftrightarrow>
     (\<forall>(a, b) \<in> set (nb_intervals (fc_neighbours fc)).
        t < a - NEIGHBOUR_MARGIN \<or> (\<exists>e. b = Some e \<and> e + NEIGHBOUR_MARGIN < t)) \<and>
     (\<forall>r \<in> set (fc_foreign fc). BOUNDARY < \<bar>executed_at r - t\<bar>)"

lemma check_single_owner_Inr:
  "check_single_owner t (fc_foreign fc) (fc_neighbours fc) = Inr u \<longleftrightarrow> sole_owner fc t"
  by (auto simp: check_single_owner_def sole_owner_def res_simps not_le split: option.splits)

definition held_for :: "funding_context \<Rightarrow> int \<Rightarrow> execution \<Rightarrow> bool" where
  "held_for fc t row \<longleftrightarrow>
     x_quantity row \<noteq> 0 \<and>
     (if near_rows (fc_entry fc @ fc_exit fc) t = []
      then x_quantity row = held_before (fc_entry fc) (fc_exit fc) t
      else x_quantity row \<in> set (held_quantities (fc_entry fc) (fc_exit fc) t))"

definition not_held :: "funding_context \<Rightarrow> int \<Rightarrow> bool" where
  "not_held fc t \<longleftrightarrow>
     near_rows (fc_entry fc @ fc_exit fc) t = [] \<and> held_before (fc_entry fc) (fc_exit fc) t = 0"

lemma match_settlement_closed:
  assumes "match_settlement fc t = Inr s" "\<not> fc_collect_unlisted fc"
  shows "s = Not_held \<and> not_held fc t \<or>
         (\<exists>row. s = Counted row \<and> settlement_rows (fc_rows fc) t = [row] \<and> held_for fc t row \<and>
                usdt_or_absent (x_fee_currency row) \<and> sole_owner fc t)"
  using assms
  by (auto simp: match_settlement_def Let_def count_row_def res_simps check_single_owner_Inr held_for_def
        not_held_def split: list.splits if_splits)

lemma match_all_Inr:
  "match_all fc ts = Inr (counted, un) \<Longrightarrow>
     (\<forall>t \<in> set ts. \<exists>s. match_settlement fc t = Inr s \<and> (\<forall>row. s = Counted row \<longrightarrow> (t, row) \<in> set counted)) \<and>
     (\<forall>(t, row) \<in> set counted. t \<in> set ts \<and> match_settlement fc t = Inr (Counted row)) \<and>
     (distinct ts \<longrightarrow> distinct (map fst counted))"
proof (induction ts arbitrary: counted un)
  case (Cons t ts)
  obtain s where s: "match_settlement fc t = Inr s" using Cons.prems by (auto simp: res_simps)
  obtain c u where c: "match_all fc ts = Inr (c, u)" using Cons.prems by (auto simp: res_simps)
  have e: "counted = (case s of Counted row \<Rightarrow> (t, row) # c | _ \<Rightarrow> c)"
    using Cons.prems s c by (auto split: settled.splits)
  from Cons.IH[OF c] s e show ?case by (cases s) auto
qed simp

text \<open>The checked settlements, and what a funding match says of them.\<close>

lemma checked_settlements_iff:
  "t \<in> set (checked_settlements sts a b) \<longleftrightarrow> t \<in> set sts \<and> a \<le> t \<and> t \<le> b"
  by (simp add: checked_settlements_def)

lemma match_funding_Inr:
  assumes "match_funding fc sts fe le = Inr (counted, un)"
  shows "match_all fc (checked_settlements sts (fe - BOUNDARY) (le + BOUNDARY)) = Inr (counted, un)"
    "\<forall>row \<in> set (fc_rows fc). fe - BOUNDARY \<le> executed_at row \<and> executed_at row \<le> le + BOUNDARY \<longrightarrow>
       (\<exists>t \<in> set sts. fe - BOUNDARY \<le> t \<and> t \<le> le + BOUNDARY \<and> \<bar>executed_at row - t\<bar> \<le> FUNDING_ROW_MATCH)"
  using assms
  by (fastforce simp: match_funding_def Let_def res_simps list_ex_iff checked_settlements_iff)+

text \<open>The funding context of a trade, as \<open>_settle\<close> passes it.\<close>

definition trade_context :: "trade_facts \<Rightarrow> execution list \<Rightarrow> neighbours \<Rightarrow> int \<Rightarrow> funding_context" where
  "trade_context facts xs nb now =
     \<lparr>fc_entry = entry_rows facts xs, fc_exit = exit_rows facts xs, fc_rows = filter is_funding xs,
      fc_foreign = other_rows facts nb xs @ unknown_rows facts nb xs, fc_neighbours = nb, fc_now = now,
      fc_collect_unlisted = False\<rparr>"

definition opened_at :: "trade_facts \<Rightarrow> execution list \<Rightarrow> int" where
  "opened_at facts xs = Min (executed_at ` set (entry_rows facts xs))"

definition closed_at :: "trade_facts \<Rightarrow> execution list \<Rightarrow> int" where
  "closed_at facts xs = Max (executed_at ` set (exit_rows facts xs))"

lemma complete_funding:
  assumes "settle_inner facts xs sts orders nb pub now False = Inr r"
  obtains counted un p where
    "match_funding (trade_context facts xs nb now) sts (opened_at facts xs) (closed_at facts xs) = Inr (counted, un)"
    "funding_usd r = Some (dsum (map (x_fee \<circ> snd) counted))"
    "\<And>row. Leg (tf_trade_id facts) ''funding'' row \<in> set (legs r) \<longleftrightarrow> row \<in> snd ` set counted"
    "pub = Some p" "closed_at facts xs + BOUNDARY \<le> p" "closed_at facts xs + SETTLE_DELAY \<le> now"
    "\<exists>f. checked_fills facts xs orders nb now False = Inr f"
  using assms
proof (rule settle_inner_InrE)
  fix f fe le counted un ev xv
  assume f: "checked_fills facts xs orders nb now False = Inr f"
    and fe: "first_entry_of (entry_rows facts xs) = Inr fe"
    and le: "last_exit_of False now (exit_rows facts xs) = Inr le"
    and now: "False \<or> le + SETTLE_DELAY \<le> now"
    and pub: "check_published pub sts (fe - BOUNDARY) (le + BOUNDARY) = Inr ()"
    and m: "match_funding
       \<lparr>fc_entry = entry_rows facts xs, fc_exit = exit_rows facts xs, fc_rows = filter is_funding xs,
        fc_foreign = other_rows facts nb xs @ unknown_rows facts nb xs, fc_neighbours = nb, fc_now = now,
        fc_collect_unlisted = False\<rparr> sts fe le = Inr (counted, un)"
    and r: "r = \<lparr>c_status = STATUS_COMPLETE, c_error = None,
          fees_usd = Some (dsum (map exec_cost (entry_rows facts xs @ exit_rows facts xs))),
          funding_usd = Some (dsum (map exec_cost (map snd counted))),
          entry_value = Some ev, exit_value = Some xv,
          gross_pnl_usd = (if False then None
                           else Some (if tf_side facts = ''long'' then dsub xv ev else dsub ev xv)),
          legs = map (Leg (tf_trade_id facts) ''trade'') (entry_rows facts xs @ exit_rows facts xs) @
                 map (Leg (tf_trade_id facts) ''funding'') (map snd counted)\<rparr>"
  have e: "fe = opened_at facts xs" "le = closed_at facts xs"
    using fe le by (simp_all add: first_entry_of_Inr last_exit_of_Inr opened_at_def closed_at_def)
  obtain p where p: "pub = Some p" "le + BOUNDARY \<le> p"
    using pub by (auto simp: check_published_def res_simps not_less split: option.splits)
  show thesis
  proof (rule that)
    show "match_funding (trade_context facts xs nb now) sts (opened_at facts xs) (closed_at facts xs) = Inr (counted, un)"
      using m unfolding e trade_context_def .
    show "funding_usd r = Some (dsum (map (x_fee \<circ> snd) counted))"
      by (simp add: r exec_cost_def comp_def)
    show "Leg (tf_trade_id facts) ''funding'' row \<in> set (legs r) \<longleftrightarrow> row \<in> snd ` set counted" for row
      by (auto simp: r)
  qed (use p now e f in auto)
qed

subsection \<open>A sample trade\<close>

text \<open>A long trade of 2 contracts, held over one settlement, with one row of another trade of ours.\<close>

definition sample_fill :: "string \<Rightarrow> string \<Rightarrow> string \<Rightarrow> decimal \<Rightarrow> decimal \<Rightarrow> int \<Rightarrow> execution" where
  "sample_fill eid oid sd q v t =
     \<lparr>exec_id = eid, exec_type = ''trade'', x_order_id = Some oid, x_order_link_id = None, x_side = Some sd,
      x_quantity = q, x_price = Some v, x_value = Some v, x_fee = 1, x_fee_currency = Some ''USDT'',
      executed_at = t\<rparr>"

definition sample_executions :: "execution list" where
  "sample_executions =
     [sample_fill ''f1'' ''e'' ''Buy'' 2 20 100000000,
      \<lparr>exec_id = ''s1'', exec_type = ''funding'', x_order_id = None, x_order_link_id = None, x_side = None,
       x_quantity = 2, x_price = None, x_value = None, x_fee = 3, x_fee_currency = Some ''USDT'',
       executed_at = 500000000\<rparr>,
      sample_fill ''f2'' ''x'' ''Sell'' 2 25 900000000,
      sample_fill ''n1'' ''n'' ''Buy'' 7 70 2000000000]"

definition sample_facts :: trade_facts where
  "sample_facts =
     \<lparr>tf_trade_id = 1, tf_exchange = ''bybit'', tf_native_market_id = ''AUSDT'', tf_side = ''long'',
      tf_entry_client_order_id = ''c'', tf_entry_order_id = Some ''e'', tf_entry_filled = 2,
      tf_contract_size = None, tf_order_ids = [''e'', ''x''], tf_client_order_ids = [],
      tf_sent_at = 99000000, tf_exit_at = Some 900000000\<rparr>"

definition sample_neighbours :: neighbours where
  "sample_neighbours =
     \<lparr>nb_order_ids = [''n''], nb_client_order_ids = [], nb_entry_client_order_ids = [],
      nb_intervals = [(2000000000, None)]\<rparr>"

definition sample_orders :: "string \<Rightarrow> order_state option" where
  "sample_orders oid =
     (if oid \<in> {''e'', ''x''} then Some \<lparr>os_order_id = oid, os_terminal = True, os_filled = Some 2\<rparr> else None)"

definition sample_cost :: cost_result where
  "sample_cost =
     \<lparr>c_status = STATUS_COMPLETE, c_error = None, fees_usd = Some 2, funding_usd = Some 3,
      entry_value = Some 20, exit_value = Some 25, gross_pnl_usd = Some 5,
      legs = [Leg 1 ''trade'' (sample_executions ! 0), Leg 1 ''trade'' (sample_executions ! 2),
              Leg 1 ''funding'' (sample_executions ! 1)]\<rparr>"

lemma sample_settles:
  "settle sample_facts sample_executions [500000000, 4000000000] sample_orders sample_neighbours
     (Some 4000000000) 3000000000 False = Inr sample_cost"
  by code_simp

subsection \<open>Properties of a complete attribution\<close>

text \<open>
  C14. A complete closed trade adds up exactly: the entry rows and the exit rows each sum to the entry's
  filled quantity; every order the journal links to it or that owns a row was read, its rows sum to its
  filled amount, and it is terminal if it filled anything; every row other than funding between the
  first entry and the last exit is a fill of this trade or of another trade of ours; and the net result
  is the gross result less the fees of exactly the owned rows and less the funding.
\<close>

theorem complete_trade_adds_up:
  assumes "settle facts xs sts orders nb pub now False = Inr r" and "c_status r = STATUS_COMPLETE"
  shows "sum_quantity (entry_rows facts xs) = tf_entry_filled facts \<and>
    sum_quantity (exit_rows facts xs) = tf_entry_filled facts \<and>
    (\<forall>oid. oid \<in> set (tf_order_ids facts) \<or> Some oid \<in> x_order_id ` set (owned_rows facts xs) \<longrightarrow>
       (\<exists>st. orders oid = Some st \<and> order_settled (owned_rows facts xs) st oid)) \<and>
    (\<forall>x \<in> set xs. opened_at facts xs \<le> executed_at x \<and> executed_at x \<le> closed_at facts xs \<and>
       \<not> is_funding x \<longrightarrow> is_fill x \<and> (owned_by_trade facts x \<or> owned_by_neighbour nb x)) \<and>
    (\<exists>ev xv funding. sum_value (entry_rows facts xs) = Inr ev \<and> sum_value (exit_rows facts xs) = Inr xv \<and>
       funding_usd r = Some funding \<and>
       net_pnl_usd r = Some (dsub (dsub (if tf_side facts = ''long'' then dsub xv ev else dsub ev xv)
         (dsum (map x_fee (entry_rows facts xs @ exit_rows facts xs)))) funding))"
  using settle_complete_inner[OF assms]
proof (rule settle_inner_InrE, intro conjI allI impI)
  fix f fe le counted un ev xv
  assume f: "checked_fills facts xs orders nb now False = Inr f"
    and fe: "first_entry_of (entry_rows facts xs) = Inr fe"
    and le: "last_exit_of False now (exit_rows facts xs) = Inr le"
    and v: "sum_value (entry_rows facts xs) = Inr ev" "sum_value (exit_rows facts xs) = Inr xv"
    and r: "r = \<lparr>c_status = STATUS_COMPLETE, c_error = None,
          fees_usd = Some (dsum (map exec_cost (entry_rows facts xs @ exit_rows facts xs))),
          funding_usd = Some (dsum (map exec_cost (map snd counted))),
          entry_value = Some ev, exit_value = Some xv,
          gross_pnl_usd = (if False then None
                           else Some (if tf_side facts = ''long'' then dsub xv ev else dsub ev xv)),
          legs = map (Leg (tf_trade_id facts) ''trade'') (entry_rows facts xs @ exit_rows facts xs) @
                 map (Leg (tf_trade_id facts) ''funding'') (map snd counted)\<rparr>"
  show "sum_quantity (entry_rows facts xs) = tf_entry_filled facts"
       "sum_quantity (exit_rows facts xs) = tf_entry_filled facts"
    using checked_fills_Inr(8)[OF f] by (auto simp: check_quantities_Inr)
  show "\<exists>st. orders oid = Some st \<and> order_settled (owned_rows facts xs) st oid"
    if "oid \<in> set (tf_order_ids facts) \<or> Some oid \<in> x_order_id ` set (owned_rows facts xs)" for oid
    using check_orders_closed[OF checked_fills_Inr(9)[OF f] that] .
  show "\<forall>x \<in> set xs. opened_at facts xs \<le> executed_at x \<and> executed_at x \<le> closed_at facts xs \<and>
       \<not> is_funding x \<longrightarrow> is_fill x \<and> (owned_by_trade facts x \<or> owned_by_neighbour nb x)"
    using checked_fills_Inr(10)[OF f] fe le
    by (auto simp: opened_at_def closed_at_def first_entry_of_Inr last_exit_of_Inr unknown_rows_def odd_rows_def)
  show "\<exists>ev xv funding. sum_value (entry_rows facts xs) = Inr ev \<and> sum_value (exit_rows facts xs) = Inr xv \<and>
       funding_usd r = Some funding \<and>
       net_pnl_usd r = Some (dsub (dsub (if tf_side facts = ''long'' then dsub xv ev else dsub ev xv)
         (dsum (map x_fee (entry_rows facts xs @ exit_rows facts xs)))) funding)"
    using v by (simp add: r net_pnl_usd_def exec_cost_eq)
qed

theorem complete_trade_adds_up_witness:
  "sum_quantity (entry_rows sample_facts sample_executions) = 2 \<and>
   sum_quantity (exit_rows sample_facts sample_executions) = 2"
  using complete_trade_adds_up[OF sample_settles] by (simp add: sample_cost_def sample_facts_def)

text \<open>
  C22. Funding of a complete closed trade is neither missed nor guessed. Every settlement listed from 5 s
  before the first entry to 5 s after the last exit was either clearly not held, or has exactly one
  funding row, for a quantity the trade held there, that no other trade of ours and no foreign fill
  within 5 s could own; the funding is the sum over these rows, each settlement once; every funding row
  in that range belongs to a listed settlement; and the exchange has published a settlement at or after
  the end of the range.
\<close>

theorem complete_funding_exact:
  assumes "settle facts xs sts orders nb pub now False = Inr r" and "c_status r = STATUS_COMPLETE"
  shows "\<exists>counted p. funding_usd r = Some (dsum (map (x_fee \<circ> snd) counted)) \<and> distinct (map fst counted) \<and>
     (\<forall>t. t \<in> set sts \<and> opened_at facts xs - BOUNDARY \<le> t \<and> t \<le> closed_at facts xs + BOUNDARY \<longrightarrow>
        not_held (trade_context facts xs nb now) t \<or> t \<in> fst ` set counted) \<and>
     (\<forall>t row. (t, row) \<in> set counted \<longrightarrow> t \<in> set sts \<and>
        settlement_rows (filter is_funding xs) t = [row] \<and>
        held_for (trade_context facts xs nb now) t row \<and> sole_owner (trade_context facts xs nb now) t) \<and>
     (\<forall>row \<in> set xs. is_funding row \<and> opened_at facts xs - BOUNDARY \<le> executed_at row \<and>
        executed_at row \<le> closed_at facts xs + BOUNDARY \<longrightarrow>
        (\<exists>t \<in> set sts. \<bar>executed_at row - t\<bar> \<le> FUNDING_ROW_MATCH)) \<and>
     pub = Some p \<and> closed_at facts xs + BOUNDARY \<le> p"
proof -
  let ?fc = "trade_context facts xs nb now"
  obtain counted un p where m: "match_funding ?fc sts (opened_at facts xs) (closed_at facts xs) = Inr (counted, un)"
    and fund: "funding_usd r = Some (dsum (map (x_fee \<circ> snd) counted))"
    and p: "pub = Some p" "closed_at facts xs + BOUNDARY \<le> p"
    using settle_complete_inner[OF assms] by (rule complete_funding)
  note a = match_all_Inr[OF match_funding_Inr(1)[OF m]]
  have closed: "\<not> fc_collect_unlisted ?fc" and rows: "fc_rows ?fc = filter is_funding xs"
    by (simp_all add: trade_context_def)
  have "not_held ?fc t \<or> t \<in> fst ` set counted"
    if h: "t \<in> set sts" "opened_at facts xs - BOUNDARY \<le> t" "t \<le> closed_at facts xs + BOUNDARY" for t
  proof -
    obtain s where s: "match_settlement ?fc t = Inr s" "\<forall>row. s = Counted row \<longrightarrow> (t, row) \<in> set counted"
      using bspec[OF conjunct1[OF a], of t] h by (auto simp: checked_settlements_iff)
    then show ?thesis using match_settlement_closed[OF s(1) closed] by force
  qed
  moreover have "t \<in> set sts \<and> settlement_rows (filter is_funding xs) t = [row] \<and> held_for ?fc t row \<and> sole_owner ?fc t"
    if "(t, row) \<in> set counted" for t row
    using a that match_settlement_closed[OF _ closed, of t "Counted row"] rows
    by (auto simp: checked_settlements_iff)
  moreover have "distinct (map fst counted)" using a by (simp add: checked_settlements_def)
  moreover have "\<exists>t \<in> set sts. \<bar>executed_at row - t\<bar> \<le> FUNDING_ROW_MATCH"
    if "row \<in> set xs" "is_funding row" "opened_at facts xs - BOUNDARY \<le> executed_at row"
       "executed_at row \<le> closed_at facts xs + BOUNDARY" for row
    using match_funding_Inr(2)[OF m] that rows by auto
  ultimately show ?thesis using fund p by blast
qed

theorem complete_funding_exact_witness:
  "\<exists>p. Some 4000000000 = Some p \<and> closed_at sample_facts sample_executions + BOUNDARY \<le> p"
  using complete_funding_exact[OF sample_settles] by (auto simp: sample_cost_def)

text \<open>
  No funding execution is charged to two trades: when both attributions are complete and the first
  trade's neighbours list an interval of the second that is within 45 s of its fills (the margin of 60 s
  less the tolerances of matching), no funding row is a leg of both.
\<close>

theorem funding_row_charged_once:
  assumes "settle A xs sts orders nb pub now False = Inr r" and "c_status r = STATUS_COMPLETE"
    and "settle B ys sts' orders' nb' pub' now' False = Inr r'" and "c_status r' = STATUS_COMPLETE"
    and "(a, b) \<in> set (nb_intervals nb)" and "a \<le> opened_at B ys + 45000000"
    and "b = None \<or> (\<exists>e. b = Some e \<and> closed_at B ys \<le> e + 45000000)"
  shows "Leg (tf_trade_id A) ''funding'' row \<notin> set (legs r) \<or> Leg (tf_trade_id B) ''funding'' row \<notin> set (legs r')"
proof (rule ccontr)
  let ?A = "trade_context A xs nb now" and ?B = "trade_context B ys nb' now'"
  assume "\<not> ?thesis"
  then have l: "Leg (tf_trade_id A) ''funding'' row \<in> set (legs r)"
               "Leg (tf_trade_id B) ''funding'' row \<in> set (legs r')" by auto
  obtain c u where m: "match_funding ?A sts (opened_at A xs) (closed_at A xs) = Inr (c, u)" "row \<in> snd ` set c"
    using settle_complete_inner[OF assms(1,2)] l(1) by (elim complete_funding) auto
  obtain c' u' where m': "match_funding ?B sts' (opened_at B ys) (closed_at B ys) = Inr (c', u')" "row \<in> snd ` set c'"
    using settle_complete_inner[OF assms(3,4)] l(2) by (elim complete_funding) auto
  obtain t where t: "match_settlement ?A t = Inr (Counted row)"
    using m match_all_Inr[OF match_funding_Inr(1)[OF m(1)]] by auto
  obtain t' where t': "match_settlement ?B t' = Inr (Counted row)"
      "opened_at B ys - BOUNDARY \<le> t'" "t' \<le> closed_at B ys + BOUNDARY"
    using m' match_all_Inr[OF match_funding_Inr(1)[OF m'(1)]] by (auto simp: checked_settlements_iff)
  have closed: "\<not> fc_collect_unlisted ?A" "\<not> fc_collect_unlisted ?B" by (simp_all add: trade_context_def)
  have near: "\<bar>executed_at row - t\<bar> \<le> FUNDING_ROW_MATCH" "\<bar>executed_at row - t'\<bar> \<le> FUNDING_ROW_MATCH"
    using match_settlement_closed[OF t closed(1)] match_settlement_closed[OF t'(1) closed(2)]
    by (auto simp: settlement_rows_def dest!: filter_eq_singletonD)
  have "sole_owner ?A t" using match_settlement_closed[OF t closed(1)] by simp
  then have "t < a - NEIGHBOUR_MARGIN \<or> (\<exists>e. b = Some e \<and> e + NEIGHBOUR_MARGIN < t)"
    using assms(5) by (auto simp: sole_owner_def trade_context_def)
  then show False
    using near t'(2,3) assms(6,7)
    by (auto simp: NEIGHBOUR_MARGIN_def FUNDING_ROW_MATCH_def BOUNDARY_def)
qed

definition sample_late_facts :: trade_facts where
  "sample_late_facts = sample_facts\<lparr>tf_trade_id := 2, tf_order_ids := [''p'', ''q''], tf_entry_order_id := Some ''p''\<rparr>"

definition sample_late_executions :: "execution list" where
  "sample_late_executions =
     [sample_fill ''f3'' ''p'' ''Buy'' 2 20 2000000000, sample_fill ''f4'' ''q'' ''Sell'' 2 25 2100000000]"

definition sample_late_orders :: "string \<Rightarrow> order_state option" where
  "sample_late_orders oid = Some \<lparr>os_order_id = oid, os_terminal = True, os_filled = Some 2\<rparr>"

lemma sample_late_settles:
  "case settle sample_late_facts sample_late_executions [4000000000] sample_late_orders
     sample_neighbours (Some 4000000000) 5000000000 False of
     Inl _ \<Rightarrow> False | Inr r \<Rightarrow> c_status r = STATUS_COMPLETE"
  by code_simp

theorem funding_row_charged_once_witness:
  "\<exists>r'. settle sample_late_facts sample_late_executions [4000000000] sample_late_orders
     sample_neighbours (Some 4000000000) 5000000000 False = Inr r' \<and>
   (Leg 1 ''funding'' (sample_executions ! 1) \<notin> set (legs sample_cost) \<or>
    Leg 2 ''funding'' (sample_executions ! 1) \<notin> set (legs r'))"
proof -
  obtain r' where r': "settle sample_late_facts sample_late_executions [4000000000] sample_late_orders
     sample_neighbours (Some 4000000000) 5000000000 False = Inr r'" "c_status r' = STATUS_COMPLETE"
    using sample_late_settles by (auto split: sum.splits)
  have "opened_at sample_late_facts sample_late_executions = 2000000000" by code_simp
  then show ?thesis
    using funding_row_charged_once[OF sample_settles _ r', of 2000000000 None "sample_executions ! 1"] r'(1)
    by (simp add: sample_cost_def sample_facts_def sample_late_facts_def sample_neighbours_def)
qed

end
