(* ===== verification/Open_Costs.thy ===== *)
theory Open_Costs
  imports Live_Costs Probe_Loss
begin

text \<open>
  Costs of a live trade that is still open, and reading them from a cost source (the second half of
  \<open>live_costs.py\<close>). A cost source is a record of the reads of the protocol classes \<open>CostSource\<close> and
  \<open>OpenCostSource\<close>; a read that fails returns its exception.
\<close>

record funding_settlement =
  fs_at :: int
  fs_rate :: "decimal option"

record open_cost_result =
  oc_status :: cost_status
  oc_error :: "stop option"
  oc_position :: "open_position option"
  oc_published_to :: "int option"
  oc_reason :: "string option"
  oc_observed_quantity :: "decimal option"

definition REASON_QUANTITY_MISMATCH :: string where
  "REASON_QUANTITY_MISMATCH = ''quantity_mismatch''"

definition open_stopped :: "stop \<Rightarrow> int option \<Rightarrow> open_cost_result" where
  "open_stopped s pub =
     \<lparr>oc_status = c_status (stopped_result s), oc_error = Some s, oc_position = None, oc_published_to = pub,
      oc_reason = None, oc_observed_quantity = None\<rparr>"

text \<open>The handler \<open>except _StopError\<close>: a stop ends with a result, any other exception passes.\<close>

definition caught ::
  "'a outcome \<Rightarrow> int option \<Rightarrow> ('a \<Rightarrow> open_cost_result res) \<Rightarrow> open_cost_result res" where
  "caught m pub k =
     (case m of
        Inl (Raised e) \<Rightarrow> Inl e
      | Inl s \<Rightarrow> Inr (open_stopped s pub)
      | Inr x \<Rightarrow> k x)"

definition lift :: "'a res \<Rightarrow> 'a outcome" where
  "lift m = (case m of Inl e \<Rightarrow> Inl (Raised e) | Inr x \<Rightarrow> Inr x)"

definition open_fills ::
  "trade_facts \<Rightarrow> execution list \<Rightarrow> (string \<Rightarrow> order_state option) \<Rightarrow> neighbours \<Rightarrow> int \<Rightarrow> fills outcome" where
  "open_fills facts executions orders nb now =
     bindE (check (tf_exit_at facts = None) (Incomplete Already_closed)) (\<lambda>_.
     bindE (checked_fills facts executions orders nb now True) (\<lambda>f.
     bindE (check (\<not> list_ex (\<lambda>r. now < executed_at r) (fl_entry f @ fl_exit f)) (Pending Fill_after_now)) (\<lambda>_.
     bindE (check_orders facts (fl_entry f @ fl_exit f) orders False) (\<lambda>_. Inr f))))"

definition has_price :: "execution \<Rightarrow> bool" where
  "has_price r \<longleftrightarrow> (case x_price r of None \<Rightarrow> False | Some p \<Rightarrow> \<not> p \<le> 0) \<and> \<not> x_quantity r \<le> 0"

definition open_checks ::
  "fills \<Rightarrow> funding_settlement list \<Rightarrow> int option \<Rightarrow> int outcome" where
  "open_checks f settlements published_to =
     bindE (forE (\<lambda>r. check (has_price r) (Incomplete (No_positive_price (exec_id r)))) (fl_entry f @ fl_exit f)) (\<lambda>_.
     bindE (first_entry_of (fl_entry f)) (\<lambda>first_entry.
     bindE (case published_to of
              None \<Rightarrow> Inr ()
            | Some p \<Rightarrow> check_published published_to (map fs_at settlements) (first_entry - BOUNDARY) p) (\<lambda>_.
     Inr first_entry)))"

text \<open>Dictionaries keyed by settlement time; a later entry replaces an earlier one.\<close>

definition dict_update :: "('k \<times> 'v) list \<Rightarrow> ('k \<times> 'v) list \<Rightarrow> ('k \<times> 'v) list" where
  "dict_update d kvs = foldl (\<lambda>d (k, v). AList.update k v d) d kvs"

definition rate_items :: "funding_settlement list \<Rightarrow> (int \<times> decimal option) list" where
  "rate_items ss = map (\<lambda>s. (fs_at s, fs_rate s)) ss"

definition proven_to :: "int option \<Rightarrow> funding_settlement list \<Rightarrow> int \<Rightarrow> int option" where
  "proven_to published_to settlements now =
     (case (case published_to of None \<Rightarrow> [] | Some p \<Rightarrow> [p]) @
           map fs_at (filter (\<lambda>s. fs_at s \<le> now) settlements) of
        [] \<Rightarrow> None
      | t # ts \<Rightarrow> Some (list_max t ts))"

definition known_rates ::
  "funding_settlement list \<Rightarrow> funding_settlement list \<Rightarrow> int option \<Rightarrow> int \<Rightarrow> (int \<times> decimal option) list" where
  "known_rates settlements observed published_to now =
     (let listed = dict_update [] (rate_items (filter (\<lambda>s. fs_at s \<le> now) settlements));
          announced = filter (\<lambda>s. fs_at s \<le> now \<and>
             (case published_to of None \<Rightarrow> True | Some p \<Rightarrow> p < fs_at s \<or> fs_at s \<in> fst ` set listed)) observed
      in dict_update (dict_update [] (rate_items announced)) listed)"

definition fills_with_price :: "execution list \<Rightarrow> fill list" where
  "fills_with_price rows =
     concat (map (\<lambda>r. case x_price r of None \<Rightarrow> [] | Some p \<Rightarrow> [\<lparr>f_quantity = x_quantity r, f_price = p\<rparr>]) rows)"

fun unlisted_estimates ::
  "fills \<Rightarrow> (int \<times> decimal option) list \<Rightarrow> (int \<times> decimal option) list \<Rightarrow> int list \<Rightarrow> unlisted_settlement list res" where
  "unlisted_estimates f rates marks [] = Inr []"
| "unlisted_estimates f rates marks (t # ts) =
     (case map_of rates t of
        None \<Rightarrow> Inl (KeyError ''at'')
      | Some rate \<Rightarrow>
          bindE (unlisted_estimates f rates marks ts) (\<lambda>us.
            Inr (\<lparr>us_at = t, us_rate = rate,
                  us_quantity_held = Some (max_decimal (held_quantities (fl_entry f) (fl_exit f) t)),
                  us_mark = (case map_of marks t of None \<Rightarrow> None | Some m \<Rightarrow> m)\<rparr> # us)))"

definition collected_position ::
  "trade_facts \<Rightarrow> execution list \<Rightarrow> neighbours \<Rightarrow> fills \<Rightarrow> int \<Rightarrow> decimal \<Rightarrow> (int \<times> decimal option) list \<Rightarrow>
   (int \<times> decimal option) list \<Rightarrow> int \<Rightarrow> open_position outcome" where
  "collected_position facts executions nb f first_entry quantity rates marks now =
     bindE (match_funding
              \<lparr>fc_entry = fl_entry f, fc_exit = fl_exit f, fc_rows = filter is_funding executions,
               fc_foreign = fl_others f @ fl_unknown f, fc_neighbours = nb, fc_now = now,
               fc_collect_unlisted = True\<rparr> (map fst rates) first_entry now) (\<lambda>(funding, missing).
     bindE (lift (entry_vwap (fills_with_price (fl_entry f)))) (\<lambda>vwap.
     bindE (lift (unlisted_estimates f rates marks missing)) (\<lambda>estimates.
     bindE (lift (realized_open_parts (tf_side facts) vwap (fills_with_price (fl_exit f)))) (\<lambda>parts.
     Inr \<lparr>op_side = tf_side facts, op_entry_vwap = vwap, op_open_qty = quantity,
          op_realized_open_parts = parts,
          op_fees_paid_open = dsum (map exec_cost (fl_entry f @ fl_exit f)),
          op_funding_paid_open = dsum (map exec_cost (map snd funding)),
          op_unlisted = estimates\<rparr>))))"

definition open_quantity :: "fills \<Rightarrow> decimal" where
  "open_quantity f = dsub (sum_quantity (fl_entry f)) (sum_quantity (fl_exit f))"

definition collect_open ::
  "trade_facts \<Rightarrow> execution list \<Rightarrow> funding_settlement list \<Rightarrow> (string \<Rightarrow> order_state option) \<Rightarrow> neighbours \<Rightarrow>
   decimal \<Rightarrow> int option \<Rightarrow> funding_settlement list \<Rightarrow> (int \<times> decimal option) list \<Rightarrow> int \<Rightarrow> open_cost_result res" where
  "collect_open facts executions settlements orders nb journal_quantity published_to observed marks now =
     caught (open_fills facts executions orders nb now) published_to (\<lambda>f.
       let quantity = open_quantity f in
       if quantity \<le> 0 \<or> quantity \<noteq> journal_quantity
       then Inr \<lparr>oc_status = STATUS_INCOMPLETE,
                 oc_error = Some (Incomplete (Open_executions_hold quantity journal_quantity)),
                 oc_position = None, oc_published_to = published_to,
                 oc_reason = Some REASON_QUANTITY_MISMATCH, oc_observed_quantity = Some quantity\<rparr>
       else caught (open_checks f settlements published_to) published_to (\<lambda>first_entry.
         let published = proven_to published_to settlements now;
             rates = known_rates settlements observed published now
         in caught (collected_position facts executions nb f first_entry quantity rates marks now) published
              (\<lambda>position. Inr \<lparr>oc_status = STATUS_UNPROVEN_TAIL, oc_error = None, oc_position = Some position,
                               oc_published_to = published, oc_reason = None, oc_observed_quantity = None\<rparr>)))"

subsection \<open>Cost sources\<close>

record cost_source =
  cs_executions :: "string \<Rightarrow> int \<Rightarrow> int \<Rightarrow> execution list res"
  cs_settlements :: "string \<Rightarrow> int \<Rightarrow> int \<Rightarrow> int list res"
  cs_published_to :: "string \<Rightarrow> int option res"
  cs_order :: "string \<Rightarrow> string \<Rightarrow> order_state option res"

record open_cost_source = cost_source +
  cs_funding_rates :: "string \<Rightarrow> int \<Rightarrow> int \<Rightarrow> funding_settlement list res"
  cs_settlement_mark :: "string \<Rightarrow> int \<Rightarrow> int \<Rightarrow> decimal option res"

definition wanted_orders :: "trade_facts \<Rightarrow> execution list \<Rightarrow> string list" where
  "wanted_orders facts executions =
     sorted_list_of_set
       (set (tf_order_ids facts) \<union>
        set (concat (map (\<lambda>r. case x_order_id r of Some (c # cs) \<Rightarrow> [c # cs] | _ \<Rightarrow> []) (owned_rows facts executions))))"

fun read_each_order ::
  "(string \<Rightarrow> order_state option res) \<Rightarrow> (string \<Rightarrow> order_state option) \<Rightarrow> string list \<Rightarrow>
   (string \<Rightarrow> order_state option) res" where
  "read_each_order read_one orders [] = Inr orders"
| "read_each_order read_one orders (oid # oids) =
     bindE (read_one oid) (\<lambda>st.
       read_each_order read_one (case st of None \<Rightarrow> orders | Some s \<Rightarrow> orders(oid \<mapsto> s)) oids)"

definition read_orders ::
  "('a cost_source_scheme) \<Rightarrow> trade_facts \<Rightarrow> execution list \<Rightarrow> (string \<Rightarrow> order_state option) res" where
  "read_orders source facts executions =
     read_each_order (cs_order source (tf_native_market_id facts)) Map.empty (wanted_orders facts executions)"

definition read_costs ::
  "('a cost_source_scheme) \<Rightarrow> trade_facts \<Rightarrow> neighbours \<Rightarrow> int \<Rightarrow> bool \<Rightarrow> cost_result res" where
  "read_costs source facts nb now is_open_pos =
     (let start = tf_sent_at facts - WINDOW_MARGIN; market = tf_native_market_id facts in
      bindE (cs_executions source market start now) (\<lambda>executions.
      bindE (cs_published_to source market) (\<lambda>published_to.
      bindE (cs_settlements source market start now) (\<lambda>settlements.
      bindE (read_orders source facts executions) (\<lambda>orders.
      settle facts executions settlements orders nb published_to now is_open_pos)))))"

text \<open>A mark that cannot be read stays unknown.\<close>

definition read_marks ::
  "open_cost_source \<Rightarrow> string \<Rightarrow> int \<Rightarrow> unlisted_settlement list \<Rightarrow> (int \<times> decimal option) list" where
  "read_marks source market now us =
     dict_update [] (map (\<lambda>u. (us_at u, case cs_settlement_mark source market (us_at u) now of Inl _ \<Rightarrow> None | Inr m \<Rightarrow> m)) us)"

definition read_open ::
  "open_cost_source \<Rightarrow> trade_facts \<Rightarrow> neighbours \<Rightarrow> decimal \<Rightarrow> funding_settlement list \<Rightarrow> int \<Rightarrow> open_cost_result res" where
  "read_open source facts nb journal_quantity observed now =
     (let start = tf_sent_at facts - WINDOW_MARGIN; market = tf_native_market_id facts in
      bindE (cs_executions source market start now) (\<lambda>executions.
      bindE (cs_published_to source market) (\<lambda>published_to.
      bindE (cs_funding_rates source market start now) (\<lambda>settlements.
      bindE (read_orders source facts executions) (\<lambda>orders.
      bindE (collect_open facts executions settlements orders nb journal_quantity published_to observed [] now) (\<lambda>result.
      case oc_position result of
        None \<Rightarrow> Inr result
      | Some p \<Rightarrow>
          collect_open facts executions settlements orders nb journal_quantity published_to observed
            (read_marks source market now (op_unlisted p)) now))))))"

subsection \<open>Lemmas\<close>

lemma map_of_dict_update: "map_of (dict_update d kvs) = map_of d ++ map_of (rev kvs)"
  unfolding dict_update_def
  by (induction kvs arbitrary: d) (auto simp: update_conv' map_add_def fun_eq_iff split: option.splits)

lemma lift_Inr [simp]: "lift m = Inr x \<longleftrightarrow> m = Inr x"
  by (cases m) (simp_all add: lift_def)

lemma lift_Inl [simp]: "lift m = Inl s \<longleftrightarrow> (\<exists>e. s = Raised e \<and> m = Inl e)"
  by (cases m) (auto simp: lift_def)

lemma caught_Inl: "caught m pub k = Inl e \<longleftrightarrow> m = Inl (Raised e) \<or> (\<exists>x. m = Inr x \<and> k x = Inl e)"
  by (auto simp: caught_def split: sum.splits stop.splits)

lemma caught_Inr:
  "caught m pub k = Inr r \<longleftrightarrow>
     (\<exists>s. m = Inl s \<and> (\<forall>e. s \<noteq> Raised e) \<and> r = open_stopped s pub) \<or> (\<exists>x. m = Inr x \<and> k x = Inr r)"
  by (auto simp: caught_def split: sum.splits stop.splits)

lemma open_stopped_status [simp]: "oc_status (open_stopped s pub) \<noteq> STATUS_COMPLETE"
  by (cases s) (simp_all add: open_stopped_def stopped_result_def)

lemma open_fills_Inr:
  assumes "open_fills facts xs orders nb now = Inr f"
  shows "checked_fills facts xs orders nb now True = Inr f" "tf_exit_at facts = None"
    "\<forall>r \<in> set (owned_rows facts xs). executed_at r \<le> now"
    "check_orders facts (fl_entry f @ fl_exit f) orders False = Inr ()"
  using assms checked_fills_Inr(1,2)[of facts xs orders nb now True f]
  by (auto simp: open_fills_def res_simps list_ex_iff owned_split not_less)

lemma open_fills_not_Raised: "open_fills facts xs orders nb now \<noteq> Inl (Raised e)"
  by (auto simp: open_fills_def res_simps checked_fills_not_Raised fills_checks_not_Raised)

lemma open_checks_not_Raised: "fl_entry f \<noteq> [] \<Longrightarrow> open_checks f ss pub \<noteq> Inl (Raised e)"
  by (auto simp: open_checks_def res_simps first_entry_of_not_Raised check_published_not_Raised
        dest!: forE_Inl_in split: option.splits)

lemma open_checks_Inr:
  "open_checks f ss pub = Inr t \<Longrightarrow>
     first_entry_of (fl_entry f) = Inr t \<and> (\<forall>r \<in> set (fl_entry f) \<union> set (fl_exit f). has_price r)"
  by (auto simp: open_checks_def res_simps)

lemma fills_with_price_all:
  assumes "\<forall>r \<in> set rows. has_price r"
  shows "fills_with_price rows = map (\<lambda>r. \<lparr>f_quantity = x_quantity r, f_price = the (x_price r)\<rparr>) rows"
  using assms by (induction rows) (auto simp: fills_with_price_def has_price_def split: option.splits)

lemma entry_vwap_Inr:
  assumes "\<forall>r \<in> set rows. has_price r" "0 < sum_quantity rows"
  shows "\<exists>v. entry_vwap (fills_with_price rows) = Inr v"
  using assms by (simp add: entry_vwap_def fills_with_price_all sum_quantity_def comp_def Let_def ddiv_def)

text \<open>The settlements collected as unlisted are among the known ones, and the trade held something there.\<close>

lemma match_settlement_unlisted:
  "match_settlement fc t = Inr Unlisted \<Longrightarrow> settlement_rows (fc_rows fc) t = [] \<and> sole_owner fc t"
  by (auto simp: match_settlement_def Let_def count_row_def res_simps check_single_owner_Inr
        split: list.splits if_splits)

lemma match_all_unlisted:
  "match_all fc ts = Inr (c, un) \<Longrightarrow>
     \<forall>t \<in> set un. t \<in> set ts \<and> match_settlement fc t = Inr Unlisted"
proof (induction ts arbitrary: c un)
  case (Cons t ts)
  obtain s where s: "match_settlement fc t = Inr s" using Cons.prems by (auto simp: res_simps)
  obtain c' u where c: "match_all fc ts = Inr (c', u)" using Cons.prems by (auto simp: res_simps)
  have "un = (case s of Unlisted \<Rightarrow> t # u | _ \<Rightarrow> u)" using Cons.prems s c by (auto split: settled.splits)
  with Cons.IH[OF c] s show ?case by (cases s) auto
qed simp

lemma unlisted_estimates_total:
  "set ts \<subseteq> fst ` set rates \<Longrightarrow>
     \<exists>us. unlisted_estimates f rates marks ts = Inr us \<and> map us_at us = ts"
proof (induction ts)
  case (Cons t ts)
  then obtain rate where "map_of rates t = Some rate"
    by (metis list.set_intros(1) map_of_eq_None_iff option.exhaust subsetD)
  with Cons show ?case by auto
qed simp

lemma keys_dict_update: "fst ` set (dict_update d kvs) = fst ` set d \<union> fst ` set kvs"
  unfolding dict_update_def by (induction kvs arbitrary: d) (simp_all add: dom_update split_beta)

lemma known_rates_until_now: "t \<in> fst ` set (known_rates ss obs pub now) \<Longrightarrow> t \<le> now"
  by (auto simp: known_rates_def Let_def keys_dict_update rate_items_def image_Un)

lemma side_sign_total: "s \<in> {''long'', ''short''} \<Longrightarrow> \<exists>x. side_sign s = Inr x"
  by (auto simp: side_sign_def)

text \<open>A position of a known side with a positive quantity can be valued at any mark.\<close>

lemma estimate_unlisted_total:
  "side_sign s = Inr x \<Longrightarrow> \<exists>r. estimate_unlisted s e un us = Inr r"
  by (induction us arbitrary: e un)
     (auto simp: unlisted_estimate_def settlement_estimate_def Let_def split: option.splits)

lemma probe_loss_total:
  assumes "op_side p \<in> {''long'', ''short''}" "0 < op_open_qty p" "0 \<le> t"
  shows "\<exists>l. probe_loss realized (Some p) (Some m) (Some t) = Inr l \<and> lower_bound l"
proof -
  obtain x where x: "side_sign (op_side p) = Inr x" using side_sign_total[OF assms(1)] ..
  obtain e un where "estimate_unlisted (op_side p) 0 [] (op_unlisted p) = Inr (e, un)"
    using estimate_unlisted_total[OF x, of 0 "[]" "op_unlisted p"] by auto
  with x assms show ?thesis by (simp add: probe_loss_def Let_def not_le not_less)
qed

lemma collected_position_total:
  assumes "tf_side facts \<in> {''long'', ''short''}" "0 < sum_quantity (fl_entry f)"
    "\<forall>r \<in> set (fl_entry f). has_price r"
  shows "collected_position facts xs nb f fe q rates marks now \<noteq> Inl (Raised e)"
proof
  assume bad: "collected_position facts xs nb f fe q rates marks now = Inl (Raised e)"
  obtain v where v: "entry_vwap (fills_with_price (fl_entry f)) = Inr v"
    using entry_vwap_Inr[OF assms(3,2)] ..
  obtain x where x: "side_sign (tf_side facts) = Inr x" using side_sign_total[OF assms(1)] ..
  let ?fc = "\<lparr>fc_entry = fl_entry f, fc_exit = fl_exit f, fc_rows = filter is_funding xs,
               fc_foreign = fl_others f @ fl_unknown f, fc_neighbours = nb, fc_now = now,
               fc_collect_unlisted = True\<rparr>"
  obtain c un where m: "match_funding ?fc (map fst rates) fe now = Inr (c, un)"
    using bad match_funding_not_Raised unfolding collected_position_def bindE_eq_Inl by fastforce
  have "set un \<subseteq> fst ` set rates"
    using match_all_unlisted[OF match_funding_Inr(1)[OF m]] by (auto simp: checked_settlements_iff)
  then obtain us where "unlisted_estimates f rates marks un = Inr us"
    using unlisted_estimates_total by blast
  then show False using bad m v x by (simp add: collected_position_def realized_open_parts_def lift_def)
qed

lemma collected_position_Inr:
  assumes "collected_position facts xs nb f fe q rates marks now = Inr p"
  shows "op_side p = tf_side facts" "op_open_qty p = q"
    "op_fees_paid_open p = dsum (map x_fee (fl_entry f @ fl_exit f))"
    "\<forall>u \<in> set (op_unlisted p). us_at u \<in> fst ` set rates \<and> fe - BOUNDARY \<le> us_at u \<and>
       settlement_rows (filter is_funding xs) (us_at u) = []"
proof -
  let ?fc = "\<lparr>fc_entry = fl_entry f, fc_exit = fl_exit f, fc_rows = filter is_funding xs,
               fc_foreign = fl_others f @ fl_unknown f, fc_neighbours = nb, fc_now = now,
               fc_collect_unlisted = True\<rparr>"
  obtain c un us where m: "match_funding ?fc (map fst rates) fe now = Inr (c, un)"
    and us: "unlisted_estimates f rates marks un = Inr us" "op_unlisted p = us"
    using assms by (auto simp: collected_position_def res_simps)
  show "op_side p = tf_side facts" "op_open_qty p = q"
    "op_fees_paid_open p = dsum (map x_fee (fl_entry f @ fl_exit f))"
    using assms by (auto simp: collected_position_def res_simps exec_cost_eq)
  note un = match_all_unlisted[OF match_funding_Inr(1)[OF m]]
  have sub: "set un \<subseteq> fst ` set rates" using un by (auto simp: checked_settlements_iff)
  have "us_at u \<in> set un" if "u \<in> set us" for u
    using unlisted_estimates_total[OF sub, of f marks] us that by (metis in_set_conv_nth length_map nth_map nth_mem sum.inject(2))
  then show "\<forall>u \<in> set (op_unlisted p). us_at u \<in> fst ` set rates \<and> fe - BOUNDARY \<le> us_at u \<and>
       settlement_rows (filter is_funding xs) (us_at u) = []"
    using un sub match_settlement_unlisted[of ?fc] by (auto simp: us(2) checked_settlements_iff)
qed

lemma collect_open_Inr:
  assumes "collect_open facts xs ss orders nb jq pub obs marks now = Inr r" "oc_position r = Some p"
  obtains f fe where "open_fills facts xs orders nb now = Inr f" "open_checks f ss pub = Inr fe"
    "open_quantity f = jq" "0 < jq"
    "collected_position facts xs nb f fe jq (known_rates ss obs (proven_to pub ss now) now) marks now = Inr p"
    "oc_status r = STATUS_UNPROVEN_TAIL"
  using assms
  by (auto simp: collect_open_def caught_Inr Let_def open_stopped_def split: if_splits)

lemma collect_open_total:
  assumes "tf_side facts \<in> {''long'', ''short''}"
  shows "\<exists>r. collect_open facts xs ss orders nb jq pub obs marks now = Inr r"
proof -
  let ?c = "collect_open facts xs ss orders nb jq pub obs marks now"
  have "?c \<noteq> Inl e" for e
  proof
    assume bad: "?c = Inl e"
    obtain f where f: "open_fills facts xs orders nb now = Inr f"
      using bad open_fills_not_Raised by (auto simp: collect_open_def caught_Inl)
    note fills = checked_fills_Inr[OF open_fills_Inr(1)[OF f]]
    have pos: "0 < sum_quantity (fl_entry f)" using fills(1,5,8) by (simp add: check_quantities_Inr)
    have ne: "fl_entry f \<noteq> []" using fills(1,6) by simp
    obtain fe where fe: "open_checks f ss pub = Inr fe"
      using bad f open_checks_not_Raised[OF ne]
      by (auto simp: collect_open_def caught_Inl Let_def split: if_splits)
    show False
      using bad f fe collected_position_total[OF assms pos] open_checks_Inr[OF fe]
      by (auto simp: collect_open_def caught_Inl Let_def split: if_splits)
  qed
  then show ?thesis by (cases ?c) auto
qed

text \<open>
  C33. The costs of an open trade never pass for final and never disagree with the journal. For a long or
  short trade collecting always returns a result and never the status complete; a position is reported
  only for a trade without an exit, with the journal's positive quantity, which is the entry's filled
  quantity less the exits; its fees are those of exactly the owned rows; every settlement it lists as
  unlisted is known, not in the future and has no funding row; and the loss of the reported position can
  be computed at every mark and fee rate.
\<close>

theorem collect_open_sound:
  assumes "tf_side facts \<in> {''long'', ''short''}"
  shows "\<exists>r. collect_open facts xs ss orders nb jq pub obs marks now = Inr r \<and> oc_status r \<noteq> STATUS_COMPLETE \<and>
    (\<forall>p. oc_position r = Some p \<longrightarrow>
       oc_status r = STATUS_UNPROVEN_TAIL \<and> tf_exit_at facts = None \<and> op_open_qty p = jq \<and> 0 < jq \<and>
       jq = dsub (tf_entry_filled facts) (sum_quantity (exit_rows facts xs)) \<and>
       op_fees_paid_open p = dsum (map x_fee (entry_rows facts xs @ exit_rows facts xs)) \<and>
       (\<forall>u \<in> set (op_unlisted p). us_at u \<le> now \<and> opened_at facts xs - BOUNDARY \<le> us_at u \<and>
          settlement_rows (filter is_funding xs) (us_at u) = []) \<and>
       (\<forall>realized m t. 0 \<le> t \<longrightarrow>
          (\<exists>l. probe_loss realized (Some p) (Some m) (Some t) = Inr l \<and> lower_bound l)))"
proof -
  obtain r where r: "collect_open facts xs ss orders nb jq pub obs marks now = Inr r"
    using collect_open_total[OF assms] ..
  have st: "oc_status r \<noteq> STATUS_COMPLETE"
    using r by (auto simp: collect_open_def caught_Inr Let_def split: if_splits)
  have pos: "oc_status r = STATUS_UNPROVEN_TAIL \<and> tf_exit_at facts = None \<and> op_open_qty p = jq \<and> 0 < jq \<and>
       jq = dsub (tf_entry_filled facts) (sum_quantity (exit_rows facts xs)) \<and>
       op_fees_paid_open p = dsum (map x_fee (entry_rows facts xs @ exit_rows facts xs)) \<and>
       (\<forall>u \<in> set (op_unlisted p). us_at u \<le> now \<and> opened_at facts xs - BOUNDARY \<le> us_at u \<and>
          settlement_rows (filter is_funding xs) (us_at u) = []) \<and>
       (\<forall>realized m t. 0 \<le> t \<longrightarrow>
          (\<exists>l. probe_loss realized (Some p) (Some m) (Some t) = Inr l \<and> lower_bound l))"
    if p: "oc_position r = Some p" for p
    using r p
  proof (rule collect_open_Inr)
    fix f fe
    assume f: "open_fills facts xs orders nb now = Inr f" and fe: "open_checks f ss pub = Inr fe"
      and q: "open_quantity f = jq" "0 < jq" and s: "oc_status r = STATUS_UNPROVEN_TAIL"
      and c: "collected_position facts xs nb f fe jq (known_rates ss obs (proven_to pub ss now) now) marks now = Inr p"
    note fills = checked_fills_Inr[OF open_fills_Inr(1)[OF f]]
    have "jq = dsub (tf_entry_filled facts) (sum_quantity (exit_rows facts xs))"
      using q(1) fills(1,2,8) by (simp add: open_quantity_def check_quantities_Inr)
    moreover have "fe = opened_at facts xs"
      using open_checks_Inr[OF fe] fills(1) by (simp add: first_entry_of_Inr opened_at_def)
    moreover have "\<forall>u \<in> set (op_unlisted p). us_at u \<le> now"
      using collected_position_Inr(4)[OF c] known_rates_until_now by blast
    ultimately show ?thesis
      using s q(2) open_fills_Inr(2)[OF f] collected_position_Inr[OF c] fills(1,2) assms probe_loss_total[of p]
      by (intro conjI ballI allI impI) auto
  qed
  show ?thesis using r st pos by blast
qed

definition sample_open_facts :: trade_facts where
  "sample_open_facts = sample_facts\<lparr>tf_exit_at := None, tf_order_ids := [''e'']\<rparr>"

lemma sample_open_collects:
  "case collect_open sample_open_facts [sample_executions ! 0] [\<lparr>fs_at = 500000000, fs_rate = Some 1\<rparr>]
     sample_orders sample_neighbours 2 None [] [] 600000000 of
     Inl _ \<Rightarrow> False | Inr r \<Rightarrow> map_option (map us_at \<circ> op_unlisted) (oc_position r) = Some [500000000]"
  by code_simp

theorem collect_open_sound_witness:
  "\<exists>r p. collect_open sample_open_facts [sample_executions ! 0] [\<lparr>fs_at = 500000000, fs_rate = Some 1\<rparr>]
     sample_orders sample_neighbours 2 None [] [] 600000000 = Inr r \<and> oc_status r = STATUS_UNPROVEN_TAIL \<and>
     oc_position r = Some p \<and> op_open_qty p = 2 \<and> map us_at (op_unlisted p) = [500000000]"
  using sample_open_collects
    collect_open_sound[of sample_open_facts "[sample_executions ! 0]" "[\<lparr>fs_at = 500000000, fs_rate = Some 1\<rparr>]"
      sample_orders sample_neighbours 2 None "[]" "[]" 600000000]
  by (auto simp: sample_open_facts_def sample_facts_def split: sum.splits)

text \<open>The marks enter a collected position only in its unlisted settlements.\<close>

lemma unlisted_estimates_marks:
  "unlisted_estimates f rates [] ts = Inr us \<Longrightarrow>
     unlisted_estimates f rates marks ts =
       Inr (map (\<lambda>u. u\<lparr>us_mark := (case map_of marks (us_at u) of None \<Rightarrow> None | Some m \<Rightarrow> m)\<rparr>) us)"
  by (induction ts arbitrary: us) (auto simp: res_simps split: option.splits)

lemma unlisted_estimates_no_marks:
  "unlisted_estimates f rates [] ts = Inr us \<Longrightarrow> u \<in> set us \<Longrightarrow> us_mark u = None"
  by (induction ts arbitrary: us) (auto simp: res_simps split: option.splits)

lemma collected_position_marks:
  assumes "collected_position facts xs nb f fe q rates [] now = Inr p"
  shows "collected_position facts xs nb f fe q rates marks now =
      Inr (p\<lparr>op_unlisted := map (\<lambda>u. u\<lparr>us_mark := (case map_of marks (us_at u) of None \<Rightarrow> None | Some m \<Rightarrow> m)\<rparr>)
                 (op_unlisted p)\<rparr>)"
    and "\<forall>u \<in> set (op_unlisted p). us_mark u = None"
  using assms unlisted_estimates_no_marks
  by (auto simp: collected_position_def res_simps unlisted_estimates_marks)

lemma map_of_read_marks:
  "u \<in> set us \<Longrightarrow>
     map_of (read_marks src market now us) (us_at u) =
       Some (case cs_settlement_mark src market (us_at u) now of Inl _ \<Rightarrow> None | Inr m \<Rightarrow> m)"
proof -
  assume u: "u \<in> set us"
  let ?g = "\<lambda>t. case cs_settlement_mark src market t now of Inl _ \<Rightarrow> None | Inr m \<Rightarrow> m"
  have "map_of (rev (map (\<lambda>u. (us_at u, ?g (us_at u))) us)) (us_at u) = Some (?g (us_at u))"
  proof -
    have "map_of (map (\<lambda>t. (t, ?g t)) (rev (map us_at us))) (us_at u) = Some (?g (us_at u))"
      using u by (subst map_of_map_restrict) simp
    then show ?thesis by (simp add: rev_map comp_def)
  qed
  then show ?thesis unfolding read_marks_def map_of_dict_update by simp
qed


definition sample_open_source :: open_cost_source where
  "sample_open_source =
     \<lparr>cs_executions = \<lambda>_ _ _. Inr [sample_executions ! 0], cs_settlements = \<lambda>_ _ _. Inr [500000000],
      cs_published_to = \<lambda>_. Inr None, cs_order = \<lambda>_ oid. Inr (sample_orders oid),
      cs_funding_rates = \<lambda>_ _ _. Inr [\<lparr>fs_at = 500000000, fs_rate = Some 1\<rparr>],
      cs_settlement_mark = \<lambda>_ _ _. Inr (Some 7)\<rparr>"

lemma sample_read_open:
  "case read_open sample_open_source sample_open_facts sample_neighbours 2 [] 600000000 of
     Inl _ \<Rightarrow> False | Inr r \<Rightarrow> map_option (map us_at \<circ> op_unlisted) (oc_position r) = Some [500000000]"
  by code_simp


end
