(* ===== verification/Bybit_Costs.thy ===== *)
theory Bybit_Costs
  imports Open_Costs Py_Decimal "HOL-Library.Multiset"
begin

text \<open>
  The Bybit cost source (\<open>BybitCostSource\<close> of \<open>live_costs.py\<close>): parsing of raw rows, conversion of
  times to and from milliseconds through binary floats, and the paging of the execution list and of
  the funding history. The exchange client is a record of its endpoints; a raw row is a record of the
  fields the code reads, a text field being the text that \<open>str\<close> gives (None when absent or empty).
\<close>

definition MAX_WINDOW :: int where "MAX_WINDOW = 604800000000"
definition SETTLEMENT_PAGE :: nat where "SETTLEMENT_PAGE = 200"
definition MAX_PAGES :: nat where "MAX_PAGES = 1000"
definition MINUTE :: int where "MINUTE = 60000000"

definition TERMINAL_ORDER_STATUSES :: "string list" where
  "TERMINAL_ORDER_STATUSES = [''Filled'', ''Cancelled'', ''Rejected'', ''PartiallyFilledCanceled'', ''Deactivated'']"

subsection \<open>Reading fields\<close>

definition parse_decimal :: "pyval \<Rightarrow> string \<Rightarrow> decimal res" where
  "parse_decimal v name =
     (case decimal_of_val v of
        Inl _ \<Rightarrow> Inl (ValueError (name @ '' is not a number''))
      | Inr (Num x) \<Rightarrow> Inr x
      | Inr _ \<Rightarrow> Inl (ValueError (name @ '' is not finite'')))"

definition optional_decimal :: "pyval \<Rightarrow> string \<Rightarrow> decimal option res" where
  "optional_decimal v name =
     (if v = PNone \<or> v = PStr '''' then Inr None else bindE (parse_decimal v name) (\<lambda>x. Inr (Some x)))"

definition trunc :: "rat \<Rightarrow> int" where
  "trunc x = (if 0 \<le> x then \<lfloor>x\<rfloor> else \<lceil>x\<rceil>)"

text \<open>\<open>int(moment.timestamp() * 1000)\<close>: both the quotient and the product are floats.\<close>

definition millis :: "int \<Rightarrow> int" where
  "millis moment = trunc (b64 (b64 (of_int moment / 1000000) * 1000))"

text \<open>
  \<open>datetime.fromtimestamp(int(value) / 1000, tz=UTC)\<close>: the fraction of a second is scaled to
  microseconds and rounded to even; the years 1 to 9999 are representable.
\<close>

definition int_of_val :: "pyval \<Rightarrow> int res" where
  "int_of_val v =
     (case v of
        PInt n \<Rightarrow> Inr n
      | PBool b \<Rightarrow> Inr (if b then 1 else 0)
      | PFloat (Fin x) \<Rightarrow> Inr (trunc x)
      | PFloat NaN \<Rightarrow> Inl (ValueError ''cannot convert float NaN to integer'')
      | PFloat _ \<Rightarrow> Inl OverflowError
      | PStr s \<Rightarrow> (case parse_int s of None \<Rightarrow> Inl (ValueError ''invalid literal for int()'') | Some n \<Rightarrow> Inr n)
      | _ \<Rightarrow> Inl TypeError)"

definition utc_instant :: "rat \<Rightarrow> int res" where
  "utc_instant x =
     (let t = trunc x * 1000000 + rhe (b64 ((x - of_int (trunc x)) * 1000000)) in
      if - 62135596800000000 \<le> t \<and> t < 253402300800000000 then Inr t else Inl (ValueError ''year is out of range''))"

definition from_millis :: "pyval \<Rightarrow> int res" where
  "from_millis v =
     bindE (int_of_val v) (\<lambda>n.
       case fl (of_int n / 1000) of Fin x \<Rightarrow> utc_instant x | _ \<Rightarrow> Inl OverflowError)"

record raw_execution =
  r_execType :: "string option"
  r_execId :: "string option"
  r_orderId :: "string option"
  r_orderLinkId :: "string option"
  r_side :: "string option"
  r_execQty :: pyval
  r_execPrice :: pyval
  r_execValue :: pyval
  r_execFee :: pyval
  r_feeCurrency :: "string option"
  r_execTime :: pyval

definition text_or_none :: "string option \<Rightarrow> string option" where
  "text_or_none t = (case t of Some (c # cs) \<Rightarrow> Some (c # cs) | _ \<Rightarrow> None)"

definition execution_from_row :: "raw_execution \<Rightarrow> execution res" where
  "execution_from_row row =
     (let ty = (case r_execType row of None \<Rightarrow> '''' | Some s \<Rightarrow> s);
          eid = (case r_execId row of None \<Rightarrow> '''' | Some s \<Rightarrow> s)
      in
      bindE (check (eid \<noteq> '''') (ValueError ''execution row without execId'')) (\<lambda>_.
      bindE (parse_decimal (r_execQty row) ''execQty'') (\<lambda>q.
      bindE (optional_decimal (r_execPrice row) ''execPrice'') (\<lambda>p.
      bindE (optional_decimal (r_execValue row) ''execValue'') (\<lambda>v.
      bindE (parse_decimal (r_execFee row) ''execFee'') (\<lambda>fee.
      bindE (from_millis (r_execTime row)) (\<lambda>t.
      Inr \<lparr>exec_id = eid,
           exec_type = (if ty = ''Trade'' then ''trade'' else if ty = ''Funding'' then ''funding'' else lower ty),
           x_order_id = text_or_none (r_orderId row), x_order_link_id = text_or_none (r_orderLinkId row),
           x_side = text_or_none (r_side row), x_quantity = q, x_price = p, x_value = v, x_fee = fee,
           x_fee_currency = text_or_none (r_feeCurrency row), executed_at = t\<rparr>)))))))"

subsection \<open>The client\<close>

text \<open>A response is a dict with a return code (0 when absent) and a result, or something else.\<close>

datatype 'a response = Not_a_dict | Response string "'a option"

definition result_of :: "'a response \<Rightarrow> 'a res" where
  "result_of r =
     (case r of
        Not_a_dict \<Rightarrow> Inl (RuntimeError ''Bybit error'')
      | Response code payload \<Rightarrow>
          if code \<noteq> ''0'' then Inl (RuntimeError ''Bybit error'')
          else (case payload of None \<Rightarrow> Inl (RuntimeError ''Bybit response without result'') | Some x \<Rightarrow> Inr x))"

record execution_page =
  pg_list :: "raw_execution list"
  pg_next :: "string option"

record raw_funding =
  rf_timestamp :: "pyval option"
  rf_rate :: pyval

record raw_ticker =
  tk_symbol :: string
  tk_nextFundingTime :: "pyval option"
  tk_fundingRate :: pyval

record raw_order =
  ro_orderId :: string
  ro_orderStatus :: string
  ro_cumExecQty :: pyval

record bybit_client =
  execution_list :: "string \<Rightarrow> int \<Rightarrow> int \<Rightarrow> string option \<Rightarrow> execution_page response res"
  funding_list :: "string \<Rightarrow> (int \<times> int) option \<Rightarrow> nat \<Rightarrow> raw_funding list response res"
  tickers :: "string \<Rightarrow> raw_ticker list response res"
  mark_kline :: "string \<Rightarrow> int \<Rightarrow> int \<Rightarrow> (pyval \<times> pyval) list response res"
  order_history :: "string \<Rightarrow> string \<Rightarrow> raw_order list response res"
  order_realtime :: "string \<Rightarrow> string \<Rightarrow> raw_order list response res"

definition fetch :: "'a response res \<Rightarrow> 'a res" where
  "fetch call = bindE call result_of"

subsection \<open>Executions\<close>

definition add_execution :: "(string \<times> execution) list \<Rightarrow> raw_execution \<Rightarrow> (string \<times> execution) list res" where
  "add_execution rows raw = bindE (execution_from_row raw) (\<lambda>x. Inr (AList.update (exec_id x) x rows))"

fun execution_pages ::
  "nat \<Rightarrow> (string option \<Rightarrow> execution_page response res) \<Rightarrow> string option \<Rightarrow> (string \<times> execution) list \<Rightarrow>
   (string \<times> execution) list res" where
  "execution_pages 0 call cursor rows = Inl (RuntimeError ''execution list did not end'')"
| "execution_pages (Suc n) call cursor rows =
     bindE (fetch (call cursor)) (\<lambda>page.
     bindE (foldE add_execution rows (pg_list page)) (\<lambda>rows'.
       case pg_next page of
         Some (c # cs) \<Rightarrow> execution_pages n call (Some (c # cs)) rows'
       | _ \<Rightarrow> Inr rows'))"

function execution_chunks ::
  "bybit_client \<Rightarrow> string \<Rightarrow> int \<Rightarrow> int \<Rightarrow> (string \<times> execution) list \<Rightarrow> (string \<times> execution) list res" where
  "execution_chunks client market chunk_start stop_at rows =
     (if chunk_start < stop_at
      then let chunk_end = min (chunk_start + MAX_WINDOW) stop_at in
           bindE (execution_pages MAX_PAGES
                    (execution_list client market (millis chunk_start) (millis chunk_end)) None rows)
             (\<lambda>rows'. execution_chunks client market chunk_end stop_at rows')
      else Inr rows)"
  by pat_completeness auto
termination
  by (relation "measure (\<lambda>(client, market, a, b, rows). nat (b - a))") (auto simp: MAX_WINDOW_def)

declare execution_chunks.simps [simp del]

definition bybit_executions :: "bybit_client \<Rightarrow> string \<Rightarrow> int \<Rightarrow> int \<Rightarrow> execution list res" where
  "bybit_executions client market start stop_at =
     bindE (execution_chunks client market start stop_at []) (\<lambda>rows.
       Inr (sort_key (\<lambda>x. (executed_at x, exec_id x)) (map snd rows)))"

subsection \<open>Settlements\<close>

definition funding_instant :: "raw_funding \<Rightarrow> int res" where
  "funding_instant r =
     (case rf_timestamp r of None \<Rightarrow> Inl (KeyError ''fundingRateTimestamp'') | Some v \<Rightarrow> from_millis v)"

fun mapE :: "('a \<Rightarrow> 'e + 'b) \<Rightarrow> 'a list \<Rightarrow> 'e + 'b list" where
  "mapE f [] = Inr []"
| "mapE f (x # xs) = bindE (f x) (\<lambda>y. bindE (mapE f xs) (\<lambda>ys. Inr (y # ys)))"

definition keep_in_window ::
  "int \<Rightarrow> int \<Rightarrow> (int \<times> raw_funding) list \<Rightarrow> (int \<times> raw_funding) list \<Rightarrow> (int \<times> raw_funding) list" where
  "keep_in_window start stop_at found rows =
     dict_update found (filter (\<lambda>(t, r). start \<le> t \<and> t \<le> stop_at) rows)"

fun funding_pages ::
  "nat \<Rightarrow> (int \<Rightarrow> raw_funding list response res) \<Rightarrow> int \<Rightarrow> int \<Rightarrow> int \<Rightarrow> (int \<times> raw_funding) list \<Rightarrow>
   (int \<times> raw_funding) list res" where
  "funding_pages 0 call start stop_at page_end found = Inl (RuntimeError ''funding history did not end'')"
| "funding_pages (Suc n) call start stop_at page_end found =
     bindE (fetch (call (millis page_end))) (\<lambda>rows.
     bindE (mapE funding_instant rows) (\<lambda>listed.
     let found' = keep_in_window start stop_at found (zip listed rows) in
     if length listed < SETTLEMENT_PAGE then Inr found'
     else (case listed of
             [] \<Rightarrow> Inr found'
           | t # ts \<Rightarrow>
               let page_end' = list_min t ts - 1000 in
               if page_end' < start then Inr found'
               else funding_pages n call start stop_at page_end' found')))"

definition funding_history :: "bybit_client \<Rightarrow> string \<Rightarrow> int \<Rightarrow> int \<Rightarrow> (int \<times> raw_funding) list res" where
  "funding_history client market start stop_at =
     funding_pages MAX_PAGES (\<lambda>page_end. funding_list client market (Some (millis start, page_end)) SETTLEMENT_PAGE)
       start stop_at stop_at []"

definition bybit_settlements :: "bybit_client \<Rightarrow> string \<Rightarrow> int \<Rightarrow> int \<Rightarrow> int list res" where
  "bybit_settlements client market start stop_at =
     bindE (funding_history client market start stop_at) (\<lambda>found. Inr (sort (map fst found)))"

definition rate_of :: "(int \<times> raw_funding) list \<Rightarrow> int \<Rightarrow> funding_settlement res" where
  "rate_of found t =
     (case map_of found t of
        None \<Rightarrow> Inl (KeyError ''at'')
      | Some row \<Rightarrow> bindE (optional_decimal (rf_rate row) ''fundingRate'') (\<lambda>rate. Inr \<lparr>fs_at = t, fs_rate = rate\<rparr>))"

definition bybit_funding_rates :: "bybit_client \<Rightarrow> string \<Rightarrow> int \<Rightarrow> int \<Rightarrow> funding_settlement list res" where
  "bybit_funding_rates client market start stop_at =
     bindE (funding_history client market start stop_at) (\<lambda>found.
       mapE (rate_of found) (sort (map fst found)))"

definition bybit_published_to :: "bybit_client \<Rightarrow> string \<Rightarrow> int option res" where
  "bybit_published_to client market =
     bindE (fetch (funding_list client market None 1)) (\<lambda>rows.
     bindE (mapE funding_instant rows) (\<lambda>listed.
       Inr (case listed of [] \<Rightarrow> None | t # ts \<Rightarrow> Some (list_max t ts))))"

definition funding_observation :: "bybit_client \<Rightarrow> string \<Rightarrow> funding_settlement res" where
  "funding_observation client market =
     bindE (fetch (tickers client market)) (\<lambda>all.
       case filter (\<lambda>r. tk_symbol r = market) all of
         [r] \<Rightarrow>
           (case tk_nextFundingTime r of
              None \<Rightarrow> Inl (KeyError ''nextFundingTime'')
            | Some v \<Rightarrow>
                bindE (from_millis v) (\<lambda>t.
                bindE (optional_decimal (tk_fundingRate r) ''fundingRate'') (\<lambda>rate.
                  Inr \<lparr>fs_at = t, fs_rate = rate\<rparr>)))
       | _ \<Rightarrow> Inl (RuntimeError ''ticker did not identify one exact instrument''))"

definition bar_of :: "pyval \<times> pyval \<Rightarrow> (int \<times> decimal) res" where
  "bar_of r =
     bindE (from_millis (fst r)) (\<lambda>t. bindE (parse_decimal (snd r) ''mark high'') (\<lambda>h. Inr (t, h)))"

definition bybit_settlement_mark :: "bybit_client \<Rightarrow> string \<Rightarrow> int \<Rightarrow> int \<Rightarrow> decimal option res" where
  "bybit_settlement_mark client market t now =
     (let minute = t - t mod MINUTE in
      if now < minute + MINUTE then Inr None
      else
        bindE (fetch (mark_kline client market (millis (minute - MINUTE)) (millis minute))) (\<lambda>rows.
        bindE (mapE bar_of rows) (\<lambda>items.
          let bars = dict_update [] items in
          Inr (case map snd bars of
                 [] \<Rightarrow> None
               | h # hs \<Rightarrow>
                   if fst ` set bars \<noteq> {minute - MINUTE, minute} \<or> list_min h hs \<le> 0 then None
                   else Some (list_max h hs)))))"

subsection \<open>Orders\<close>

definition state_of_row :: "string \<Rightarrow> raw_order \<Rightarrow> order_state res" where
  "state_of_row oid row =
     bindE (optional_decimal (ro_cumExecQty row) ''cumExecQty'') (\<lambda>filled.
       Inr \<lparr>os_order_id = oid, os_terminal = ro_orderStatus row \<in> set TERMINAL_ORDER_STATUSES, os_filled = filled\<rparr>)"

definition bybit_order :: "bybit_client \<Rightarrow> string \<Rightarrow> string \<Rightarrow> order_state option res" where
  "bybit_order client market oid =
     bindE (fetch (order_history client market oid)) (\<lambda>history.
       case find (\<lambda>r. ro_orderId r = oid) history of
         Some row \<Rightarrow> bindE (state_of_row oid row) (\<lambda>s. Inr (Some s))
       | None \<Rightarrow>
           bindE (fetch (order_realtime client market oid)) (\<lambda>open_orders.
             case find (\<lambda>r. ro_orderId r = oid) open_orders of
               Some row \<Rightarrow> bindE (state_of_row oid row) (\<lambda>s. Inr (Some s))
             | None \<Rightarrow> Inr None))"

definition bybit_source :: "bybit_client \<Rightarrow> open_cost_source" where
  "bybit_source client =
     \<lparr>cs_executions = bybit_executions client, cs_settlements = bybit_settlements client,
      cs_published_to = bybit_published_to client, cs_order = bybit_order client,
      cs_funding_rates = bybit_funding_rates client, cs_settlement_mark = bybit_settlement_mark client\<rparr>"

subsection \<open>Milliseconds through binary floats\<close>

text \<open>On [2^40, 2^41) the floats are the multiples of 2^-12.\<close>

lemma b64_grid_40:
  assumes "2 ^ 40 \<le> y" "y < 2 ^ 41" shows "b64 y = of_int (rhe (y * 4096)) / 4096"
proof -
  have y: "y \<noteq> 0" "\<bar>y\<bar> = y" using assms by auto
  have "(2 :: rat) powi 40 < 2 powi (expo 2 y + 1)" "(2 :: rat) powi (expo 2 y) < 2 powi 41"
    using expo_bounds[of 2 y] y assms by auto
  then have "40 < expo 2 y + 1" "expo 2 y < 41"
    using powi_less_cancel[of 2 40 "expo 2 y + 1"] powi_less_cancel[of 2 "expo 2 y" 41] by simp_all
  then have "expo 2 y = 40" by simp
  then show ?thesis using y by (simp add: b64_def round_sig_def Let_def power_int_minus field_simps)
qed

text \<open>
  The conversion to milliseconds is exact on whole milliseconds from November 2004 to January 2038:
  1000 is below 1024, so the scaled error of the quotient stays under half a unit of the product.
\<close>

lemma millis_exact:
  assumes "2 ^ 40 < n" "n < 2 ^ 31 * 1000" shows "millis (n * 1000) = n"
proof -
  let ?q = "of_int n / 1000 :: rat" and ?x = "b64 (of_int n / 1000)"
  have n: "(2 :: rat) ^ 40 + 1 \<le> of_int n" "(of_int n :: rat) < 2 ^ 31 * 1000"
  proof -
    have "(of_int (2 ^ 40 + 1) :: rat) \<le> of_int n" using assms(1) by (simp only: of_int_le_iff)
    then show "(2 :: rat) ^ 40 + 1 \<le> of_int n" by simp
    have "(of_int n :: rat) < of_int (2 ^ 31 * 1000)" using assms(2) by (simp only: of_int_less_iff)
    then show "(of_int n :: rat) < 2 ^ 31 * 1000" by simp
  qed
  have "\<bar>?x - ?q\<bar> \<le> 2 powi (31 - 54)" using n by (intro b64_error) auto
  then have e: "\<bar>?x * 1000 - of_int n\<bar> \<le> 1000 / 2 ^ 23" by (simp add: abs_le_iff power_int_minus field_simps)
  have y: "2 ^ 40 \<le> ?x * 1000" "?x * 1000 < 2 ^ 41" using e[unfolded abs_le_iff] n by simp_all
  have "rhe (?x * 1000 * 4096) = n * 4096"
  proof (rule rhe_near)
    have "\<bar>?x * 1000 * 4096 - of_int (n * 4096)\<bar> = \<bar>?x * 1000 - of_int n\<bar> * 4096"
      by (simp add: abs_mult_pos left_diff_distrib)
    then show "\<bar>?x * 1000 * 4096 - of_int (n * 4096)\<bar> < 1 / 2" using e by simp
  qed
  then have "b64 (?x * 1000) = of_int n" using b64_grid_40[OF y] by simp
  moreover have "(of_int (n * 1000) / 1000000 :: rat) = ?q" by simp
  ultimately show ?thesis using n by (simp add: millis_def trunc_def)
qed

lemma trunc_mono: "x \<le> y \<Longrightarrow> trunc x \<le> trunc y"
proof -
  assume xy: "x \<le> y"
  have "\<lceil>x\<rceil> \<le> \<lfloor>y\<rfloor>" if "x < 0" "0 \<le> y"
    using that order_trans[of "\<lceil>x\<rceil>" 0 "\<lfloor>y\<rfloor>"] by simp
  then show ?thesis using xy by (auto simp: trunc_def intro: floor_mono ceiling_mono)
qed

lemma millis_mono: "a \<le> b \<Longrightarrow> millis a \<le> millis b"
  unfolding millis_def by (intro trunc_mono b64.mono mult_right_mono divide_right_mono) simp_all

lemma floor_near_fraction:
  fixes x :: rat
  assumes "0 \<le> r" "r < 1000" "\<bar>x - (of_int q + of_int r / 1000)\<bar> \<le> 1 / 4194304" "r = 0 \<longrightarrow> x = of_int q"
  shows "\<lfloor>x\<rfloor> = (q :: int)"
proof (cases "r = 0")
  case False
  have "1 / 1000 \<le> (of_int r / 1000 :: rat)" "(of_int r / 1000 :: rat) \<le> 999 / 1000"
    using assms(1,2) False by auto
  then show ?thesis using assms(3)[unfolded abs_le_iff] by (intro floor_unique) linarith+
qed (use assms(4) in simp)

text \<open>Reading milliseconds is exact from 1970 to 2106.\<close>

lemma utc_instant_exact:
  assumes "0 \<le> n" "n < 2 ^ 32 * 1000" shows "utc_instant (b64 (of_int n / 1000)) = Inr (n * 1000)"
proof -
  let ?x = "b64 (of_int n / 1000)" and ?q = "n div 1000" and ?r = "n mod 1000"
  have n: "of_int n / 1000 = (of_int ?q + of_int ?r / 1000 :: rat)"
  proof -
    have h: "(of_int n :: rat) = of_int ?q * 1000 + of_int ?r"
      by (metis div_mult_mod_eq of_int_add of_int_mult of_int_numeral)
    show ?thesis by (subst h) (simp add: add_divide_distrib)
  qed
  have lt: "(of_int n / 1000 :: rat) < 2 ^ 32"
  proof -
    have "(of_int n :: rat) < of_int (2 ^ 32 * 1000)" using assms(2) by (simp only: of_int_less_iff)
    then show ?thesis by simp
  qed
  have "\<bar>?x - of_int n / 1000\<bar> \<le> 2 powi (32 - 54)" using lt assms(1) by (intro b64_error) auto
  then have e: "\<bar>?x - (of_int ?q + of_int ?r / 1000)\<bar> \<le> 1 / 4194304"
    using n by (simp add: power_int_minus field_simps)
  have "?r = 0 \<longrightarrow> ?x = of_int ?q"
    using n b64_int[of ?q] assms by auto
  then have fl: "\<lfloor>?x\<rfloor> = ?q" using floor_near_fraction[OF _ _ e] by simp
  then have tr: "trunc ?x = ?q" using assms(1) b64.nonneg[of "of_int n / 1000"] by (simp add: trunc_def)
  let ?f = "(?x - of_int ?q) * 1000000"
  have f: "\<bar>?f - of_int (?r * 1000)\<bar> \<le> 1000000 / 2 ^ 22"
  proof -
    have "?f - of_int (?r * 1000) = (?x - (of_int ?q + of_int ?r / 1000)) * 1000000" by (simp add: field_simps)
    then have "\<bar>?f - of_int (?r * 1000)\<bar> = \<bar>?x - (of_int ?q + of_int ?r / 1000)\<bar> * 1000000"
      by (simp only: abs_mult abs_numeral)
    then show ?thesis using e by simp
  qed
  have r: "0 \<le> ?r" "?r \<le> 999" by simp_all
  have "(0 :: rat) \<le> of_int (?r * 1000)" "(of_int (?r * 1000) :: rat) \<le> 999000"
    using r by (simp_all del: of_int_mult)
  then have "\<bar>?f\<bar> < 2 powi 20" using f[unfolded abs_le_iff] by (simp add: abs_less_iff) linarith
  then have "\<bar>b64 ?f - ?f\<bar> \<le> 2 powi (20 - 54)" by (intro b64_error) simp_all
  then have "\<bar>b64 ?f - ?f\<bar> \<le> 1 / 4" by (rule order_trans) (simp add: power_int_minus)
  moreover have "\<bar>?f - of_int (?r * 1000)\<bar> < 1 / 4" using f by (rule order_le_less_trans) simp
  ultimately have "\<bar>b64 ?f - of_int (?r * 1000)\<bar> < 1 / 2"
    using abs_triangle_ineq[of "b64 ?f - ?f" "?f - of_int (?r * 1000)"] by linarith
  then have "rhe (b64 ?f) = ?r * 1000" by (rule rhe_near)
  moreover have "?q * 1000000 + ?r * 1000 = n * 1000" using div_mult_mod_eq[of n 1000] by linarith
  ultimately show ?thesis using assms by (simp add: utc_instant_def tr Let_def)
qed

lemma from_millis_exact:
  assumes "0 \<le> n" "n < 2 ^ 32 * 1000" "int_of_val v = Inr n" shows "from_millis v = Inr (n * 1000)"
proof -
  have "(of_int n :: rat) < of_int (2 ^ 32 * 1000)" using assms(2) by (simp only: of_int_less_iff)
  then have "\<bar>of_int n / 1000 :: rat\<bar> \<le> 2 ^ 33" using assms(1) by simp
  then have "\<bar>b64 (of_int n / 1000)\<bar> \<le> 2 ^ 33"
    using b64.mono[of "of_int n / 1000" "2 ^ 33"] b64_int[of "2 ^ 33"] b64.nonneg[of "of_int n / 1000"] assms(1)
    by simp
  then have "\<bar>b64 (of_int n / 1000)\<bar> < float_limit" using float_limit_large(1) by simp
  then have "fl (of_int n / 1000) = Fin (b64 (of_int n / 1000))" by (auto simp: fl_def Let_def abs_less_iff)
  then show ?thesis using assms utc_instant_exact[OF assms(1,2)] by (simp add: from_millis_def)
qed

text \<open>A decimal text of a number is read as that number.\<close>

lemma take_digits_all: "list_all is_digit s \<Longrightarrow> take_digits prev s = (s, [])"
  by (induction s arbitrary: prev) auto

lemma digit_not_space: "is_digit c \<Longrightarrow> \<not> is_space c"
  by (auto simp: is_digit_def is_space_def)

lemma strip_digits: "list_all is_digit s \<Longrightarrow> strip s = s"
proof -
  assume d: "list_all is_digit s"
  have "dropWhile is_space t = t" if "list_all is_digit t" for t
    using that by (cases t) (simp_all add: digit_not_space)
  then show ?thesis using d by (simp add: strip_def list_all_rev)
qed

lemma parse_int_str_of_nat: "parse_int (str_of_nat m) = Some (int m)"
proof -
  have d: "list_all is_digit (str_of_nat m)" by (rule list_all_digit_str_of_nat)
  have "take_sign (str_of_nat m) = (False, str_of_nat m)"
    using d by (cases "str_of_nat m") (auto simp: is_digit_def)
  then show ?thesis by (simp add: parse_int_def strip_digits[OF d] take_digits_all[OF d])
qed

text \<open>
  Times survive the exchange format: for every whole millisecond from November 2004 to January 2038,
  the number sent to Bybit is that millisecond although it is computed with two rounded float
  operations and cut off, and reading it back, as a number or as text, gives the same instant.
\<close>

theorem millis_roundtrip:
  assumes "2 ^ 40 < n" and "n < 2 ^ 31 * 1000"
  shows "millis (n * 1000) = n \<and> from_millis (PInt (millis (n * 1000))) = Inr (n * 1000) \<and>
         from_millis (PStr (str_of_nat (nat (millis (n * 1000))))) = Inr (n * 1000)"
  using assms from_millis_exact[of n] by (simp add: millis_exact int_of_val_def parse_int_str_of_nat)

theorem millis_roundtrip_witness:
  "millis 1700000000123000 = 1700000000123 \<and> from_millis (PInt 1700000000123) = Inr 1700000000123000"
  using millis_roundtrip[of 1700000000123] by auto

subsection \<open>The contract of a cost source\<close>

text \<open>What \<open>read\<close> and the attribution rely on: no execution twice, and settlement times in order.\<close>

definition leg_exec_id :: "leg \<Rightarrow> string" where
  "leg_exec_id l = (case l of Leg tid kind x \<Rightarrow> exec_id x)"

lemma leg_exec_id_Leg [simp]: "leg_exec_id (Leg tid kind x) = exec_id x"
  by (simp add: leg_exec_id_def)

definition apart :: "int list \<Rightarrow> bool" where
  "apart ts \<longleftrightarrow> (\<forall>t \<in> set ts. \<forall>t' \<in> set ts. t \<noteq> t' \<longrightarrow> 2 * FUNDING_ROW_MATCH < \<bar>t - t'\<bar>)"

lemma counted_rows_distinct:
  assumes "match_funding fc sts fe le = Inr (counted, un)" "\<not> fc_collect_unlisted fc" "apart sts"
  shows "distinct (map snd counted)" "set (map snd counted) \<subseteq> set (fc_rows fc)"
proof -
  note a = match_all_Inr[OF match_funding_Inr(1)[OF assms(1)]]
  have row: "t \<in> set sts \<and> row \<in> set (fc_rows fc) \<and> \<bar>executed_at row - t\<bar> \<le> FUNDING_ROW_MATCH"
    if "(t, row) \<in> set counted" for t row
    using a that match_settlement_closed[OF _ assms(2), of t "Counted row"]
    by (auto simp: checked_settlements_iff settlement_rows_def dest!: filter_eq_singletonD)
  then show "set (map snd counted) \<subseteq> set (fc_rows fc)" by auto
  have "t = t'" if "(t, row) \<in> set counted" "(t', row) \<in> set counted" for t t' row
    using row[OF that(1)] row[OF that(2)] assms(3) by (fastforce simp: apart_def)
  then have "inj_on snd (set counted)" by (auto intro!: inj_onI)
  moreover have "distinct (map fst counted)" using a by (simp add: checked_settlements_def)
  ultimately show "distinct (map snd counted)" by (simp add: distinct_map)
qed

lemma settle_legs_distinct:
  assumes "settle facts xs sts orders nb pub now False = Inr r" "c_status r = STATUS_COMPLETE"
    and "distinct (map exec_id xs)" "apart sts"
  shows "distinct (map leg_exec_id (legs r))"
  using settle_complete_inner[OF assms(1,2)]
proof (rule settle_inner_InrE)
  fix f fe le counted un ev xv
  assume m: "match_funding
       \<lparr>fc_entry = entry_rows facts xs, fc_exit = exit_rows facts xs, fc_rows = filter is_funding xs,
        fc_foreign = other_rows facts nb xs @ unknown_rows facts nb xs, fc_neighbours = nb, fc_now = now,
        fc_collect_unlisted = False\<rparr> sts fe le = Inr (counted, un)"
    and r: "r = \<lparr>c_status = STATUS_COMPLETE, c_error = None,
          fees_usd = Some (dsum (map exec_cost (entry_rows facts xs @ exit_rows facts xs))),
          funding_usd = Some (dsum (map exec_cost (map snd counted))),
          entry_value = Some ev, exit_value = Some xv,
          gross_pnl_usd = (if False then None
                           else Some (if tf_side facts = ''long'' then dsub xv ev else dsub ev xv)),
          legs = map (Leg (tf_trade_id facts) ''trade'') (entry_rows facts xs @ exit_rows facts xs) @
                 map (Leg (tf_trade_id facts) ''funding'') (map snd counted)\<rparr>"
  let ?rows = "entry_rows facts xs @ exit_rows facts xs @ map snd counted"
  have c: "distinct (map snd counted)" "set (map snd counted) \<subseteq> {x \<in> set xs. is_funding x}"
    using counted_rows_distinct[OF m _ assms(4)] by auto
  have "distinct ?rows"
    using c assms(3)
    by (auto simp: entry_rows_def exit_rows_def owned_rows_def is_fill_def is_funding_def distinct_map)
  moreover have "inj_on exec_id (set ?rows)"
    using assms(3) c(2)
    by (auto simp: distinct_map entry_rows_def exit_rows_def owned_rows_def intro!: inj_on_subset[of _ "set xs"])
  ultimately have "distinct (map exec_id ?rows)" by (simp only: distinct_map)
  then show ?thesis by (simp add: r comp_def)
qed

locale cost_source_laws =
  fixes source :: "'a cost_source_scheme"
  assumes executions_distinct: "cs_executions source market a b = Inr xs \<Longrightarrow> distinct (map exec_id xs)"
    and executions_sorted:
      "cs_executions source market a b = Inr xs \<Longrightarrow> sorted (map (\<lambda>x. (executed_at x, exec_id x)) xs)"
    and settlements_sorted: "cs_settlements source market a b = Inr ts \<Longrightarrow> sorted ts \<and> distinct ts"
begin

lemma read_legs_distinct:
  assumes "read_costs source facts nb now False = Inr r" "c_status r = STATUS_COMPLETE"
    and "\<And>ts. cs_settlements source (tf_native_market_id facts) (tf_sent_at facts - WINDOW_MARGIN) now = Inr ts \<Longrightarrow> apart ts"
  shows "distinct (map leg_exec_id (legs r))"
proof -
  obtain xs pub ts orders where x: "cs_executions source (tf_native_market_id facts) (tf_sent_at facts - WINDOW_MARGIN) now = Inr xs"
      "cs_settlements source (tf_native_market_id facts) (tf_sent_at facts - WINDOW_MARGIN) now = Inr ts"
    and s: "settle facts xs ts orders nb pub now False = Inr r"
    using assms(1) by (auto simp: read_costs_def Let_def res_simps)
  show ?thesis using settle_legs_distinct[OF s assms(2) executions_distinct[OF x(1)] assms(3)[OF x(2)]] .
qed

end

text \<open>The Bybit source keeps it: rows are collected in a dictionary by execution id and sorted.\<close>

definition by_id :: "(string \<times> execution) list \<Rightarrow> bool" where
  "by_id rows \<longleftrightarrow> distinct (map fst rows) \<and> (\<forall>(k, x) \<in> set rows. k = exec_id x)"

lemma in_set_update: "p \<in> set (AList.update k v d) \<Longrightarrow> p = (k, v) \<or> p \<in> set d"
  by (induction d) (auto split: if_splits)

lemma by_id_update: "by_id rows \<Longrightarrow> by_id (AList.update (exec_id x) x rows)"
  unfolding by_id_def using distinct_update in_set_update by fastforce

lemma execution_pages_by_id:
  "execution_pages n call cursor rows = Inr rows' \<Longrightarrow> by_id rows \<Longrightarrow> by_id rows'"
proof (induction n arbitrary: cursor rows)
  case (Suc n)
  obtain page where c: "fetch (call cursor) = Inr page" using Suc.prems(1) by (auto simp: res_simps)
  obtain mid where p: "foldE add_execution rows (pg_list page) = Inr mid"
    using Suc.prems(1) c by (auto simp: res_simps)
  have rest: "rows' = mid \<or> (\<exists>c cs. execution_pages n call (Some (c # cs)) mid = Inr rows')"
    using Suc.prems(1) c p by (auto split: option.splits list.splits)
  have "by_id mid"
    using p Suc.prems(2) by (rule foldE_invariant) (auto simp: add_execution_def res_simps by_id_update)
  then show ?case using rest Suc.IH by auto
qed simp

lemma execution_chunks_by_id:
  "execution_chunks client market a b rows = Inr rows' \<Longrightarrow> by_id rows \<Longrightarrow> by_id rows'"
proof (induction client market a b rows arbitrary: rows' rule: execution_chunks.induct)
  case (1 client market a b rows)
  then show ?case
    using execution_pages_by_id by (subst (asm) (2) execution_chunks.simps) (auto simp: Let_def res_simps split: if_splits)
qed

lemma mapE_Inr: "mapE f xs = Inr ys \<longleftrightarrow> map f xs = map Inr ys"
  by (induction xs arbitrary: ys) (auto simp: res_simps Cons_eq_map_conv)

lemma dict_update_distinct: "distinct (map fst d) \<Longrightarrow> distinct (map fst (dict_update d kvs))"
  unfolding dict_update_def by (induction kvs arbitrary: d) (auto simp: distinct_update)

lemma funding_pages_distinct:
  "funding_pages n call start stop_at e found = Inr found' \<Longrightarrow> distinct (map fst found) \<Longrightarrow> distinct (map fst found')"
proof (induction n arbitrary: e found)
  case (Suc n)
  obtain rows where c: "fetch (call (millis e)) = Inr rows" using Suc.prems(1) by (auto simp: res_simps)
  obtain listed where l: "mapE funding_instant rows = Inr listed" using Suc.prems(1) c by (auto simp: res_simps)
  let ?f = "keep_in_window start stop_at found (zip listed rows)"
  have d: "distinct (map fst ?f)" using Suc.prems(2) by (simp add: keep_in_window_def dict_update_distinct)
  have "found' = ?f \<or> (\<exists>e'. funding_pages n call start stop_at e' ?f = Inr found')"
    using Suc.prems(1) c l by (auto simp: Let_def split: if_splits list.splits)
  then show ?case using Suc.IH d by auto
qed simp

interpretation bybit: cost_source_laws "bybit_source client" for client
proof
  fix market a b xs ts
  show "distinct (map exec_id xs)" if h: "cs_executions (bybit_source client) market a b = Inr xs"
  proof -
    obtain rows where rows: "execution_chunks client market a b [] = Inr rows"
      and xs: "xs = sort_key (\<lambda>x. (executed_at x, exec_id x)) (map snd rows)"
      using h by (auto simp: bybit_source_def bybit_executions_def res_simps)
    have "by_id rows" using execution_chunks_by_id[OF rows] by (simp add: by_id_def)
    then have d: "distinct (map fst rows)" and m: "map exec_id (map snd rows) = map fst rows"
      by (auto simp: by_id_def)
    have "distinct (map exec_id (map snd rows))" unfolding m by (rule d)
    moreover have "mset (map exec_id xs) = mset (map exec_id (map snd rows))" by (simp only: xs mset_map mset_sort)
    ultimately show ?thesis by (metis mset_eq_imp_distinct_iff)
  qed
  show "sorted (map (\<lambda>x. (executed_at x, exec_id x)) xs)" if "cs_executions (bybit_source client) market a b = Inr xs"
    using that by (auto simp: bybit_source_def bybit_executions_def res_simps)
  show "sorted ts \<and> distinct ts" if h: "cs_settlements (bybit_source client) market a b = Inr ts"
  proof -
    obtain found where f: "funding_history client market a b = Inr found" and ts: "ts = sort (map fst found)"
      using h by (auto simp: bybit_source_def bybit_settlements_def res_simps)
    have "distinct (map fst found)" using funding_pages_distinct[OF f[unfolded funding_history_def]] by simp
    then show ?thesis by (simp add: ts)
  qed
qed

text \<open>
  No execution is charged twice: reading a closed trade from Bybit, whatever the pages overlap or
  repeat, gives a complete result whose legs are executions with pairwise different ids, provided the
  listed settlements are more than 10 s apart (they are hours apart on Bybit).
\<close>

theorem bybit_execution_charged_once:
  assumes "read_costs (bybit_source client) facts nb now False = Inr r" and "c_status r = STATUS_COMPLETE"
    and "\<And>ts. bybit_settlements client (tf_native_market_id facts) (tf_sent_at facts - WINDOW_MARGIN) now = Inr ts \<Longrightarrow> apart ts"
  shows "distinct (map leg_exec_id (legs r))"
  by (rule bybit.read_legs_distinct[OF assms(1,2)]) (simp add: bybit_source_def assms(3))

definition sample_raw :: "string \<Rightarrow> string \<Rightarrow> string \<Rightarrow> string \<Rightarrow> string \<Rightarrow> string \<Rightarrow> string \<Rightarrow> raw_execution" where
  "sample_raw ty eid oid sd v fee ms =
     \<lparr>r_execType = Some ty, r_execId = Some eid, r_orderId = Some oid, r_orderLinkId = None, r_side = Some sd,
      r_execQty = PStr ''2'', r_execPrice = PStr v, r_execValue = PStr v, r_execFee = PStr fee,
      r_feeCurrency = Some ''USDT'', r_execTime = PStr ms\<rparr>"

definition sample_client :: bybit_client where
  "sample_client =
     \<lparr>execution_list = \<lambda>market a b cursor.
        Inr (Response ''0'' (Some (if cursor = None
          then \<lparr>pg_list = [sample_raw ''Trade'' ''f2'' ''x'' ''Sell'' ''25'' ''1'' ''900000'',
                           sample_raw ''Funding'' ''s1'' '''' '''' '''' ''3'' ''500000''], pg_next = Some ''p2''\<rparr>
          else \<lparr>pg_list = [sample_raw ''Funding'' ''s1'' '''' '''' '''' ''3'' ''500000'',
                           sample_raw ''Trade'' ''f1'' ''e'' ''Buy'' ''20'' ''1'' ''100000''], pg_next = None\<rparr>))),
      funding_list = \<lambda>market window limit.
        Inr (Response ''0'' (Some (if window = None
          then [\<lparr>rf_timestamp = Some (PStr ''4000000''), rf_rate = PStr ''0.01''\<rparr>]
          else [\<lparr>rf_timestamp = Some (PStr ''500000''), rf_rate = PStr ''0.01''\<rparr>]))),
      tickers = \<lambda>market. Inr Not_a_dict, mark_kline = \<lambda>market a b. Inr Not_a_dict,
      order_history = \<lambda>market oid.
        Inr (Response ''0'' (Some [\<lparr>ro_orderId = oid, ro_orderStatus = ''Filled'', ro_cumExecQty = PStr ''2''\<rparr>])),
      order_realtime = \<lambda>market oid. Inr Not_a_dict\<rparr>"

lemma MAX_PAGES_Suc: obtains n where "MAX_PAGES = Suc (Suc n)"
  by (rule that[of 998]) (simp add: MAX_PAGES_def)

lemma sample_times:
  "from_millis (PStr ''100000'') = Inr 100000000" "from_millis (PStr ''500000'') = Inr 500000000"
  "from_millis (PStr ''900000'') = Inr 900000000" "from_millis (PStr ''4000000'') = Inr 4000000000"
proof -
  have "parse_int ''100000'' = Some 100000" "parse_int ''500000'' = Some 500000"
    "parse_int ''900000'' = Some 900000" "parse_int ''4000000'' = Some 4000000"
    by (simp_all add: parse_int_def strip_def is_space_def is_digit_def)
  then show "from_millis (PStr ''100000'') = Inr 100000000" "from_millis (PStr ''500000'') = Inr 500000000"
    "from_millis (PStr ''900000'') = Inr 900000000" "from_millis (PStr ''4000000'') = Inr 4000000000"
    using from_millis_exact[of 100000] from_millis_exact[of 500000] from_millis_exact[of 900000]
      from_millis_exact[of 4000000] by (simp_all add: int_of_val_def)
qed

lemma sample_numbers:
  "parse_decimal (PStr ''1'') f = Inr 1" "parse_decimal (PStr ''2'') f = Inr 2" "parse_decimal (PStr ''3'') f = Inr 3"
  "parse_decimal (PStr ''20'') f = Inr 20" "parse_decimal (PStr ''25'') f = Inr 25"
proof -
  have "parse_number ''1'' = Some (Num 1)" "parse_number ''2'' = Some (Num 2)" "parse_number ''3'' = Some (Num 3)"
    "parse_number ''20'' = Some (Num 20)" "parse_number ''25'' = Some (Num 25)"
    by code_simp+
  then show "parse_decimal (PStr ''1'') f = Inr 1" "parse_decimal (PStr ''2'') f = Inr 2" "parse_decimal (PStr ''3'') f = Inr 3"
    "parse_decimal (PStr ''20'') f = Inr 20" "parse_decimal (PStr ''25'') f = Inr 25"
    by (simp_all add: parse_decimal_def decimal_of_val_def)
qed

lemma sample_client_executions:
  "bybit_executions sample_client market 39000000 3000000000 = Inr (take 3 sample_executions)"
proof -
  obtain n where n: "MAX_PAGES = Suc (Suc n)" by (rule MAX_PAGES_Suc)
  have pages: "execution_pages MAX_PAGES (execution_list sample_client market a b) None [] =
      Inr [(''f2'', sample_executions ! 2), (''s1'', sample_executions ! 1), (''f1'', sample_executions ! 0)]" for a b
    by (simp add: n sample_client_def fetch_def result_of_def add_execution_def
        execution_from_row_def sample_raw_def sample_times sample_numbers optional_decimal_def text_or_none_def
        sample_executions_def sample_fill_def)
  show ?thesis
    by (simp add: bybit_executions_def execution_chunks.simps MAX_WINDOW_def pages
        sample_executions_def sample_fill_def less_eq_prod_def)
qed

lemma sample_client_settlements: "bybit_settlements sample_client market a b = Inr (if a \<le> 500000000 \<and> 500000000 \<le> b then [500000000] else [])"
proof -
  obtain n where n: "MAX_PAGES = Suc (Suc n)" by (rule MAX_PAGES_Suc)
  show ?thesis
    by (simp add: bybit_settlements_def funding_history_def n sample_client_def fetch_def result_of_def
        funding_instant_def sample_times keep_in_window_def dict_update_def SETTLEMENT_PAGE_def)
qed

lemma sample_client_reads:
  "case read_costs (bybit_source sample_client) sample_facts sample_neighbours 3000000000 False of
     Inl _ \<Rightarrow> False
   | Inr r \<Rightarrow> c_status r = STATUS_COMPLETE \<and> map leg_exec_id (legs r) = [''f1'', ''f2'', ''s1'']"
proof -
  have o: "bybit_order sample_client market oid = Inr (Some \<lparr>os_order_id = oid, os_terminal = True, os_filled = Some 2\<rparr>)"
    for market oid
    by (simp add: bybit_order_def sample_client_def fetch_def result_of_def state_of_row_def optional_decimal_def
        sample_numbers TERMINAL_ORDER_STATUSES_def)
  have w: "wanted_orders sample_facts (take 3 sample_executions) = [''e'', ''x'']" by code_simp
  have p: "bybit_published_to sample_client market = Inr (Some 4000000000)" for market
    by (simp add: bybit_published_to_def sample_client_def fetch_def result_of_def funding_instant_def sample_times)
  have s: "case settle sample_facts (take 3 sample_executions) [500000000]
        [''e'' \<mapsto> \<lparr>os_order_id = ''e'', os_terminal = True, os_filled = Some 2\<rparr>,
         ''x'' \<mapsto> \<lparr>os_order_id = ''x'', os_terminal = True, os_filled = Some 2\<rparr>]
        sample_neighbours (Some 4000000000) 3000000000 False of
      Inl _ \<Rightarrow> False
    | Inr r \<Rightarrow> c_status r = STATUS_COMPLETE \<and> map leg_exec_id (legs r) = [''f1'', ''f2'', ''s1'']"
    by code_simp
  have f: "tf_sent_at sample_facts = 99000000" by (simp add: sample_facts_def)
  show ?thesis
    using s by (simp add: read_costs_def read_orders_def bybit_source_def sample_client_executions
        sample_client_settlements o p w f WINDOW_MARGIN_def)
qed

theorem bybit_execution_charged_once_witness:
  "\<exists>r. read_costs (bybit_source sample_client) sample_facts sample_neighbours 3000000000 False = Inr r \<and>
     distinct (map leg_exec_id (legs r)) \<and> length (legs r) = 3"
proof -
  obtain r where r: "read_costs (bybit_source sample_client) sample_facts sample_neighbours 3000000000 False = Inr r"
      "c_status r = STATUS_COMPLETE" "map leg_exec_id (legs r) = [''f1'', ''f2'', ''s1'']"
    using sample_client_reads by (auto split: sum.splits)
  have "distinct (map leg_exec_id (legs r))"
    by (rule bybit_execution_charged_once[OF r(1,2)])
       (auto simp: sample_client_settlements apart_def split: if_splits)
  then show ?thesis using r(1,3) by (metis length_Cons length_map list.size(3) numeral_3_eq_3)
qed

end
