(* ===== verification/Bybit_Paging.thy ===== *)
theory Bybit_Paging
  imports Bybit_Costs
begin

text \<open>
  Completeness of the funding-history paging of \<open>BybitCostSource\<close>: the loop asks for ever older pages
  until one is short, and loses nothing at the seams.
\<close>

text \<open>
  The documented behaviour of Bybit's funding history: for a window and a limit it lists the newest
  settlements of the window, newest first, each stamped with its millisecond as text.
\<close>

definition newest :: "int set \<Rightarrow> int \<Rightarrow> int \<Rightarrow> int list" where
  "newest H a b = take SETTLEMENT_PAGE (rev (sorted_list_of_set {t \<in> H. a * 1000 \<le> t \<and> t \<le> b * 1000}))"

definition serves_history :: "bybit_client \<Rightarrow> string \<Rightarrow> int set \<Rightarrow> bool" where
  "serves_history client market H \<longleftrightarrow>
     (\<forall>a b. \<exists>rows. funding_list client market (Some (a, b)) SETTLEMENT_PAGE = Inr (Response ''0'' (Some rows)) \<and>
        map rf_timestamp rows = map (\<lambda>t. Some (PStr (str_of_nat (nat (t div 1000))))) (newest H a b))"

definition whole_millis :: "int \<Rightarrow> bool" where
  "whole_millis t \<longleftrightarrow> t mod 1000 = 0 \<and> 2 ^ 40 + 1 < t div 1000 \<and> t div 1000 < 2 ^ 31 * 1000"

lemma whole_millis_eq: "whole_millis t \<Longrightarrow> millis t * 1000 = t"
  using millis_exact[of "t div 1000"] by (auto simp: whole_millis_def minus_mod_eq_div_mult[symmetric])

lemma whole_millis_pred: "whole_millis t \<Longrightarrow> millis (t - 1000) * 1000 = t - 1000"
  using millis_exact[of "t div 1000 - 1"]
  by (auto simp: whole_millis_def minus_mod_eq_div_mult[symmetric] left_diff_distrib)

lemma funding_instant_served:
  assumes "whole_millis t" "rf_timestamp r = Some (PStr (str_of_nat (nat (t div 1000))))"
  shows "funding_instant r = Inr t"
  using assms from_millis_exact[of "t div 1000"]
  by (auto simp: funding_instant_def whole_millis_def int_of_val_def parse_int_str_of_nat minus_mod_eq_div_mult[symmetric])

lemma served_listed:
  assumes "serves_history client market H" "\<And>t. t \<in> H \<Longrightarrow> whole_millis t" "finite H"
  obtains rows where "fetch (funding_list client market (Some (a, b)) SETTLEMENT_PAGE) = Inr rows"
    "mapE funding_instant rows = Inr (newest H a b)"
proof -
  obtain rows where r: "funding_list client market (Some (a, b)) SETTLEMENT_PAGE = Inr (Response ''0'' (Some rows))"
      "map rf_timestamp rows = map (\<lambda>t. Some (PStr (str_of_nat (nat (t div 1000))))) (newest H a b)"
    using assms(1) unfolding serves_history_def by blast
  have len: "length rows = length (newest H a b)" using r(2) by (metis length_map)
  have "funding_instant (rows ! i) = Inr (newest H a b ! i)" if "i < length rows" for i
  proof (rule funding_instant_served)
    have "newest H a b ! i \<in> H"
      using that len assms(3) nth_mem[of i "newest H a b"] by (auto simp: newest_def dest!: in_set_takeD)
    then show "whole_millis (newest H a b ! i)" by (rule assms(2))
    show "rf_timestamp (rows ! i) = Some (PStr (str_of_nat (nat (newest H a b ! i div 1000))))"
      using arg_cong[OF r(2), of "\<lambda>l. l ! i"] that len by simp
  qed
  then have "map funding_instant rows = map Inr (newest H a b)" using len by (intro nth_equalityI) simp_all
  then show thesis using that[of rows] r(1) by (simp add: fetch_def result_of_def mapE_Inr)
qed

text \<open>A full page is everything from its oldest settlement on.\<close>

lemma newest_full:
  assumes "finite H" "length (newest H a b) \<ge> SETTLEMENT_PAGE" "m = Min (set (newest H a b))"
  shows "set (newest H a b) = {t \<in> H. a * 1000 \<le> t \<and> t \<le> b * 1000 \<and> m \<le> t}"
    "m \<in> H" "a * 1000 \<le> m" "m \<le> b * 1000"
proof -
  let ?S = "{t \<in> H. a * 1000 \<le> t \<and> t \<le> b * 1000}"
  let ?xs = "rev (sorted_list_of_set ?S)"
  let ?new = "take SETTLEMENT_PAGE ?xs" and ?old = "drop SETTLEMENT_PAGE ?xs"
  have S: "set ?xs = ?S" using assms(1) by simp
  have "sorted_wrt (>) ?xs" by (simp add: sorted_wrt_rev strict_sorted_list_of_set)
  then have sep: "y < x" if "x \<in> set ?new" "y \<in> set ?old" for x y
    using that sorted_wrt_append[of "(>)" ?new ?old] by (simp only: append_take_drop_id) blast
  have "newest H a b \<noteq> []" using assms(2) by (auto simp: SETTLEMENT_PAGE_def)
  then have ne: "set (newest H a b) \<noteq> {}" by simp
  then have m: "m \<in> set ?new" using assms(3) Min_in[of "set (newest H a b)"] by (simp add: newest_def)
  then have mS: "m \<in> ?S" using S set_take_subset[of SETTLEMENT_PAGE ?xs] by blast
  show "m \<in> H" "a * 1000 \<le> m" "m \<le> b * 1000" using mS by auto
  have low: "m \<le> t" if "t \<in> set ?new" for t using that assms(3) by (simp add: newest_def)
  have split: "set ?new \<union> set ?old = ?S" using S by (metis append_take_drop_id set_append)
  have "set ?new = {t \<in> ?S. m \<le> t}" using split low sep[OF m] by fastforce
  then show "set (newest H a b) = {t \<in> H. a * 1000 \<le> t \<and> t \<le> b * 1000 \<and> m \<le> t}" by (auto simp: newest_def)
qed

lemma newest_short:
  assumes "finite H" "length (newest H a b) < SETTLEMENT_PAGE"
  shows "set (newest H a b) = {t \<in> H. a * 1000 \<le> t \<and> t \<le> b * 1000}"
  using assms by (simp add: newest_def)

lemma keep_in_window_keys:
  "length rows = length listed \<Longrightarrow>
     fst ` set (keep_in_window a b found (zip listed rows)) = fst ` set found \<union> {t \<in> set listed. a \<le> t \<and> t \<le> b}"
  unfolding keep_in_window_def keys_dict_update
  by (auto simp: in_set_zip in_set_conv_nth image_iff) force

text \<open>The settlements a page may list, and those the loop wants.\<close>

definition pageable :: "int set \<Rightarrow> int \<Rightarrow> int \<Rightarrow> int set" where
  "pageable H start e = {t \<in> H. millis start * 1000 \<le> t \<and> t \<le> millis e * 1000}"

definition wanted :: "int set \<Rightarrow> int \<Rightarrow> int \<Rightarrow> int set" where
  "wanted H a b = {t \<in> H. a \<le> t \<and> t \<le> b}"

lemma pageable_covers:
  assumes "\<And>t. t \<in> H \<Longrightarrow> whole_millis t" shows "wanted H start e \<subseteq> pageable H start e"
proof
  fix t assume t: "t \<in> wanted H start e"
  then have "millis start \<le> millis t" "millis t \<le> millis e" by (auto simp: wanted_def intro: millis_mono)
  then show "t \<in> pageable H start e"
    using t whole_millis_eq[OF assms[of t]] by (auto simp: wanted_def pageable_def)
qed

text \<open>The next page starts one millisecond below the oldest settlement listed.\<close>

lemma next_page:
  assumes "whole_millis m" "m \<le> millis e * 1000" shows "m - 1000 \<le> e"
proof (rule ccontr)
  assume "\<not> ?thesis"
  then have "millis e \<le> millis (m - 1000)" by (intro millis_mono) simp
  then show False using whole_millis_pred[OF assms(1)] assms(2) by simp
qed

lemma above_previous:
  assumes "whole_millis t" "whole_millis m" "m - 1000 < t" shows "m \<le> t"
proof -
  obtain a b where "t = 1000 * a" "m = 1000 * b"
    using assms(1,2) by (auto simp: whole_millis_def mod_0_imp_dvd elim!: dvdE)
  then show ?thesis using assms(3) by simp
qed

lemma funding_pages_complete:
  assumes srv: "serves_history client market H" and whole: "\<And>t. t \<in> H \<Longrightarrow> whole_millis t" and fin: "finite H"
    and "card (pageable H start e) < SETTLEMENT_PAGE * n" "e \<le> stop_at"
    and "fst ` set found = {t \<in> wanted H start stop_at. e < t}"
  shows "\<exists>found'. funding_pages n (\<lambda>pe. funding_list client market (Some (millis start, pe)) SETTLEMENT_PAGE)
            start stop_at e found = Inr found' \<and> fst ` set found' = wanted H start stop_at"
  using assms(4-6)
proof (induction n arbitrary: e found)
  case (Suc n)
  let ?L = "newest H (millis start) (millis e)"
  obtain rows where rows: "fetch (funding_list client market (Some (millis start, millis e)) SETTLEMENT_PAGE) = Inr rows"
    and listed: "mapE funding_instant rows = Inr ?L"
    using srv whole fin by (rule served_listed)
  have len: "length rows = length ?L" using listed by (metis length_map mapE_Inr)
  let ?f = "keep_in_window start stop_at found (zip ?L rows)"
  have keys: "fst ` set ?f = {t \<in> wanted H start stop_at. e < t} \<union> {t \<in> set ?L. start \<le> t \<and> t \<le> stop_at}"
    using keep_in_window_keys[OF len] Suc.prems(3) by simp
  have cov: "wanted H start e \<subseteq> pageable H start e" using whole by (rule pageable_covers)
  show ?case
  proof (cases "length ?L < SETTLEMENT_PAGE")
    case True
    then have "set ?L = pageable H start e" using newest_short[OF fin] by (auto simp: pageable_def)
    then have "fst ` set ?f = wanted H start stop_at"
      using keys cov by (auto simp: wanted_def pageable_def not_less)
    then show ?thesis using rows listed True by simp
  next
    case False
    define m where "m = Min (set ?L)"
    have full: "set ?L = {t \<in> pageable H start e. m \<le> t}" and m: "m \<in> H" "m \<le> millis e * 1000"
      using newest_full[OF fin, of "millis start" "millis e" m] False by (auto simp: m_def pageable_def)
    obtain t ts where tts: "?L = t # ts" using False by (cases ?L) (auto simp: SETTLEMENT_PAGE_def)
    have min: "list_min t ts = m"
    proof -
      have "list_min t ts = Min (set (t # ts))"
        using list_min_in[of t ts] list_min_le_init[of t ts] list_min_le[of _ ts t]
        by (intro Min_eqI[symmetric]) auto
      then show ?thesis by (simp add: m_def tts)
    qed
    have below: "m - 1000 \<le> e" using next_page[OF whole[OF m(1)] m(2)] .
    have keys': "fst ` set ?f = {t \<in> wanted H start stop_at. m - 1000 < t}"
    proof (intro set_eqI iffI)
      fix x assume "x \<in> fst ` set ?f"
      then consider "x \<in> wanted H start stop_at" "e < x" | "x \<in> set ?L" "start \<le> x" "x \<le> stop_at"
        unfolding keys by blast
      then show "x \<in> {t \<in> wanted H start stop_at. m - 1000 < t}"
        by cases (use below full in \<open>simp_all add: wanted_def pageable_def\<close>)
    next
      fix x assume x: "x \<in> {t \<in> wanted H start stop_at. m - 1000 < t}"
      then have "m \<le> x" using above_previous[OF whole whole[OF m(1)]] by (simp add: wanted_def)
      moreover have "x \<in> pageable H start e" if "x \<le> e"
        using x that cov by (auto simp: wanted_def)
      ultimately show "x \<in> fst ` set ?f"
        unfolding keys using x full by (cases "x \<le> e") (simp_all add: wanted_def)
    qed
    show ?thesis
    proof (cases "m - 1000 < start")
      case True
      then have "fst ` set ?f = wanted H start stop_at" using keys' by (auto simp: wanted_def)
      then show ?thesis unfolding funding_pages.simps rows bindE_Inr listed using False tts min True by (simp add: Let_def)
    next
      case older: False
      have sub: "pageable H start (m - 1000) \<subseteq> pageable H start e - set ?L"
        unfolding full using whole_millis_pred[OF whole[OF m(1)]] m(2) by (auto simp: pageable_def)
      have finp: "finite (pageable H start e)" using fin by (simp add: pageable_def)
      have "distinct ?L" by (simp add: newest_def)
      then have "card (set ?L) \<ge> SETTLEMENT_PAGE" using False by (simp add: distinct_card)
      moreover have "card (pageable H start (m - 1000)) + card (set ?L) \<le> card (pageable H start e)"
      proof -
        have L: "set ?L \<subseteq> pageable H start e" unfolding full by blast
        have "card (pageable H start (m - 1000)) \<le> card (pageable H start e - set ?L)"
          using sub finp by (intro card_mono) simp_all
        then show ?thesis using card_Diff_subset[OF _ L] card_mono[OF finp L] by simp
      qed
      ultimately have "card (pageable H start (m - 1000)) < SETTLEMENT_PAGE * n" using Suc.prems(1) by simp
      then have "\<exists>found'. funding_pages n (\<lambda>pe. funding_list client market (Some (millis start, pe)) SETTLEMENT_PAGE)
            start stop_at (m - 1000) ?f = Inr found' \<and> fst ` set found' = wanted H start stop_at"
        using Suc.IH[OF _ _ keys'] below Suc.prems(2) by simp
      then show ?thesis unfolding funding_pages.simps rows bindE_Inr listed using False tts min older by (simp add: Let_def)
    qed
  qed
qed simp

text \<open>
  C32. The settlement list is complete: if the exchange answers as documented from a history of fewer
  than 200,000 settlements on whole milliseconds, reading any window ends and returns every settlement
  of the window exactly once, in order, whatever the number of pages and wherever they are cut.
\<close>

theorem settlements_paging_complete:
  assumes "serves_history client market H" and "finite H" and "card H < 200000"
    and "\<And>t. t \<in> H \<Longrightarrow> whole_millis t"
  shows "bybit_settlements client market start stop_at = Inr (sorted_list_of_set {t \<in> H. start \<le> t \<and> t \<le> stop_at})"
proof -
  have "card (pageable H start stop_at) \<le> card H" using assms(2) by (intro card_mono) (auto simp: pageable_def)
  then have c: "card (pageable H start stop_at) < SETTLEMENT_PAGE * MAX_PAGES"
    using assms(3) by (simp add: SETTLEMENT_PAGE_def MAX_PAGES_def)
  obtain found where f: "funding_history client market start stop_at = Inr found"
      "fst ` set found = wanted H start stop_at"
    using funding_pages_complete[OF assms(1,4,2) c order_refl, of "[]"]
    by (auto simp: funding_history_def wanted_def)
  have "distinct (map fst found)" using funding_pages_distinct[OF f(1)[unfolded funding_history_def]] by simp
  then have "sort (map fst found) = sorted_list_of_set (set (map fst found))"
    by (simp only: sorted_list_of_set_sort_remdups distinct_remdups_id)
  then show ?thesis using f by (simp add: bybit_settlements_def wanted_def)
qed

definition sample_history :: "int set" where
  "sample_history = {1700000000000000, 1700028800000000}"

text \<open>A client that serves a given history by the book.\<close>

definition history_client :: "int set \<Rightarrow> bybit_client" where
  "history_client H = sample_client\<lparr>funding_list := \<lambda>market window limit.
     Inr (Response ''0'' (Some (case window of
       None \<Rightarrow> []
     | Some (a, b) \<Rightarrow> map (\<lambda>t. \<lparr>rf_timestamp = Some (PStr (str_of_nat (nat (t div 1000)))), rf_rate = PNone\<rparr>)
         (newest H a b))))\<rparr>"

theorem settlements_paging_complete_witness:
  "bybit_settlements (history_client sample_history) ''AUSDT'' 1700000000000001 1700030000000000 =
     Inr [1700028800000000]"
proof -
  have "serves_history (history_client sample_history) ''AUSDT'' sample_history"
    by (auto simp: serves_history_def history_client_def)
  moreover have "whole_millis t" if "t \<in> sample_history" for t
    using that by (auto simp: sample_history_def whole_millis_def)
  moreover have "{t \<in> sample_history. 1700000000000001 \<le> t \<and> t \<le> 1700030000000000} = {1700028800000000}"
    by (auto simp: sample_history_def)
  ultimately show ?thesis
    using settlements_paging_complete[of "history_client sample_history" "''AUSDT''" sample_history
        1700000000000001 1700030000000000]
    by (simp add: sample_history_def)
qed

end
