(* ===== verification/Py_State.thy ===== *)
theory Py_State
  imports Prelude
begin

text \<open>
  Code that changes a store and may raise: a program maps a state to a result and the state it leaves,
  so that what was written before an exception stays written. The rules below carry facts about the
  final state through sequencing.
\<close>

named_theorems prog_simps \<open>evaluation of programs\<close>

type_synonym ('s, 'a) prog = "'s \<Rightarrow> 'a res \<times> 's"

definition ret :: "'a \<Rightarrow> ('s, 'a) prog" where
  "ret x = (\<lambda>s. (Inr x, s))"

definition bindS :: "('s, 'a) prog \<Rightarrow> ('a \<Rightarrow> ('s, 'b) prog) \<Rightarrow> ('s, 'b) prog" where
  "bindS m f = (\<lambda>s. case m s of (Inl e, t) \<Rightarrow> (Inl e, t) | (Inr x, t) \<Rightarrow> f x t)"

text \<open>A pure computation that may raise, and reading and changing the state.\<close>

definition pureS :: "'a res \<Rightarrow> ('s, 'a) prog" where
  "pureS r = (\<lambda>s. (r, s))"

definition readS :: "('s \<Rightarrow> 'a) \<Rightarrow> ('s, 'a) prog" where
  "readS g = (\<lambda>s. (Inr (g s), s))"

definition modifyS :: "('s \<Rightarrow> 's) \<Rightarrow> ('s, unit) prog" where
  "modifyS g = (\<lambda>s. (Inr (), g s))"

text \<open>\<open>try\<close> with a handler for every exception.\<close>

definition tryS :: "('s, 'a) prog \<Rightarrow> (py_error \<Rightarrow> ('s, 'a) prog) \<Rightarrow> ('s, 'a) prog" where
  "tryS m h = (\<lambda>s. case m s of (Inl e, t) \<Rightarrow> h e t | (Inr x, t) \<Rightarrow> (Inr x, t))"

lemma ret_apply [prog_simps]: "ret x s = (Inr x, s)"
  by (simp add: ret_def)

lemma pureS_apply [prog_simps]: "pureS r s = (r, s)"
  by (simp add: pureS_def)

lemma readS_apply [prog_simps]: "readS g s = (Inr (g s), s)"
  by (simp add: readS_def)

lemma modifyS_apply [prog_simps]: "modifyS g s = (Inr (), g s)"
  by (simp add: modifyS_def)

lemma bindS_apply [prog_simps]:
  "bindS m f s = (case m s of (Inl e, t) \<Rightarrow> (Inl e, t) | (Inr x, t) \<Rightarrow> f x t)"
  by (simp add: bindS_def)

lemma bindS_cong [fundef_cong]:
  "m s = m' s' \<Longrightarrow> s = s' \<Longrightarrow> (\<And>x t. m' s' = (Inr x, t) \<Longrightarrow> f x t = f' x t) \<Longrightarrow> bindS m f s = bindS m' f' s'"
  by (auto simp: bindS_def split: prod.splits sum.splits)

lemma bind_ret: "bindS m ret = m"
  by (auto simp: fun_eq_iff bindS_def ret_def split: prod.splits sum.splits)

lemma bindS_InrE:
  assumes "bindS m f s = (Inr y, t)"
  obtains x u where "m s = (Inr x, u)" "f x u = (Inr y, t)"
  using assms by (auto simp: bindS_def split: prod.splits sum.splits)

subsection \<open>Reasoning about programs\<close>

text \<open>\<open>ends P m Q\<close>: started where \<open>P\<close> holds, the result and the final state satisfy \<open>Q\<close>, raised or not.\<close>

definition ends :: "('s \<Rightarrow> bool) \<Rightarrow> ('s, 'a) prog \<Rightarrow> ('a res \<Rightarrow> 's \<Rightarrow> bool) \<Rightarrow> bool" where
  "ends P m Q \<longleftrightarrow> (\<forall>s. P s \<longrightarrow> (case m s of (r, t) \<Rightarrow> Q r t))"

lemma endsI: "(\<And>s r t. P s \<Longrightarrow> m s = (r, t) \<Longrightarrow> Q r t) \<Longrightarrow> ends P m Q"
  by (auto simp: ends_def)

lemma endsD: "ends P m Q \<Longrightarrow> P s \<Longrightarrow> m s = (r, t) \<Longrightarrow> Q r t"
  by (auto simp: ends_def)

lemma ends_bind:
  assumes "ends P m (\<lambda>r t. case r of Inl e \<Rightarrow> Q (Inl e) t | Inr x \<Rightarrow> R x t)"
    and "\<And>x. ends (R x) (f x) Q"
  shows "ends P (bindS m f) Q"
proof (rule endsI)
  fix s r t assume s: "P s" and run: "bindS m f s = (r, t)"
  obtain q u where m: "m s = (q, u)" by force
  note mid = endsD[OF assms(1) s m]
  show "Q r t"
  proof (cases q)
    case (Inl e)
    then show ?thesis using run m mid by (simp add: bindS_def)
  next
    case (Inr x)
    then have "f x u = (r, t)" "R x u" using run m mid by (simp_all add: bindS_def)
    then show ?thesis using endsD[OF assms(2)] by blast
  qed
qed

lemma ends_ret: "(\<And>s. P s \<Longrightarrow> Q (Inr x) s) \<Longrightarrow> ends P (ret x) Q"
  by (simp add: ends_def ret_def)

lemma ends_pure: "(\<And>s. P s \<Longrightarrow> Q r s) \<Longrightarrow> ends P (pureS r) Q"
  by (simp add: ends_def pureS_def)

lemma ends_bind_pure:
  "(\<And>e s. r = Inl e \<Longrightarrow> P s \<Longrightarrow> Q (Inl e) s) \<Longrightarrow> (\<And>x. r = Inr x \<Longrightarrow> ends P (f x) Q) \<Longrightarrow> ends P (bindS (pureS r) f) Q"
  by (cases r) (simp_all add: ends_def bindS_def pureS_def)

lemma ends_weaken: "ends P' m Q' \<Longrightarrow> (\<And>s. P s \<Longrightarrow> P' s) \<Longrightarrow> (\<And>r t. Q' r t \<Longrightarrow> Q r t) \<Longrightarrow> ends P m Q"
proof (rule endsI)
  fix s r t assume "ends P' m Q'" "\<And>s. P s \<Longrightarrow> P' s" "\<And>r t. Q' r t \<Longrightarrow> Q r t" "P s" "m s = (r, t)"
  then show "Q r t" using endsD[of P' m Q' s r t] by blast
qed

text \<open>Invariants: kept whatever the result.\<close>

abbreviation keeps :: "('s \<Rightarrow> bool) \<Rightarrow> ('s, 'a) prog \<Rightarrow> bool" where
  "keeps I m \<equiv> ends I m (\<lambda>r t. I t)"

lemma keeps_bind: "keeps I m \<Longrightarrow> (\<And>x. keeps I (f x)) \<Longrightarrow> keeps I (bindS m f)"
  by (rule ends_bind[where R = "\<lambda>_. I"]) (simp_all add: ends_def case_prod_unfold sum.case_eq_if)

lemma keeps_pure [simp]: "keeps I (pureS r)"
  by (simp add: ends_pure)

lemma keeps_ret [simp]: "keeps I (ret x)"
  by (simp add: ends_ret)

lemma keeps_read [simp]: "keeps I (readS g)"
  by (simp add: ends_def readS_def)

lemma keeps_try: "keeps I m \<Longrightarrow> (\<And>e. keeps I (h e)) \<Longrightarrow> keeps I (tryS m h)"
proof (rule endsI)
  fix s r t assume m: "keeps I m" and h: "\<And>e. keeps I (h e)" and s: "I s" and run: "tryS m h s = (r, t)"
  obtain q u where q: "m s = (q, u)" by force
  have u: "I u" using endsD[OF m s q] .
  show "I t" using run q u endsD[OF h u] by (cases q) (auto simp: tryS_def)
qed

end
