(* ===== verification/Emergency_Close.thy ===== *)
theory Emergency_Close
  imports Exchange_Orders Order_Ids Py_State
begin

text \<open>
  The emergency close executor (\<open>emergency_close.py\<close>): one pass over a durable task that flattens a
  position, against an arbitrary store. The protocol class \<open>EmergencyCloseStore\<close> is a record of
  operations, what a pass sees of the exchange and of the order lock is a record of replies, and every
  external action is logged together with the store as it stood at that moment. The wording of alerts
  and of the stored error texts is left out. Instants are microseconds.
\<close>

datatype task_status =
    STATUS_REQUESTED | STATUS_SENDING | STATUS_UNKNOWN | STATUS_CONFIRMED_FLAT | STATUS_ACCOUNTED
  | STATUS_MANUAL_REQUIRED

definition RUNNABLE_STATUSES :: "task_status list" where
  "RUNNABLE_STATUSES = [STATUS_REQUESTED, STATUS_SENDING, STATUS_UNKNOWN]"

definition ACTIVE_STATUSES :: "task_status list" where
  "ACTIVE_STATUSES = RUNNABLE_STATUSES @ [STATUS_MANUAL_REQUIRED]"

record task_spec =
  ts_source_attempt_id :: int
  ts_entry_client_order_id :: string
  ts_exchange :: string
  ts_base :: string
  ts_symbol :: string
  ts_native_market_id :: string
  ts_market_type :: string
  ts_side :: string
  ts_owned_quantity :: number
  ts_reason :: string
  ts_trade_id :: "int option"

record adopted_close =
  ac_client_order_id :: string
  ac_status :: attempt_status
  ac_order_id :: "string option"
  ac_requested_amount :: "number option"
  ac_filled_amount :: "number option"

record close_task =
  tk_id :: int
  tk_source_attempt_id :: int
  tk_entry_client_order_id :: string
  tk_exchange :: string
  tk_base :: string
  tk_symbol :: string
  tk_native_market_id :: string
  tk_market_type :: string
  tk_side :: string
  tk_trade_id :: "int option"
  tk_owned_quantity :: number
  tk_owned_remainder :: number
  tk_reason :: string
  tk_status :: task_status
  tk_rejected_sends :: int
  tk_confirmed_flat_at :: "int option"

record close_order =
  co_attempt_id :: int
  co_client_order_id :: string
  co_status :: attempt_status
  co_order_id :: "string option"
  co_requested_amount :: "number option"
  co_filled_amount :: "number option"
  co_created_at :: int

record recovery_candidate =
  rc_attempt_id :: int
  rc_entry_client_order_id :: string
  rc_exchange :: string
  rc_base :: string
  rc_symbol :: string
  rc_native_market_id :: string
  rc_market_type :: string
  rc_side :: string

record 's store_ops =
  so_create_task :: "task_spec \<Rightarrow> adopted_close list \<Rightarrow> ('s, int \<times> bool) prog"
  so_link_late_closes :: "close_task \<Rightarrow> ('s, string option) prog"
  so_runnable_task_ids :: "('s, int list) prog"
  so_claim :: "int \<Rightarrow> string \<Rightarrow> int \<Rightarrow> ('s, close_task option) prog"
  so_load_closes :: "int \<Rightarrow> ('s, close_order list) prog"
  so_record_close_intent :: "close_task \<Rightarrow> string \<Rightarrow> number \<Rightarrow> number \<Rightarrow> number \<Rightarrow> ('s, int) prog"
  so_mark_close :: "int \<Rightarrow> attempt_status \<Rightarrow> string option \<Rightarrow> number option \<Rightarrow> ('s, unit) prog"
  so_update_task :: "close_task \<Rightarrow> string \<Rightarrow> task_status \<Rightarrow> number \<Rightarrow> int \<Rightarrow> bool \<Rightarrow> ('s, unit) prog"
  so_recovery_candidates :: "('s, recovery_candidate list) prog"

definition close_unknown :: "attempt_status \<Rightarrow> bool" where
  "close_unknown st \<longleftrightarrow> st \<in> {Att_pending, Att_submission_unknown}"

definition close_filled_status :: "attempt_status \<Rightarrow> bool" where
  "close_filled_status st \<longleftrightarrow> st \<in> {Att_completed, Att_partial}"

definition TOLERANCE :: number where
  "TOLERANCE = Num (1 / 100000000)"

definition adopted_close_of :: "order \<Rightarrow> adopted_close res" where
  "adopted_close_of ord =
     bindE (attempt_state_from_order ord) (\<lambda>(st, filled, err).
       Inr \<lparr>ac_client_order_id = (case client_order_id ord of None \<Rightarrow> ''None'' | Some c \<Rightarrow> c), ac_status = st,
            ac_order_id = o_id ord, ac_requested_amount = decimal_or_none (o_amount ord),
            ac_filled_amount = filled\<rparr>)"

definition same_quantity :: "number \<Rightarrow> number \<Rightarrow> bool res" where
  "same_quantity l r = bindE (nsub l r) (\<lambda>d. nle (nabs d) TOLERANCE)"

definition close_side :: "string \<Rightarrow> string" where
  "close_side position_side = (if position_side = ''short'' then ''buy'' else ''sell'')"

subsection \<open>What a pass sees and does\<close>

datatype create_reply = Created order | Network_error | Exchange_error | Other_error

record raw_position =
  rp_symbol :: "string option"
  rp_side :: "string option"
  rp_contracts :: pyval
  rp_markPrice :: pyval

record pass_env =
  pe_configured :: bool
  pe_now :: int
  pe_listing :: "string \<Rightarrow> order_source"
  pe_stops :: order_source
  pe_positions :: "raw_position list res"
  pe_cancel :: "string \<Rightarrow> unit res"
  pe_precision :: "pyfloat \<Rightarrow> pyval res"
  pe_contract_size :: pyval
  pe_create :: "string \<Rightarrow> pyfloat \<Rightarrow> string \<Rightarrow> create_reply"
  pe_lock :: "bool res"
  pe_lease_lost :: bool

datatype effect = Create string number string | Cancel string | Alert

text \<open>The store, every external action with the store at that moment, and the worker's run counter.\<close>

record 's world =
  w_store :: 's
  w_log :: "(effect \<times> 's) list"
  w_runs :: int

record executor =
  ex_owner :: string
  ex_claim_seconds :: int
  ex_unknown_deadline :: int
  ex_max_rejected_sends :: int

definition in_store :: "('s, 'a) prog \<Rightarrow> ('s world, 'a) prog" where
  "in_store m = (\<lambda>w. case m (w_store w) of (r, s) \<Rightarrow> (r, w\<lparr>w_store := s\<rparr>))"

definition act :: "effect \<Rightarrow> ('s world, unit) prog" where
  "act e = modifyS (\<lambda>w. w\<lparr>w_log := w_log w @ [(e, w_store w)]\<rparr>)"

definition set_status ::
  "'s store_ops \<Rightarrow> executor \<Rightarrow> close_task \<Rightarrow> task_status \<Rightarrow> bool \<Rightarrow> ('s world, task_status) prog" where
  "set_status ops ex task st release =
     bindS (in_store (so_update_task ops task (ex_owner ex) st (tk_owned_remainder task) (tk_rejected_sends task) release))
       (\<lambda>_. ret st)"

definition manual :: "'s store_ops \<Rightarrow> executor \<Rightarrow> close_task \<Rightarrow> ('s world, task_status) prog" where
  "manual ops ex task =
     bindS (set_status ops ex task STATUS_MANUAL_REQUIRED True) (\<lambda>st. bindS (act Alert) (\<lambda>_. ret st))"

definition follow_close ::
  "'s store_ops \<Rightarrow> pass_env \<Rightarrow> close_order \<Rightarrow> ('s world, close_order) prog" where
  "follow_close ops env close =
     (if close_unknown (co_status close) \<or> co_status close = Att_accepted
      then bindS (pureS (find_by_client_order_id (pe_listing env (co_client_order_id close)) (co_client_order_id close)))
        (\<lambda>found. case found of
           None \<Rightarrow> ret close
         | Some ord \<Rightarrow>
             bindS (pureS (attempt_state_from_order ord)) (\<lambda>(st, filled, err).
             bindS (in_store (so_mark_close ops (co_attempt_id close) st (o_id ord) filled)) (\<lambda>_.
             ret (close\<lparr>co_status := st, co_order_id := or_text (o_id ord) (co_order_id close),
                        co_filled_amount := (case filled of None \<Rightarrow> co_filled_amount close | Some f \<Rightarrow> Some f)\<rparr>))))
      else ret close)"

fun follow_each ::
  "'s store_ops \<Rightarrow> pass_env \<Rightarrow> close_order list \<Rightarrow> ('s world, close_order list) prog" where
  "follow_each ops env [] = ret []"
| "follow_each ops env (c # cs) =
     bindS (follow_close ops env c) (\<lambda>c'. bindS (follow_each ops env cs) (\<lambda>cs'. ret (c' # cs')))"

definition follow_closes ::
  "'s store_ops \<Rightarrow> pass_env \<Rightarrow> close_task \<Rightarrow> ('s world, close_order list) prog" where
  "follow_closes ops env task = bindS (in_store (so_load_closes ops (tk_id task))) (follow_each ops env)"

fun nsum_from :: "number \<Rightarrow> number list \<Rightarrow> number res" where
  "nsum_from acc [] = Inr acc"
| "nsum_from acc (x # xs) = bindE (nadd acc x) (\<lambda>a. nsum_from a xs)"

definition nsum :: "number list \<Rightarrow> number res" where
  "nsum xs = nsum_from (Num 0) xs"

text \<open>\<open>decimal_or_none(order.get("filled")) or Decimal(0)\<close> is the fill of an order.\<close>

definition stop_filled :: "order list \<Rightarrow> number res" where
  "stop_filled stops = nsum (map fill_of (filter is_terminal stops))"

fun any_positive :: "number list \<Rightarrow> bool res" where
  "any_positive [] = Inr False"
| "any_positive (x # xs) = bindE (nlt (Num 0) x) (\<lambda>b. if b then Inr True else any_positive xs)"

definition close_filled :: "close_order list \<Rightarrow> number res" where
  "close_filled closes =
     nsum (map (\<lambda>c. case co_filled_amount c of None \<Rightarrow> Num 0 | Some f \<Rightarrow> f)
            (filter (\<lambda>c. close_filled_status (co_status c)) closes))"

text \<open>\<open>max(Decimal(0), owned - close_filled - stop_filled)\<close>.\<close>

definition owned_remainder :: "close_task \<Rightarrow> number \<Rightarrow> number \<Rightarrow> number res" where
  "owned_remainder task by_closes stopped =
     bindE (nsub (tk_owned_quantity task) by_closes) (\<lambda>a.
     bindE (nsub a stopped) (\<lambda>b.
     bindE (nlt (Num 0) b) (\<lambda>pos. Inr (if pos then b else Num 0))))"

record position =
  po_contracts :: number
  po_opposite_side :: bool
  po_mark_price :: "number option"

fun position_from :: "close_task \<Rightarrow> position \<Rightarrow> raw_position list \<Rightarrow> position res" where
  "position_from task p [] = Inr p"
| "position_from task p (r # rs) =
     (if rp_symbol r \<noteq> Some (tk_symbol task) then position_from task p rs
      else
        let contracts = (case decimal_or_none (rp_contracts r) of None \<Rightarrow> Num 0 | Some d \<Rightarrow> d) in
        bindE (nle contracts (Num 0)) (\<lambda>empty.
          if empty then position_from task p rs
          else if rp_side r = Some (tk_side task)
          then bindE (nadd (po_contracts p) contracts) (\<lambda>c.
                 position_from task (p\<lparr>po_contracts := c, po_mark_price := decimal_or_none (rp_markPrice r)\<rparr>) rs)
          else position_from task (p\<lparr>po_opposite_side := True\<rparr>) rs))"

definition position_of :: "pass_env \<Rightarrow> close_task \<Rightarrow> position res" where
  "position_of env task =
     bindE (pe_positions env)
       (position_from task \<lparr>po_contracts = Num 0, po_opposite_side = False, po_mark_price = None\<rparr>)"

subsection \<open>Sending\<close>

fun nmul :: "number \<Rightarrow> number \<Rightarrow> number res" where
  "nmul NotANumber b = Inr NotANumber"
| "nmul a NotANumber = Inr NotANumber"
| "nmul (Num x) (Num y) = Inr (Num (dmul x y))"
| "nmul (Infinite s) (Num y) = (if y = 0 then Inl InvalidOperation else Inr (Infinite (s \<noteq> (y < 0))))"
| "nmul (Num x) (Infinite t) = (if x = 0 then Inl InvalidOperation else Inr (Infinite (t \<noteq> (x < 0))))"
| "nmul (Infinite s) (Infinite t) = Inr (Infinite (s \<noteq> t))"

text \<open>\<open>amount * contract_size * (mark_price or 0)\<close>.\<close>

definition close_size_usd :: "number \<Rightarrow> number \<Rightarrow> number option \<Rightarrow> number res" where
  "close_size_usd amount contract_size mark_price =
     bindE (nmul amount contract_size) (\<lambda>n. nmul n (case mark_price of None \<Rightarrow> Num 0 | Some m \<Rightarrow> m))"

definition send_unknown ::
  "'s store_ops \<Rightarrow> executor \<Rightarrow> close_task \<Rightarrow> int \<Rightarrow> ('s world, task_status) prog" where
  "send_unknown ops ex task attempt_id =
     bindS (in_store (so_mark_close ops attempt_id Att_submission_unknown None None)) (\<lambda>_.
       set_status ops ex task STATUS_UNKNOWN True)"

definition after_send ::
  "'s store_ops \<Rightarrow> executor \<Rightarrow> close_task \<Rightarrow> int \<Rightarrow> create_reply \<Rightarrow> ('s world, task_status) prog" where
  "after_send ops ex task attempt_id reply =
     (case reply of
        Network_error \<Rightarrow> send_unknown ops ex task attempt_id
      | Other_error \<Rightarrow> send_unknown ops ex task attempt_id
      | Exchange_error \<Rightarrow>
          bindS (in_store (so_mark_close ops attempt_id Att_failed None None)) (\<lambda>_.
          let rejected = tk_rejected_sends task + 1; task' = task\<lparr>tk_rejected_sends := rejected\<rparr> in
          if ex_max_rejected_sends ex \<le> rejected then manual ops ex task'
          else set_status ops ex task' STATUS_REQUESTED True)
      | Created ord \<Rightarrow>
          bindS (pureS (attempt_state_from_order ord)) (\<lambda>(st, filled, err).
          bindS (in_store (so_mark_close ops attempt_id (if st = Att_completed then st else Att_accepted)
                   (o_id ord) filled)) (\<lambda>_.
          set_status ops ex task STATUS_SENDING True)))"

definition send_close ::
  "'s store_ops \<Rightarrow> executor \<Rightarrow> pass_env \<Rightarrow> close_task \<Rightarrow> close_order list \<Rightarrow> position \<Rightarrow> ('s world, task_status) prog" where
  "send_close ops ex env task closes pos =
     bindS (pureS (pe_precision env (float_of_number (tk_owned_remainder task)))) (\<lambda>text.
     bindS (pureS (decimal_of_val text)) (\<lambda>amount.
     bindS (pureS (nle amount (Num 0))) (\<lambda>zero.
     if zero then manual ops ex task
     else
       bindS (pureS (if py_truth (pe_contract_size env) then decimal_of_val (pe_contract_size env) else Inr (Num 1))) (\<lambda>contract_size.
       bindS (pureS (close_size_usd amount contract_size (po_mark_price pos))) (\<lambda>size_usd.
       bindS (pureS (close_client_order_id (tk_entry_client_order_id task) (int (length closes) + 1))) (\<lambda>cid.
       bindS (in_store (so_record_close_intent ops task cid amount size_usd contract_size)) (\<lambda>attempt_id.
       bindS (set_status ops ex task STATUS_SENDING False) (\<lambda>_.
       bindS (act (Create (close_side (tk_side task)) amount cid)) (\<lambda>_.
       after_send ops ex task attempt_id
         (pe_create env (close_side (tk_side task)) (float_of_number amount) cid))))))))))"

subsection \<open>One pass\<close>

fun cancel_each :: "pass_env \<Rightarrow> order list \<Rightarrow> ('s world, unit) prog" where
  "cancel_each env [] = ret ()"
| "cancel_each env (ord # ords) =
     bindS (pureS (case o_id ord of None \<Rightarrow> Inl (KeyError ''id'') | Some i \<Rightarrow> Inr i)) (\<lambda>i.
     bindS (act (Cancel i)) (\<lambda>_. bindS (pureS (pe_cancel env i)) (\<lambda>_. cancel_each env ords)))"

definition decide_position ::
  "'s store_ops \<Rightarrow> executor \<Rightarrow> pass_env \<Rightarrow> close_task \<Rightarrow> close_order list \<Rightarrow> order list \<Rightarrow> position \<Rightarrow>
   ('s world, task_status) prog" where
  "decide_position ops ex env task closes open_stops pos =
     (if po_opposite_side pos then manual ops ex task
      else bindS (pureS (nle (po_contracts pos) (Num 0))) (\<lambda>flat.
        if flat
        then if open_stops \<noteq> []
             then bindS (cancel_each env open_stops) (\<lambda>_. set_status ops ex task STATUS_REQUESTED True)
             else bindS (set_status ops ex task STATUS_CONFIRMED_FLAT True) (\<lambda>st. bindS (act Alert) (\<lambda>_. ret st))
        else bindS (pureS (nle (tk_owned_remainder task) (Num 0))) (\<lambda>none_left.
             bindS (pureS (if none_left then Inr False else same_quantity (po_contracts pos) (tk_owned_remainder task))) (\<lambda>same.
             if none_left \<or> \<not> same then manual ops ex task else send_close ops ex env task closes pos))))"

definition decide_stops ::
  "'s store_ops \<Rightarrow> executor \<Rightarrow> pass_env \<Rightarrow> close_task \<Rightarrow> close_order list \<Rightarrow> order list \<Rightarrow> ('s world, task_status) prog" where
  "decide_stops ops ex env task closes stops =
     (let open_stops = filter (\<lambda>s. \<not> is_terminal s) stops in
      bindS (pureS (stop_filled stops)) (\<lambda>stopped.
      bindS (pureS (any_positive (map fill_of open_stops))) (\<lambda>filling.
      if filling then set_status ops ex task STATUS_REQUESTED True
      else
        bindS (pureS (close_filled closes)) (\<lambda>by_closes.
        bindS (pureS (owned_remainder task by_closes stopped)) (\<lambda>rest.
        bindS (pureS (position_of env task)) (\<lambda>pos.
        decide_position ops ex env (task\<lparr>tk_owned_remainder := rest\<rparr>) closes open_stops pos))))))"

definition decide_closes ::
  "'s store_ops \<Rightarrow> executor \<Rightarrow> pass_env \<Rightarrow> close_task \<Rightarrow> close_order list \<Rightarrow> ('s world, task_status) prog" where
  "decide_closes ops ex env task closes =
     (if list_ex (\<lambda>c. co_status c = Att_manual_required) closes then manual ops ex task
      else case map co_created_at (filter (\<lambda>c. close_unknown (co_status c)) closes) of
        t # ts \<Rightarrow>
          if pe_now env - list_min t ts > ex_unknown_deadline ex then manual ops ex task
          else set_status ops ex task STATUS_UNKNOWN True
      | [] \<Rightarrow>
          if list_ex (\<lambda>c. co_status c = Att_accepted) closes then set_status ops ex task STATUS_SENDING True
          else bindS (pureS (orders_with_prefix (pe_stops env) (stop_prefix (tk_entry_client_order_id task))))
                 (decide_stops ops ex env task closes))"

definition close_pass ::
  "'s store_ops \<Rightarrow> executor \<Rightarrow> pass_env \<Rightarrow> close_task \<Rightarrow> ('s world, task_status) prog" where
  "close_pass ops ex env task =
     (if \<not> pe_configured env then manual ops ex task
      else bindS (in_store (so_link_late_closes ops task)) (\<lambda>problem.
        if problem \<noteq> None then manual ops ex task
        else bindS (follow_closes ops env task) (decide_closes ops ex env task)))"

datatype pass_result = Ran task_status | Claimed_elsewhere | Lock_busy

definition run_pass ::
  "'s store_ops \<Rightarrow> executor \<Rightarrow> pass_env \<Rightarrow> int \<Rightarrow> bool \<Rightarrow> ('s world, pass_result) prog" where
  "run_pass ops ex env task_id held_lease =
     bindS (in_store (so_claim ops task_id (ex_owner ex) (ex_claim_seconds ex))) (\<lambda>claimed.
       case claimed of
         None \<Rightarrow> ret Claimed_elsewhere
       | Some task \<Rightarrow>
           if held_lease then bindS (close_pass ops ex env task) (\<lambda>st. ret (Ran st))
           else bindS (pureS (pe_lock env)) (\<lambda>acquired.
             if \<not> acquired then bindS (set_status ops ex task (tk_status task) True) (\<lambda>_. ret Lock_busy)
             else bindS (close_pass ops ex env task) (\<lambda>st.
                    if pe_lease_lost env then pureS (Inl (RuntimeError ''order lock lease lost''))
                    else ret (Ran st))))"

subsection \<open>Recovery and the worker\<close>

definition recover ::
  "'s store_ops \<Rightarrow> pass_env \<Rightarrow> recovery_candidate \<Rightarrow> ('s world, int option) prog" where
  "recover ops env cand =
     (if \<not> pe_configured env then ret None
      else bindS (pureS (orders_with_prefix (pe_listing env (close_prefix (rc_entry_client_order_id cand)))
                           (close_prefix (rc_entry_client_order_id cand)))) (\<lambda>closes.
        if closes = [] then ret None
        else bindS (pureS (find_by_client_order_id (pe_listing env (rc_entry_client_order_id cand))
                            (rc_entry_client_order_id cand))) (\<lambda>entry.
          case entry of
            None \<Rightarrow> ret None
          | Some e \<Rightarrow>
              (case decimal_or_none (o_filled e) of
                 None \<Rightarrow> ret None
               | Some filled \<Rightarrow>
                   if \<not> is_terminal e \<or> \<not> ntruth filled then ret None
                   else
                     bindS (pureS (foldE (\<lambda>acc ord. bindE (adopted_close_of ord) (\<lambda>a. Inr (acc @ [a]))) [] closes)) (\<lambda>adopted.
                     bindS (in_store (so_create_task ops
                       \<lparr>ts_source_attempt_id = rc_attempt_id cand,
                        ts_entry_client_order_id = rc_entry_client_order_id cand, ts_exchange = rc_exchange cand,
                        ts_base = rc_base cand, ts_symbol = rc_symbol cand,
                        ts_native_market_id = rc_native_market_id cand, ts_market_type = rc_market_type cand,
                        ts_side = rc_side cand, ts_owned_quantity = filled,
                        ts_reason = ''stop_placement_failed'', ts_trade_id = None\<rparr> adopted)) (\<lambda>(task_id, created).
                     bindS (if created then act Alert else ret ()) (\<lambda>_. ret (Some task_id))))))))"

text \<open>Loops of the worker: a failure of one element is logged and the loop goes on.\<close>

fun each_caught :: "('a \<Rightarrow> ('s, 'b) prog) \<Rightarrow> 'a list \<Rightarrow> ('s, bool) prog" where
  "each_caught f [] = ret True"
| "each_caught f (x # xs) =
     bindS (tryS (bindS (f x) (\<lambda>_. ret True)) (\<lambda>_. ret False)) (\<lambda>ok.
     bindS (each_caught f xs) (\<lambda>rest. ret (ok \<and> rest)))"

definition recover_once ::
  "'s store_ops \<Rightarrow> (int \<Rightarrow> pass_env) \<Rightarrow> ('s world, bool) prog" where
  "recover_once ops envs =
     bindS (in_store (so_recovery_candidates ops)) (each_caught (\<lambda>c. recover ops (envs (rc_attempt_id c)) c))"

definition run_once ::
  "'s store_ops \<Rightarrow> executor \<Rightarrow> (int \<Rightarrow> pass_env) \<Rightarrow> (int \<Rightarrow> pass_env) \<Rightarrow> int \<Rightarrow> ('s world, bool) prog" where
  "run_once ops ex recover_envs pass_envs recovery_every =
     bindS (readS w_runs) (\<lambda>runs.
     bindS (pureS (if recovery_every = 0 then Inl ZeroDivisionError else Inr (runs mod recovery_every))) (\<lambda>phase.
     bindS (if phase = 0 then recover_once ops recover_envs else ret True) (\<lambda>recovered.
     bindS (modifyS (\<lambda>w. w\<lparr>w_runs := w_runs w + 1\<rparr>)) (\<lambda>_.
     bindS (in_store (so_runnable_task_ids ops)) (\<lambda>ids.
     bindS (each_caught (\<lambda>i. run_pass ops ex (pass_envs i) i False) ids) (\<lambda>ok. ret (recovered \<and> ok)))))))"
subsection \<open>What a store promises to the executor\<close>

text \<open>
  The identity of a close row, what a status settles, and the orders among the logged actions. A close
  is settled when it is neither unknown, nor active on the book, nor left to an operator.
\<close>

definition ident :: "close_order \<Rightarrow> int \<times> string \<times> attempt_status" where
  "ident c = (co_attempt_id c, co_client_order_id c, co_status c)"

definition settled :: "attempt_status \<Rightarrow> bool" where
  "settled st \<longleftrightarrow> \<not> close_unknown st \<and> st \<noteq> Att_accepted \<and> st \<noteq> Att_manual_required"

definition is_create :: "effect \<times> 's \<Rightarrow> bool" where
  "is_create x \<longleftrightarrow> (case fst x of Create _ _ _ \<Rightarrow> True | _ \<Rightarrow> False)"

definition sent :: "'s world \<Rightarrow> (effect \<times> 's) list" where
  "sent w = filter is_create (w_log w)"

definition mark_ident :: "int \<Rightarrow> attempt_status \<Rightarrow> int \<times> string \<times> attempt_status \<Rightarrow> int \<times> string \<times> attempt_status" where
  "mark_ident a st x = (if fst x = a then (a, fst (snd x), st) else x)"

locale close_store =
  fixes ops :: "'s store_ops"
    and rows :: "'s \<Rightarrow> int \<Rightarrow> close_order list"
    and stat :: "'s \<Rightarrow> int \<Rightarrow> task_status option"
    and held :: "'s \<Rightarrow> int \<Rightarrow> string \<Rightarrow> bool"
    and ok :: "'s \<Rightarrow> bool"
  assumes distinct_rows: "ok s \<Longrightarrow> distinct (map co_attempt_id (rows s i))"
    and claim_ok: "ok s \<Longrightarrow> so_claim ops i owner secs s = (c, t) \<Longrightarrow> ok t"
    and claim_task: "ok s \<Longrightarrow> so_claim ops i owner secs s = (Inr (Some task), t) \<Longrightarrow>
      tk_id task = i \<and> held t i owner"
    and load_ok: "ok s \<Longrightarrow> so_load_closes ops i s = (r, t) \<Longrightarrow> ok t"
    and load_reads: "ok s \<Longrightarrow> so_load_closes ops i s = (Inr cs, t) \<Longrightarrow> cs = rows s i \<and> rows t i = rows s i"
    and link_ok: "ok s \<Longrightarrow> so_link_late_closes ops task s = (p, t) \<Longrightarrow> ok t"
    and mark_ok: "ok s \<Longrightarrow> so_mark_close ops a st oid f s = (u, t) \<Longrightarrow> ok t"
    and mark_rows: "ok s \<Longrightarrow> so_mark_close ops a st oid f s = (Inr (), t) \<Longrightarrow>
      map ident (rows t i) = map (mark_ident a st \<circ> ident) (rows s i)"
    and intent_ok: "ok s \<Longrightarrow> so_record_close_intent ops task cid amount usd csize s = (n, t) \<Longrightarrow> ok t"
    and intent_rows: "ok s \<Longrightarrow> so_record_close_intent ops task cid amount usd csize s = (Inr a, t) \<Longrightarrow>
      map ident (rows t (tk_id task)) = map ident (rows s (tk_id task)) @ [(a, cid, Att_pending)]"
    and update_ok: "ok s \<Longrightarrow> so_update_task ops task owner ts rest k rel s = (u, t) \<Longrightarrow> ok t"
    and update_sets: "ok s \<Longrightarrow> so_update_task ops task owner ts rest k rel s = (Inr (), t) \<Longrightarrow>
      stat t (tk_id task) = Some ts \<and> rows t (tk_id task) = rows s (tk_id task) \<and>
      held s (tk_id task) owner \<and> (\<not> rel \<longrightarrow> held t (tk_id task) owner)"
text \<open>
  What justifies an order: with the snapshot \<open>s\<close> of the store when it was sent, every earlier close of
  the task is settled, the new close is already stored as pending under the order's id, the task is
  stored as sending under the executor's claim, and the amount is the owned remainder, which the
  exchange position equals, cut to the exchange's precision.
\<close>

definition justified ::
  "('s \<Rightarrow> int \<Rightarrow> close_order list) \<Rightarrow> ('s \<Rightarrow> int \<Rightarrow> task_status option) \<Rightarrow> ('s \<Rightarrow> int \<Rightarrow> string \<Rightarrow> bool) \<Rightarrow>
   string \<Rightarrow> pass_env \<Rightarrow> close_task \<Rightarrow> effect \<times> 's \<Rightarrow> bool" where
  "justified rows stat held owner env task x \<longleftrightarrow>
     (\<exists>amount cid s cs a stops stopped by_closes rest pos text.
        x = (Create (close_side (tk_side task)) amount cid, s) \<and>
        (\<forall>c \<in> set cs. settled (co_status c)) \<and>
        map ident (rows s (tk_id task)) = map ident cs @ [(a, cid, Att_pending)] \<and>
        stat s (tk_id task) = Some STATUS_SENDING \<and> held s (tk_id task) owner \<and>
        orders_with_prefix (pe_stops env) (stop_prefix (tk_entry_client_order_id task)) = Inr stops \<and>
        stop_filled stops = Inr stopped \<and> close_filled cs = Inr by_closes \<and>
        owned_remainder task by_closes stopped = Inr rest \<and> nle rest (Num 0) = Inr False \<and>
        position_of env task = Inr pos \<and> \<not> po_opposite_side pos \<and>
        same_quantity (po_contracts pos) rest = Inr True \<and>
        pe_precision env (float_of_number rest) = Inr text \<and> decimal_of_val text = Inr amount \<and>
        nle amount (Num 0) = Inr False \<and>
        close_client_order_id (tk_entry_client_order_id task) (int (length cs) + 1) = Inr cid)"

text \<open>What proves a position flat, in the store that a pass leaves.\<close>

definition flat_proven ::
  "('s \<Rightarrow> int \<Rightarrow> close_order list) \<Rightarrow> ('s \<Rightarrow> int \<Rightarrow> task_status option) \<Rightarrow> pass_env \<Rightarrow> close_task \<Rightarrow> 's \<Rightarrow> bool" where
  "flat_proven rows stat env task s \<longleftrightarrow>
     stat s (tk_id task) = Some STATUS_CONFIRMED_FLAT \<and>
     (\<forall>c \<in> set (rows s (tk_id task)). settled (co_status c)) \<and>
     (\<exists>stops. orders_with_prefix (pe_stops env) (stop_prefix (tk_entry_client_order_id task)) = Inr stops \<and>
        (\<forall>ord \<in> set stops. is_terminal ord)) \<and>
     (\<exists>pos. position_of env task = Inr pos \<and> \<not> po_opposite_side pos \<and> nle (po_contracts pos) (Num 0) = Inr True)"

lemma in_store_apply: "in_store m w = (r, w') \<longleftrightarrow> (\<exists>s. m (w_store w) = (r, s) \<and> w' = w\<lparr>w_store := s\<rparr>)"
  by (auto simp: in_store_def split: prod.splits)

lemma sent_store [simp]: "sent (w\<lparr>w_store := s\<rparr>) = sent w"
  by (simp add: sent_def)

lemma act_apply: "act e w = (Inr (), w\<lparr>w_log := w_log w @ [(e, w_store w)]\<rparr>)"
  by (simp add: act_def modifyS_def)

lemma fst_ident [simp]: "fst (ident c) = co_attempt_id c" "fst \<circ> ident = co_attempt_id"
  by (simp_all add: ident_def fun_eq_iff)

lemma map_mark_ident_other: "a \<notin> fst ` set xs \<Longrightarrow> map (mark_ident a st) xs = xs"
  by (induction xs) (auto simp: mark_ident_def)

context close_store
begin

text \<open>Nothing was sent since, and the store is well formed.\<close>

definition idle :: "(effect \<times> 's) list \<Rightarrow> 's world \<Rightarrow> bool" where
  "idle L w \<longleftrightarrow> ok (w_store w) \<and> sent w = L"

lemma set_status_ends:
  "ends (\<lambda>w. idle L w \<and> rows (w_store w) (tk_id task) = R) (set_status ops ex task ts rel)
     (\<lambda>r w. idle L w \<and> (\<forall>x. r = Inr x \<longrightarrow> x = ts \<and> stat (w_store w) (tk_id task) = Some ts \<and>
        rows (w_store w) (tk_id task) = R \<and> (\<not> rel \<longrightarrow> held (w_store w) (tk_id task) (ex_owner ex))))"
proof (rule endsI)
  fix w r w' assume P: "idle L w \<and> rows (w_store w) (tk_id task) = R" and run: "set_status ops ex task ts rel w = (r, w')"
  obtain u t where u: "so_update_task ops task (ex_owner ex) ts (tk_owned_remainder task) (tk_rejected_sends task) rel
      (w_store w) = (u, t)" by force
  have w': "w' = w\<lparr>w_store := t\<rparr>" "r = (case u of Inl e \<Rightarrow> Inl e | Inr _ \<Rightarrow> Inr ts)"
    using run u by (auto simp: set_status_def bindS_def in_store_def ret_def split: sum.splits)
  have "ok t" using update_ok[OF _ u] P by (simp add: idle_def)
  moreover have "u = Inr () \<Longrightarrow> stat t (tk_id task) = Some ts \<and> rows t (tk_id task) = R \<and> (\<not> rel \<longrightarrow> held t (tk_id task) (ex_owner ex))"
    using update_sets[of "w_store w" task "ex_owner ex" ts _ _ rel t] u P by (auto simp: idle_def)
  ultimately show "idle L w' \<and> (\<forall>x. r = Inr x \<longrightarrow> x = ts \<and> stat (w_store w') (tk_id task) = Some ts \<and>
        rows (w_store w') (tk_id task) = R \<and> (\<not> rel \<longrightarrow> held (w_store w') (tk_id task) (ex_owner ex)))"
    using P w' by (auto simp: idle_def split: sum.splits)
qed

lemma set_status_idle: "keeps (idle L) (set_status ops ex task ts rel)"
proof (rule endsI)
  fix w r w' assume "idle L w" "set_status ops ex task ts rel w = (r, w')"
  then show "idle L w'" using endsD[OF set_status_ends, of L w task "rows (w_store w) (tk_id task)"] by blast
qed

lemma act_idle: "\<not> is_create (e, s) \<Longrightarrow> keeps (idle L) (act e)"
  by (rule endsI) (auto simp: act_apply idle_def sent_def is_create_def)

lemma manual_idle: "keeps (idle L) (manual ops ex task)"
  unfolding manual_def
  by (intro keeps_bind set_status_idle act_idle[of Alert] keeps_ret) (simp add: is_create_def)

lemma cancel_each_idle: "keeps (idle L) (cancel_each env stops)"
proof (induction stops)
  case (Cons o' os)
  then show ?case
    by (simp, intro keeps_bind keeps_pure act_idle) (simp_all add: is_create_def)
qed simp

lemma mark_idle: "keeps (idle L) (in_store (so_mark_close ops a st oid f))"
  by (rule endsI) (auto simp: in_store_apply idle_def dest: mark_ok)

lemma after_send_idle: "keeps (idle L) (after_send ops ex task a reply)"
  by (auto simp: after_send_def send_unknown_def Let_def split: create_reply.splits prod.splits
      intro!: keeps_bind mark_idle set_status_idle manual_idle)

end
context close_store
begin

lemma follow_close_ends:
  assumes "distinct (map fst (P @ ident c # S))"
  shows "ends (\<lambda>w. idle L w \<and> map ident (rows (w_store w) i) = P @ ident c # S) (follow_close ops env c)
     (\<lambda>r w. idle L w \<and> (\<forall>c'. r = Inr c' \<longrightarrow> co_attempt_id c' = co_attempt_id c \<and>
        map ident (rows (w_store w) i) = P @ ident c' # S))"
proof (rule endsI)
  fix w r w' assume P: "idle L w \<and> map ident (rows (w_store w) i) = P @ ident c # S" and run: "follow_close ops env c w = (r, w')"
  let ?goal = "idle L w' \<and> (\<forall>c'. r = Inr c' \<longrightarrow> co_attempt_id c' = co_attempt_id c \<and>
        map ident (rows (w_store w') i) = P @ ident c' # S)"
  let ?find = "find_by_client_order_id (pe_listing env (co_client_order_id c)) (co_client_order_id c)"
  show ?goal
  proof (cases "(close_unknown (co_status c) \<or> co_status c = Att_accepted) \<and>
      (\<exists>ord st f err. ?find = Inr (Some ord) \<and> attempt_state_from_order ord = Inr (st, f, err))")
    case False
    then show ?thesis using P run
      by (auto simp: follow_close_def prog_simps split: if_splits sum.splits option.splits)
  next
    case True
    then obtain ord st f err where o: "?find = Inr (Some ord)" "attempt_state_from_order ord = Inr (st, f, err)" by blast
    obtain u t where u: "so_mark_close ops (co_attempt_id c) st (o_id ord) f (w_store w) = (u, t)" by force
    have w': "w' = w\<lparr>w_store := t\<rparr>" using run True o u
      by (auto simp: follow_close_def prog_simps in_store_def split: sum.splits)
    have ok: "ok (w_store w)" using P by (simp add: idle_def)
    have idle: "idle L w'" using mark_ok[OF ok u] P w' by (simp add: idle_def)
    have "map ident (rows t i) = P @ (co_attempt_id c, co_client_order_id c, st) # S" if "u = Inr ()"
    proof -
      have "map ident (rows t i) = map (mark_ident (co_attempt_id c) st) (P @ ident c # S)"
        using mark_rows[OF ok, of "co_attempt_id c" st "o_id ord" f t i] u that P by (simp flip: map_map)
      also have "\<dots> = P @ (co_attempt_id c, co_client_order_id c, st) # S"
        using assms by (simp add: map_mark_ident_other ident_def mark_ident_def[of _ _ "(_, _)"])
      finally show ?thesis .
    qed
    then show ?thesis using run True o u idle w'
      by (auto simp: follow_close_def prog_simps in_store_def ident_def split: sum.splits)
  qed
qed

lemma follow_each_ends:
  assumes "distinct (map fst (P @ map ident cs))"
  shows "ends (\<lambda>w. idle L w \<and> map ident (rows (w_store w) i) = P @ map ident cs) (follow_each ops env cs)
     (\<lambda>r w. idle L w \<and> (\<forall>cs'. r = Inr cs' \<longrightarrow> map ident (rows (w_store w) i) = P @ map ident cs'))"
  using assms
proof (induction cs arbitrary: P)
  case Nil
  show ?case by (simp add: ends_ret)
next
  case (Cons c cs)
  have step: "ends (\<lambda>w. idle L w \<and> map ident (rows (w_store w) i) = P @ ident c' # map ident cs)
      (bindS (follow_each ops env cs) (\<lambda>cs'. ret (c' # cs')))
      (\<lambda>r w. idle L w \<and> (\<forall>cs'. r = Inr cs' \<longrightarrow> map ident (rows (w_store w) i) = P @ map ident cs'))"
    if "co_attempt_id c' = co_attempt_id c" for c'
  proof (rule ends_bind[where R = "\<lambda>cs' w. idle L w \<and> map ident (rows (w_store w) i) = (P @ [ident c']) @ map ident cs'"])
    have "distinct (map fst ((P @ [ident c']) @ map ident cs))" using Cons.prems that by simp
    from Cons.IH[OF this]
    show "ends (\<lambda>w. idle L w \<and> map ident (rows (w_store w) i) = P @ ident c' # map ident cs) (follow_each ops env cs)
      (\<lambda>r t. case r of Inl e \<Rightarrow> idle L t \<and> (\<forall>cs'. Inl e = Inr cs' \<longrightarrow> map ident (rows (w_store t) i) = P @ map ident cs')
        | Inr x \<Rightarrow> idle L t \<and> map ident (rows (w_store t) i) = (P @ [ident c']) @ map ident x)"
      by (rule ends_weaken) (auto split: sum.splits)
  qed (simp add: ends_ret)
  show ?case unfolding follow_each.simps
  proof (rule ends_bind[where R = "\<lambda>c' w. co_attempt_id c' = co_attempt_id c \<and> idle L w \<and>
      map ident (rows (w_store w) i) = P @ ident c' # map ident cs"], goal_cases)
    case 1
    have "distinct (map fst (P @ ident c # map ident cs))" using Cons.prems by simp
    then show ?case by (rule ends_weaken[OF follow_close_ends]) (auto split: sum.splits)
  next
    case (2 c')
    show ?case
    proof (cases "co_attempt_id c' = co_attempt_id c")
      case True
      show ?thesis by (rule ends_weaken[OF step[OF True]]) simp_all
    qed (simp add: ends_def)
  qed
qed

lemma follow_closes_ends:
  "ends (idle L) (follow_closes ops env task)
     (\<lambda>r w. idle L w \<and> (\<forall>cs. r = Inr cs \<longrightarrow> map ident (rows (w_store w) (tk_id task)) = map ident cs))"
  unfolding follow_closes_def
proof (rule ends_bind[where R = "\<lambda>cs w. distinct (map fst (map ident cs)) \<and> idle L w \<and>
    map ident (rows (w_store w) (tk_id task)) = map ident cs"], goal_cases)
  case 1
  show ?case
  proof (rule endsI)
    fix w r w' assume w: "idle L w" and run: "in_store (so_load_closes ops (tk_id task)) w = (r, w')"
    obtain t where t: "so_load_closes ops (tk_id task) (w_store w) = (r, t)" "w' = w\<lparr>w_store := t\<rparr>"
      using run by (auto simp: in_store_apply)
    have ok: "ok (w_store w)" using w by (simp add: idle_def)
    have idle: "idle L w'" using load_ok[OF ok t(1)] w t(2) by (simp add: idle_def)
    show "case r of Inl e \<Rightarrow> idle L w' \<and> (\<forall>cs. Inl e = Inr cs \<longrightarrow> map ident (rows (w_store w') (tk_id task)) = map ident cs)
      | Inr cs \<Rightarrow> distinct (map fst (map ident cs)) \<and> idle L w' \<and> map ident (rows (w_store w') (tk_id task)) = map ident cs"
    proof (cases r)
      case (Inr cs)
      then show ?thesis using load_reads[OF ok, of "tk_id task" cs t] t idle distinct_rows[OF ok, of "tk_id task"]
        by simp
    qed (simp add: idle)
  qed
next
  case (2 cs)
  show ?case
  proof (cases "distinct (map fst (map ident cs))")
    case True
    then show ?thesis using follow_each_ends[of "[]" cs L "tk_id task" env] by simp
  qed (simp add: ends_def)
qed

end
context close_store
begin

definition at_most_one :: "executor \<Rightarrow> pass_env \<Rightarrow> close_task \<Rightarrow> (effect \<times> 's) list \<Rightarrow> 's world \<Rightarrow> bool" where
  "at_most_one ex env task L w \<longleftrightarrow>
     ok (w_store w) \<and> (sent w = L \<or> (\<exists>x. sent w = L @ [x] \<and> justified rows stat held (ex_owner ex) env task x))"

lemma idle_at_most_one: "idle L w \<Longrightarrow> at_most_one ex env task L w"
  by (simp add: idle_def at_most_one_def)

lemma quiet: "keeps (idle L) m \<Longrightarrow> ends (idle L) m (\<lambda>r. at_most_one ex env task L)"
  by (erule ends_weaken) (auto intro: idle_at_most_one)

lemma after_create:
  assumes "justified rows stat held (ex_owner ex) env task x"
  shows "ends (idle (L @ [x])) (after_send ops ex task' a reply) (\<lambda>r. at_most_one ex env task L)"
  by (rule ends_weaken[OF after_send_idle], assumption) (use assms in \<open>simp add: idle_def at_most_one_def del: split_paired_Ex; blast\<close>)

lemma send_close_ends:
  assumes task': "task' = task\<lparr>tk_owned_remainder := rest\<rparr>"
    and cs: "\<forall>c \<in> set cs. settled (co_status c)"
    and stops: "orders_with_prefix (pe_stops env) (stop_prefix (tk_entry_client_order_id task)) = Inr stops"
      "stop_filled stops = Inr stopped"
    and rest: "close_filled cs = Inr by_closes" "owned_remainder task by_closes stopped = Inr rest" "nle rest (Num 0) = Inr False"
    and pos: "position_of env task = Inr pos" "\<not> po_opposite_side pos" "same_quantity (po_contracts pos) rest = Inr True"
  shows "ends (\<lambda>w. idle L w \<and> map ident (rows (w_store w) (tk_id task)) = map ident cs)
     (send_close ops ex env task' cs pos) (\<lambda>r. at_most_one ex env task L)"
  unfolding send_close_def
proof (intro ends_bind_pure)
  fix shown amount b
  assume shown: "pe_precision env (float_of_number (tk_owned_remainder task')) = Inr shown"
    and amount: "decimal_of_val shown = Inr amount" and b: "nle amount (Num 0) = Inr b"
  let ?P = "\<lambda>w. idle L w \<and> map ident (rows (w_store w) (tk_id task)) = map ident cs"
  have send: "ends ?P (bindS (in_store (so_record_close_intent ops task' cid amount usd csize)) (\<lambda>attempt_id.
       bindS (set_status ops ex task' STATUS_SENDING False) (\<lambda>_.
       bindS (act (Create (close_side (tk_side task')) amount cid)) (\<lambda>_.
       after_send ops ex task' attempt_id (pe_create env (close_side (tk_side task')) (float_of_number amount) cid)))))
       (\<lambda>r. at_most_one ex env task L)"
    if cid: "close_client_order_id (tk_entry_client_order_id task') (int (length cs) + 1) = Inr cid" and nz: "\<not> b" for cid usd csize
  proof (rule endsI)
    fix w r w' assume P: "?P w" and run: "bindS (in_store (so_record_close_intent ops task' cid amount usd csize)) (\<lambda>attempt_id.
       bindS (set_status ops ex task' STATUS_SENDING False) (\<lambda>_.
       bindS (act (Create (close_side (tk_side task')) amount cid)) (\<lambda>_.
       after_send ops ex task' attempt_id (pe_create env (close_side (tk_side task')) (float_of_number amount) cid)))) w = (r, w')"
    let ?x = "\<lambda>s. (Create (close_side (tk_side task')) amount cid, s)"
    have ok: "ok (w_store w)" using P by (simp add: idle_def)
    obtain n s1 where n: "so_record_close_intent ops task' cid amount usd csize (w_store w) = (n, s1)" by force
    let ?w1 = "w\<lparr>w_store := s1\<rparr>"
    have idle1: "idle L ?w1" using intent_ok[OF ok n] P by (simp add: idle_def)
    show "at_most_one ex env task L w'"
    proof (cases n)
      case (Inl e)
      then show ?thesis using run n idle1 by (simp add: prog_simps in_store_def idle_at_most_one)
    next
      case (Inr a)
      obtain q w2 where q: "set_status ops ex task' STATUS_SENDING False ?w1 = (q, w2)" by force
      have post: "idle L w2 \<and> (\<forall>x. q = Inr x \<longrightarrow> x = STATUS_SENDING \<and> stat (w_store w2) (tk_id task') = Some STATUS_SENDING \<and>
          rows (w_store w2) (tk_id task') = rows s1 (tk_id task') \<and> (\<not> False \<longrightarrow> held (w_store w2) (tk_id task') (ex_owner ex)))"
        by (rule endsD[OF set_status_ends _ q]) (simp add: idle1)
      show ?thesis
      proof (cases q)
        case (Inl e)
        then show ?thesis using run n Inr q post by (simp add: prog_simps in_store_def idle_at_most_one)
      next
        case (Inr st)
        have ids: "map ident (rows (w_store w2) (tk_id task)) = map ident cs @ [(a, cid, Att_pending)]"
          using intent_rows[OF ok n[unfolded \<open>n = Inr a\<close>]] P post Inr by (simp add: task')
        have just: "justified rows stat held (ex_owner ex) env task (?x (w_store w2))"
          unfolding justified_def using cs ids post Inr stops rest pos shown amount b nz cid
          by (intro exI[of _ amount] exI[of _ cid] exI[of _ "w_store w2"] exI[of _ cs] exI[of _ a] exI[of _ stops]
              exI[of _ stopped] exI[of _ by_closes] exI[of _ rest] exI[of _ pos] exI[of _ shown]) (simp add: task')
        let ?w3 = "w2\<lparr>w_log := w_log w2 @ [?x (w_store w2)]\<rparr>"
        have "idle (L @ [?x (w_store w2)]) ?w3" using post by (simp add: idle_def sent_def is_create_def)
        moreover have "after_send ops ex task' a (pe_create env (close_side (tk_side task')) (float_of_number amount) cid) ?w3 = (r, w')"
          using run n \<open>n = Inr a\<close> q Inr by (simp add: prog_simps in_store_def act_apply)
        ultimately show ?thesis using endsD[OF after_create[OF just]] by blast
      qed
    qed
  qed
  have sum: "ends ?P (manual ops ex task') (\<lambda>r. at_most_one ex env task L)"
    by (rule ends_weaken[OF quiet[OF manual_idle]]) auto
  show "ends ?P (if b then manual ops ex task'
     else bindS (pureS (if py_truth (pe_contract_size env) then decimal_of_val (pe_contract_size env) else Inr (Num 1))) (\<lambda>contract_size.
       bindS (pureS (close_size_usd amount contract_size (po_mark_price pos))) (\<lambda>size_usd.
       bindS (pureS (close_client_order_id (tk_entry_client_order_id task') (int (length cs) + 1))) (\<lambda>cid.
       bindS (in_store (so_record_close_intent ops task' cid amount size_usd contract_size)) (\<lambda>attempt_id.
       bindS (set_status ops ex task' STATUS_SENDING False) (\<lambda>_.
       bindS (act (Create (close_side (tk_side task')) amount cid)) (\<lambda>_.
       after_send ops ex task' attempt_id
         (pe_create env (close_side (tk_side task')) (float_of_number amount) cid))))))))
     (\<lambda>r. at_most_one ex env task L)"
    using send sum by (auto intro!: ends_bind_pure simp: idle_at_most_one)
qed (simp_all add: idle_at_most_one)

lemma decide_position_ends:
  assumes "\<forall>c \<in> set cs. settled (co_status c)"
    and "orders_with_prefix (pe_stops env) (stop_prefix (tk_entry_client_order_id task)) = Inr stops" "stop_filled stops = Inr stopped"
    and "close_filled cs = Inr by_closes" "owned_remainder task by_closes stopped = Inr rest" "position_of env task = Inr pos"
  shows "ends (\<lambda>w. idle L w \<and> map ident (rows (w_store w) (tk_id task)) = map ident cs)
     (decide_position ops ex env (task\<lparr>tk_owned_remainder := rest\<rparr>) cs open_stops pos) (\<lambda>r. at_most_one ex env task L)"
proof -
  let ?task = "task\<lparr>tk_owned_remainder := rest\<rparr>"
  let ?P = "\<lambda>w. idle L w \<and> map ident (rows (w_store w) (tk_id task)) = map ident cs"
  have q: "ends ?P m (\<lambda>r. at_most_one ex env task L)" if "keeps (idle L) m" for m :: "('s world, task_status) prog"
    by (rule ends_weaken[OF quiet[OF that]]) auto
  have flat: "keeps (idle L) (bindS (set_status ops ex ?task STATUS_CONFIRMED_FLAT True) (\<lambda>st. bindS (act Alert) (\<lambda>_. ret st)))"
    by (intro keeps_bind set_status_idle act_idle[of Alert] keeps_ret) (simp add: is_create_def)
  have cancel: "keeps (idle L) (bindS (cancel_each env open_stops) (\<lambda>_. set_status ops ex ?task STATUS_REQUESTED True))"
    by (intro keeps_bind set_status_idle cancel_each_idle)
  have send: "ends ?P (send_close ops ex env ?task cs pos) (\<lambda>r. at_most_one ex env task L)"
    if "nle rest (Num 0) = Inr False" "\<not> po_opposite_side pos" "same_quantity (po_contracts pos) rest = Inr True"
    by (rule send_close_ends[OF refl assms(1-5) that(1) assms(6) that(2,3)])
  show ?thesis unfolding decide_position_def
    by (auto intro!: ends_bind_pure q[OF manual_idle] q[OF flat] q[OF cancel] send
        simp: idle_at_most_one split: if_splits)
qed

end
lemma ident_settled:
  assumes "map ident xs = map ident ys"
  shows "(\<forall>c \<in> set xs. settled (co_status c)) \<longleftrightarrow> (\<forall>c \<in> set ys. settled (co_status c))"
proof -
  have "map (\<lambda>c. snd (snd (ident c))) xs = map (\<lambda>c. snd (snd (ident c))) ys"
    using arg_cong[OF assms, of "map (\<lambda>x. snd (snd x))"] by (simp add: comp_def)
  then have "map co_status xs = map co_status ys" by (simp add: ident_def)
  then have "co_status ` set xs = co_status ` set ys" by (metis set_map)
  then have "(\<forall>st \<in> co_status ` set xs. settled st) \<longleftrightarrow> (\<forall>st \<in> co_status ` set ys. settled st)" by simp
  then show ?thesis by simp
qed

lemma settled_all:
  assumes "\<not> list_ex (\<lambda>c. co_status c = Att_manual_required) cs"
    and "map co_created_at (filter (\<lambda>c. close_unknown (co_status c)) cs) = []"
    and "\<not> list_ex (\<lambda>c. co_status c = Att_accepted) cs"
  shows "\<forall>c \<in> set cs. settled (co_status c)"
  using assms by (auto simp: settled_def list_ex_iff filter_empty_conv)

text \<open>Programs whose result is never a confirmation.\<close>

definition never_flat :: "('s, task_status) prog \<Rightarrow> bool" where
  "never_flat m \<longleftrightarrow> ends (\<lambda>_. True) m (\<lambda>r w. r \<noteq> Inr STATUS_CONFIRMED_FLAT)"

lemma never_flat_bind: "(\<And>x. never_flat (f x)) \<Longrightarrow> never_flat (bindS m f)"
  unfolding never_flat_def by (rule ends_bind[where R = "\<lambda>_ _. True"]) (auto simp: ends_def split: sum.splits)

lemma never_flat_set: "st \<noteq> STATUS_CONFIRMED_FLAT \<Longrightarrow> never_flat (set_status ops ex task st rel)"
  by (auto simp: never_flat_def ends_def set_status_def prog_simps split: prod.splits sum.splits)

lemma never_flat_manual: "never_flat (manual ops ex task)"
  by (auto simp: never_flat_def ends_def manual_def set_status_def prog_simps act_apply split: prod.splits sum.splits)

lemma never_flat_after: "never_flat (after_send ops ex task a reply)"
  by (auto simp: after_send_def send_unknown_def Let_def split: create_reply.splits prod.splits
      intro!: never_flat_bind never_flat_set never_flat_manual)

lemma never_flat_send: "never_flat (send_close ops ex env task cs pos)"
  by (auto simp: send_close_def intro!: never_flat_bind never_flat_manual never_flat_after)

context close_store
begin

lemma decide_closes_ends:
  "ends (\<lambda>w. idle L w \<and> map ident (rows (w_store w) (tk_id task)) = map ident cs)
     (decide_closes ops ex env task cs) (\<lambda>r. at_most_one ex env task L)"
proof -
  let ?P = "\<lambda>w. idle L w \<and> map ident (rows (w_store w) (tk_id task)) = map ident cs"
  have q: "ends ?P m (\<lambda>r. at_most_one ex env task L)" if "keeps (idle L) m" for m :: "('s world, task_status) prog"
    by (rule ends_weaken[OF quiet[OF that]]) auto
  have stops: "ends ?P (decide_stops ops ex env task cs stops) (\<lambda>r. at_most_one ex env task L)"
    if "\<forall>c \<in> set cs. settled (co_status c)"
      "orders_with_prefix (pe_stops env) (stop_prefix (tk_entry_client_order_id task)) = Inr stops" for stops
    unfolding decide_stops_def Let_def
    by (auto intro!: ends_bind_pure q[OF set_status_idle] decide_position_ends[OF that] simp: idle_at_most_one)
  show ?thesis
    using settled_all[of cs]
    by (auto simp: decide_closes_def idle_at_most_one split: list.splits
        intro!: q[OF manual_idle] q[OF set_status_idle] ends_bind_pure stops)
qed

lemma link_idle: "keeps (idle L) (in_store (so_link_late_closes ops task))"
  by (rule endsI) (auto simp: in_store_apply idle_def dest: link_ok)

lemma close_pass_ends: "ends (idle L) (close_pass ops ex env task) (\<lambda>r. at_most_one ex env task L)"
proof -
  have follow: "ends (idle L) (bindS (follow_closes ops env task) (decide_closes ops ex env task)) (\<lambda>r. at_most_one ex env task L)"
    by (rule ends_bind[where R = "\<lambda>cs w. idle L w \<and> map ident (rows (w_store w) (tk_id task)) = map ident cs"],
        rule ends_weaken[OF follow_closes_ends], assumption)
      (auto simp: idle_at_most_one split: sum.splits intro: decide_closes_ends)
  have "ends (idle L) (bindS (in_store (so_link_late_closes ops task)) (\<lambda>problem.
      if problem \<noteq> None then manual ops ex task else bindS (follow_closes ops env task) (decide_closes ops ex env task)))
      (\<lambda>r. at_most_one ex env task L)"
    by (rule ends_bind[where R = "\<lambda>_. idle L"], rule ends_weaken[OF link_idle], assumption)
      (use follow quiet[OF manual_idle] in \<open>auto simp: idle_at_most_one split: sum.splits\<close>)
  then show ?thesis using quiet[OF manual_idle] by (simp add: close_pass_def)
qed

lemma decide_flat:
  "ends (\<lambda>w. idle L w \<and> map ident (rows (w_store w) (tk_id task)) = map ident cs)
     (decide_closes ops ex env task cs) (\<lambda>r w. r = Inr STATUS_CONFIRMED_FLAT \<longrightarrow> flat_proven rows stat env task (w_store w))"
proof -
  let ?P = "\<lambda>w. idle L w \<and> map ident (rows (w_store w) (tk_id task)) = map ident cs"
  let ?Q = "\<lambda>r w. r = Inr STATUS_CONFIRMED_FLAT \<longrightarrow> flat_proven rows stat env task (w_store w)"
  have q: "ends ?P m ?Q" if "never_flat m" for m :: "('s world, task_status) prog"
    by (rule ends_weaken[OF that[unfolded never_flat_def]]) auto
  have flat: "ends ?P (bindS (set_status ops ex task' STATUS_CONFIRMED_FLAT True) (\<lambda>st. bindS (act Alert) (\<lambda>_. ret st))) ?Q"
    if cs: "\<forall>c \<in> set cs. settled (co_status c)"
      and stops: "orders_with_prefix (pe_stops env) (stop_prefix (tk_entry_client_order_id task)) = Inr stops"
      and pos: "position_of env task = Inr pos" "\<not> po_opposite_side pos" "nle (po_contracts pos) (Num 0) = Inr True"
      and none: "filter (\<lambda>s. \<not> is_terminal s) stops = []" and id: "tk_id task' = tk_id task" for stops pos task'
  proof (rule endsI, rule impI)
    fix w r w' assume P: "?P w" and run: "bindS (set_status ops ex task' STATUS_CONFIRMED_FLAT True) (\<lambda>st. bindS (act Alert) (\<lambda>_. ret st)) w = (r, w')"
      and r: "r = Inr STATUS_CONFIRMED_FLAT"
    obtain u w1 where u: "set_status ops ex task' STATUS_CONFIRMED_FLAT True w = (u, w1)" by force
    have post: "u = Inr st \<Longrightarrow> stat (w_store w1) (tk_id task) = Some STATUS_CONFIRMED_FLAT \<and>
        rows (w_store w1) (tk_id task) = rows (w_store w) (tk_id task)" for st
      using endsD[OF set_status_ends, of L w task' "rows (w_store w) (tk_id task')", OF _ u] P by (simp add: id)
    obtain st where st: "u = Inr st" "w_store w' = w_store w1"
      using run r u by (cases u) (auto simp: prog_simps act_apply)
    have "\<forall>c \<in> set (rows (w_store w') (tk_id task)). settled (co_status c)"
      using post[OF st(1)] st(2) P cs ident_settled[of "rows (w_store w) (tk_id task)" cs] by simp
    moreover have "\<forall>ord \<in> set stops. is_terminal ord" using none by (auto simp: filter_empty_conv)
    ultimately show "flat_proven rows stat env task (w_store w')"
      unfolding flat_proven_def using post[OF st(1)] st(2) stops pos by auto
  qed
  have position: "ends ?P (decide_position ops ex env (task\<lparr>tk_owned_remainder := rest\<rparr>) cs (filter (\<lambda>s. \<not> is_terminal s) stops) pos) ?Q"
    if "\<forall>c \<in> set cs. settled (co_status c)"
      "orders_with_prefix (pe_stops env) (stop_prefix (tk_entry_client_order_id task)) = Inr stops"
      "position_of env task = Inr pos" for stops pos rest
  proof -
    have cancel: "never_flat (bindS (cancel_each env xs) (\<lambda>_. set_status ops ex (task\<lparr>tk_owned_remainder := rest\<rparr>) STATUS_REQUESTED True))" for xs
      by (intro never_flat_bind never_flat_set) simp
    show ?thesis unfolding decide_position_def
      by (auto intro!: ends_bind_pure q[OF never_flat_manual] q[OF never_flat_send] q[OF cancel] flat[OF that(1,2,3)])
  qed
  have stops: "ends ?P (decide_stops ops ex env task cs stops) ?Q"
    if "\<forall>c \<in> set cs. settled (co_status c)"
      "orders_with_prefix (pe_stops env) (stop_prefix (tk_entry_client_order_id task)) = Inr stops" for stops
    unfolding decide_stops_def Let_def
    by (auto intro!: ends_bind_pure q[OF never_flat_set] position[OF that])
  show ?thesis
    using settled_all[of cs]
    by (auto simp: decide_closes_def split: list.splits intro!: q[OF never_flat_manual] q[OF never_flat_set] ends_bind_pure stops)
qed

end
context close_store
begin

lemma close_pass_flat:
  "ends (idle L) (close_pass ops ex env task) (\<lambda>r w. r = Inr STATUS_CONFIRMED_FLAT \<longrightarrow> flat_proven rows stat env task (w_store w))"
proof -
  let ?Q = "\<lambda>r w. r = Inr STATUS_CONFIRMED_FLAT \<longrightarrow> flat_proven rows stat env task (w_store w)"
  have q: "ends (idle L) (manual ops ex task) ?Q"
    by (rule ends_weaken[OF never_flat_manual[unfolded never_flat_def]]) auto
  have follow: "ends (idle L) (bindS (follow_closes ops env task) (decide_closes ops ex env task)) ?Q"
    by (rule ends_bind[where R = "\<lambda>cs w. idle L w \<and> map ident (rows (w_store w) (tk_id task)) = map ident cs"],
        rule ends_weaken[OF follow_closes_ends], assumption)
      (auto split: sum.splits intro: decide_flat)
  have "ends (idle L) (bindS (in_store (so_link_late_closes ops task)) (\<lambda>problem.
      if problem \<noteq> None then manual ops ex task else bindS (follow_closes ops env task) (decide_closes ops ex env task))) ?Q"
    by (rule ends_bind[where R = "\<lambda>_. idle L"], rule ends_weaken[OF link_idle], assumption)
      (use follow q in \<open>auto split: sum.splits\<close>)
  then show ?thesis using q by (simp add: close_pass_def)
qed

end

text \<open>A pass claims its task first, and then runs, or gives the claim back when the lock is busy.\<close>

lemma run_pass_cases:
  assumes run: "run_pass ops ex env i lease w = (r, w')"
  obtains (none) c s1 where "so_claim ops i (ex_owner ex) (ex_claim_seconds ex) (w_store w) = (c, s1)"
      "w' = w\<lparr>w_store := s1\<rparr>" "\<And>st. r \<noteq> Inr (Ran st)"
    | (busy) task s1 q where "so_claim ops i (ex_owner ex) (ex_claim_seconds ex) (w_store w) = (Inr (Some task), s1)"
      "set_status ops ex task (tk_status task) True (w\<lparr>w_store := s1\<rparr>) = (q, w')" "\<And>st. r \<noteq> Inr (Ran st)"
    | (passed) task s1 q where "so_claim ops i (ex_owner ex) (ex_claim_seconds ex) (w_store w) = (Inr (Some task), s1)"
      "close_pass ops ex env task (w\<lparr>w_store := s1\<rparr>) = (q, w')" "\<And>st. r = Inr (Ran st) \<Longrightarrow> q = Inr st"
proof -
  obtain c s1 where c: "so_claim ops i (ex_owner ex) (ex_claim_seconds ex) (w_store w) = (c, s1)" by force
  let ?w1 = "w\<lparr>w_store := s1\<rparr>"
  show thesis
  proof (cases "\<exists>task. c = Inr (Some task)")
    case False
    then show thesis using run c none[OF c]
      by (auto simp: run_pass_def prog_simps in_store_def split: sum.splits option.splits)
  next
    case True
    then obtain task where task: "c = Inr (Some task)" by blast
    obtain q v where q: "close_pass ops ex env task ?w1 = (q, v)" by force
    obtain p u where p: "set_status ops ex task (tk_status task) True ?w1 = (p, u)" by force
    consider "lease \<or> pe_lock env = Inr True" | "\<not> lease" "pe_lock env = Inr False" | e where "\<not> lease" "pe_lock env = Inl e"
      by (cases "pe_lock env") auto
    then show thesis
    proof cases
      case 1
      then have "v = w'" "\<And>st. r = Inr (Ran st) \<Longrightarrow> q = Inr st"
        using run c task q by (auto simp: run_pass_def prog_simps in_store_def split: sum.splits if_splits)
      then show thesis using passed c task q by blast
    next
      case 2
      then have "u = w'" "\<And>st. r \<noteq> Inr (Ran st)"
        using run c task p by (auto simp: run_pass_def prog_simps in_store_def split: sum.splits)
      then show thesis using busy c task p by blast
    next
      case 3
      then have "w' = ?w1" "\<And>st. r \<noteq> Inr (Ran st)"
        using run c task by (auto simp: run_pass_def prog_simps in_store_def)
      then show thesis using none c by blast
    qed
  qed
qed

context close_store
begin

lemma claim_idle: "ok (w_store w) \<Longrightarrow> so_claim ops i owner secs (w_store w) = (c, s1) \<Longrightarrow> idle (sent w) (w\<lparr>w_store := s1\<rparr>)"
  using claim_ok by (simp add: idle_def)

text \<open>Whatever the lock does, a pass sends at most one order, justified for the task it claimed.\<close>

lemma run_pass_sends:
  assumes ok: "ok (w_store w)" and run: "run_pass ops ex env i lease w = (r, w')"
  shows "ok (w_store w') \<and> (sent w' = sent w \<or>
     (\<exists>task s1 x. so_claim ops i (ex_owner ex) (ex_claim_seconds ex) (w_store w) = (Inr (Some task), s1) \<and> tk_id task = i \<and>
        sent w' = sent w @ [x] \<and> justified rows stat held (ex_owner ex) env task x))"
  using run
proof (cases rule: run_pass_cases)
  case (none c s1)
  then show ?thesis using claim_idle[OF ok none(1)] by (simp add: idle_def)
next
  case (busy task s1 q)
  then show ?thesis using endsD[OF set_status_idle claim_idle[OF ok busy(1)] busy(2)] by (simp add: idle_def)
next
  case (passed task s1 q)
  have "tk_id task = i" using claim_task[OF ok passed(1)] by simp
  then show ?thesis using endsD[OF close_pass_ends claim_idle[OF ok passed(1)] passed(2)] passed(1)
    by (auto simp: at_most_one_def)
qed

lemma run_pass_flat:
  assumes ok: "ok (w_store w)" and run: "run_pass ops ex env i lease w = (Inr (Ran STATUS_CONFIRMED_FLAT), w')"
  shows "\<exists>task s1. so_claim ops i (ex_owner ex) (ex_claim_seconds ex) (w_store w) = (Inr (Some task), s1) \<and> tk_id task = i \<and>
     flat_proven rows stat env task (w_store w')"
  using run
proof (cases rule: run_pass_cases)
  case (passed task s1 q)
  then show ?thesis
    using endsD[OF close_pass_flat claim_idle[OF ok passed(1)] passed(2)] claim_task[OF ok passed(1)] by blast
qed blast+

end

end
