(* ===== verification/Emergency_Store.thy ===== *)
theory Emergency_Store
  imports Emergency_Close
begin

text \<open>
  The Postgres store of emergency close tasks (\<open>PostgresEmergencyCloseStore\<close> and the statements of
  \<open>emergency_close.py\<close>) over the tables of the journal's migrations. A table is the list of its rows in
  the order of their ids; a statement is a function on the tables. Each operation opens one connection:
  the list \<open>db_conns\<close> says of every connection to come whether it succeeds and what the database clock
  shows, and a transaction that raises leaves the tables as they were. Database errors are
  \<open>RuntimeError\<close>s that carry the name of the error class. Left out are the text columns for errors and
  context, the \<open>updated_at\<close> columns, the length limits of texts, the gaps of the id sequences and the
  foreign keys to the trades; an incident is keyed by its task, not by the hash of the task's id.
\<close>

subsection \<open>Tables\<close>

record attempt_row =
  ar_id :: int
  ar_operation :: string
  ar_client_order_id :: string
  ar_exchange :: string
  ar_base :: string
  ar_symbol :: string
  ar_native_market_id :: "string option"
  ar_market_type :: "string option"
  ar_side :: string
  ar_size_usd :: number
  ar_requested_amount :: "number option"
  ar_contract_size :: "number option"
  ar_status :: attempt_status
  ar_order_id :: "string option"
  ar_filled_amount :: "number option"
  ar_trade_id :: "int option"
  ar_task_id :: "int option"
  ar_created_at :: int

record task_row =
  tr_task :: close_task
  tr_claim_owner :: "string option"
  tr_claim_expires_at :: "int option"
  tr_created_at :: int

record incident_row =
  ir_task_id :: int
  ir_exchange :: string
  ir_symbol :: string
  ir_native_market_id :: string
  ir_market_type :: string
  ir_side :: string
  ir_contracts :: number

record db =
  db_attempts :: "attempt_row list"
  db_tasks :: "task_row list"
  db_incidents :: "incident_row list"
  db_next_attempt :: int
  db_next_task :: int
  db_conns :: "(bool \<times> int) list"

definition db_error :: "string \<Rightarrow> py_error" where
  "db_error name = RuntimeError name"

text \<open>\<open>async with connect(...)\<close>: a connection, and the rollback when the body raises.\<close>

definition with_db :: "(int \<Rightarrow> (db, 'a) prog) \<Rightarrow> (db, 'a) prog" where
  "with_db body = (\<lambda>d.
     case db_conns d of
       [] \<Rightarrow> (Inl (db_error ''OperationalError''), d)
     | (up, now) # conns \<Rightarrow>
         (let d' = d\<lparr>db_conns := conns\<rparr> in
          if \<not> up then (Inl (db_error ''OperationalError''), d')
          else case body now d' of
                 (Inl e, _) \<Rightarrow> (Inl e, d')
               | (Inr x, t) \<Rightarrow> (Inr x, t)))"

text \<open>A value stored in a \<open>Numeric(18, scale)\<close> column: rounded half away from zero, refused out of range.\<close>

definition numeric :: "nat \<Rightarrow> number \<Rightarrow> number res" where
  "numeric scale n =
     (case n of
        Num x \<Rightarrow>
          (let u = x * 10 ^ scale;
               k = (if 0 \<le> u then \<lfloor>u + 1 / 2\<rfloor> else - \<lfloor>- u + 1 / 2\<rfloor>)
           in if 10 ^ 18 \<le> \<bar>k\<bar> then Inl (db_error ''NumericValueOutOfRange'')
              else Inr (Num (of_int k / 10 ^ scale)))
      | NotANumber \<Rightarrow> Inr NotANumber
      | Infinite s \<Rightarrow> Inl (db_error ''NumericValueOutOfRange''))"

definition numeric_or_null :: "nat \<Rightarrow> number option \<Rightarrow> number option res" where
  "numeric_or_null scale v =
     (case v of None \<Rightarrow> Inr None | Some n \<Rightarrow> bindE (numeric scale n) (\<lambda>m. Inr (Some m)))"

text \<open>The order of stored numerics: NaN is above every number.\<close>

fun pg_le :: "number \<Rightarrow> number \<Rightarrow> bool" where
  "pg_le a NotANumber = True"
| "pg_le (Num x) (Num y) = (x \<le> y)"
| "pg_le _ _ = False"

definition TASK_REASONS :: "string list" where
  "TASK_REASONS = [''stop_placement_failed'', ''late_fill_flattened'', ''probe_loss_threshold'', ''probe_recovery'']"

text \<open>The check constraints of a task row, and the partial unique index on the active identity.\<close>

definition task_checks :: "close_task \<Rightarrow> bool" where
  "task_checks t \<longleftrightarrow>
     is_entry_client_order_id (tk_entry_client_order_id t) \<and> tk_side t \<in> {''long'', ''short''} \<and>
     \<not> pg_le (tk_owned_quantity t) (Num 0) \<and> pg_le (Num 0) (tk_owned_remainder t) \<and>
     pg_le (tk_owned_remainder t) (tk_owned_quantity t) \<and> tk_reason t \<in> set TASK_REASONS \<and> 0 \<le> tk_rejected_sends t"

definition active :: "close_task \<Rightarrow> bool" where
  "active t \<longleftrightarrow> tk_status t \<in> set ACTIVE_STATUSES"

definition identity :: "close_task \<Rightarrow> string \<times> string \<times> string \<times> string" where
  "identity t = (tk_exchange t, tk_native_market_id t, tk_market_type t, tk_side t)"

definition active_conflict :: "db \<Rightarrow> close_task \<Rightarrow> bool" where
  "active_conflict d t \<longleftrightarrow>
     active t \<and> list_ex (\<lambda>r. tk_id (tr_task r) \<noteq> tk_id t \<and> active (tr_task r) \<and> identity (tr_task r) = identity t) (db_tasks d)"

definition task_by_id :: "db \<Rightarrow> int \<Rightarrow> task_row option" where
  "task_by_id d i = find (\<lambda>r. tk_id (tr_task r) = i) (db_tasks d)"

subsection \<open>Inserting rows\<close>

definition insert_attempt :: "attempt_row \<Rightarrow> (db, int) prog" where
  "insert_attempt row = (\<lambda>d.
     let i = db_next_attempt d in
     case bindE (numeric 4 (ar_size_usd row)) (\<lambda>usd.
          bindE (numeric_or_null 8 (ar_requested_amount row)) (\<lambda>requested.
          bindE (numeric_or_null 8 (ar_filled_amount row)) (\<lambda>filled.
          bindE (numeric_or_null 8 (ar_contract_size row)) (\<lambda>csize.
          bindE (check (\<not> list_ex (\<lambda>r. ar_client_order_id r = ar_client_order_id row) (db_attempts d)) (db_error ''UniqueViolation'')) (\<lambda>_.
          bindE (check (case ar_task_id row of None \<Rightarrow> True | Some k \<Rightarrow> task_by_id d k \<noteq> None) (db_error ''ForeignKeyViolation'')) (\<lambda>_.
          Inr (row\<lparr>ar_id := i, ar_size_usd := usd, ar_requested_amount := requested, ar_filled_amount := filled,
                   ar_contract_size := csize\<rparr>))))))) of
       Inl e \<Rightarrow> (Inl e, d)
     | Inr r \<Rightarrow> (Inr i, d\<lparr>db_attempts := db_attempts d @ [r], db_next_attempt := i + 1\<rparr>))"

text \<open>The new task row that \<open>_INSERT_TASK\<close> writes.\<close>

definition new_task :: "task_spec \<Rightarrow> int \<Rightarrow> number \<Rightarrow> close_task" where
  "new_task spec i quantity =
     \<lparr>tk_id = i, tk_source_attempt_id = ts_source_attempt_id spec,
      tk_entry_client_order_id = ts_entry_client_order_id spec, tk_exchange = ts_exchange spec,
      tk_base = upper (ts_base spec), tk_symbol = ts_symbol spec, tk_native_market_id = ts_native_market_id spec,
      tk_market_type = ts_market_type spec, tk_side = ts_side spec, tk_trade_id = ts_trade_id spec,
      tk_owned_quantity = quantity, tk_owned_remainder = quantity, tk_reason = ts_reason spec,
      tk_status = STATUS_REQUESTED, tk_rejected_sends = 0, tk_confirmed_flat_at = None\<rparr>"

text \<open>The id of the inserted row, or none when the source attempt has a task.\<close>

definition insert_task :: "int \<Rightarrow> task_spec \<Rightarrow> (db, int option) prog" where
  "insert_task now spec = (\<lambda>d.
     let i = db_next_task d in
     case bindE (numeric 8 (ts_owned_quantity spec)) (\<lambda>q.
          bindE (check (task_checks (new_task spec i q)) (db_error ''CheckViolation'')) (\<lambda>_. Inr (new_task spec i q))) of
       Inl e \<Rightarrow> (Inl e, d)
     | Inr t \<Rightarrow>
         if list_ex (\<lambda>r. tk_source_attempt_id (tr_task r) = ts_source_attempt_id spec) (db_tasks d) then (Inr None, d)
         else if active_conflict d t then (Inl (db_error ''UniqueViolation''), d)
         else if \<not> list_ex (\<lambda>r. ar_id r = ts_source_attempt_id spec) (db_attempts d)
         then (Inl (db_error ''ForeignKeyViolation''), d)
         else (Inr (Some i),
               d\<lparr>db_tasks := db_tasks d @ [\<lparr>tr_task = t, tr_claim_owner = None, tr_claim_expires_at = None, tr_created_at = now\<rparr>],
                 db_next_task := i + 1\<rparr>))"

definition insert_incident :: "int \<Rightarrow> task_spec \<Rightarrow> (db, unit) prog" where
  "insert_incident i spec =
     bindS (pureS (numeric 8 (ts_owned_quantity spec))) (\<lambda>contracts.
     modifyS (\<lambda>d. if list_ex (\<lambda>r. ir_task_id r = i) (db_incidents d) then d
       else d\<lparr>db_incidents := db_incidents d @
         [\<lparr>ir_task_id = i, ir_exchange = ts_exchange spec, ir_symbol = ts_symbol spec,
           ir_native_market_id = ts_native_market_id spec, ir_market_type = ts_market_type spec,
           ir_side = ts_side spec, ir_contracts = contracts\<rparr>]\<rparr>))"

definition adopt_close :: "int \<Rightarrow> int \<Rightarrow> task_spec \<Rightarrow> adopted_close \<Rightarrow> (db, int) prog" where
  "adopt_close now i spec close =
     insert_attempt
       \<lparr>ar_id = 0, ar_operation = ''close'', ar_client_order_id = ac_client_order_id close, ar_exchange = ts_exchange spec,
        ar_base = upper (ts_base spec), ar_symbol = ts_symbol spec,
        ar_native_market_id = Some (ts_native_market_id spec), ar_market_type = Some (ts_market_type spec),
        ar_side = ts_side spec, ar_size_usd = Num 0, ar_requested_amount = ac_requested_amount close,
        ar_contract_size = None, ar_status = ac_status close, ar_order_id = ac_order_id close,
        ar_filled_amount = ac_filled_amount close, ar_trade_id = None, ar_task_id = Some i, ar_created_at = now\<rparr>"

fun adopt_each :: "int \<Rightarrow> int \<Rightarrow> task_spec \<Rightarrow> adopted_close list \<Rightarrow> (db, unit) prog" where
  "adopt_each now i spec [] = ret ()"
| "adopt_each now i spec (c # cs) = bindS (adopt_close now i spec c) (\<lambda>_. adopt_each now i spec cs)"

subsection \<open>Linking closes that bypassed the task\<close>

definition unlinked_of_trade :: "int \<Rightarrow> attempt_row \<Rightarrow> bool" where
  "unlinked_of_trade trade_id r \<longleftrightarrow> ar_operation r = ''close'' \<and> ar_trade_id r = Some trade_id \<and> ar_task_id r = None"

definition link_trade_closes :: "int \<Rightarrow> int \<Rightarrow> (db, unit) prog" where
  "link_trade_closes i trade_id = (\<lambda>d.
     if list_ex (unlinked_of_trade trade_id) (db_attempts d) \<and> task_by_id d i = None
     then (Inl (db_error ''ForeignKeyViolation''), d)
     else (Inr (), d\<lparr>db_attempts := map (\<lambda>r. if unlinked_of_trade trade_id r then r\<lparr>ar_task_id := Some i\<rparr> else r) (db_attempts d)\<rparr>))"

definition foreign_trade_closes :: "int \<Rightarrow> int \<Rightarrow> db \<Rightarrow> nat" where
  "foreign_trade_closes trade_id i d =
     length (filter (\<lambda>r. ar_operation r = ''close'' \<and> ar_trade_id r = Some trade_id \<and>
       ar_task_id r \<noteq> None \<and> ar_task_id r \<noteq> Some i) (db_attempts d))"

text \<open>\<open>since\<close> is the instant of the subselect, or none when its row is missing.\<close>

definition unlinked_instrument_closes :: "string \<Rightarrow> string \<Rightarrow> string \<Rightarrow> string \<Rightarrow> int option \<Rightarrow> db \<Rightarrow> nat" where
  "unlinked_instrument_closes exch base native mtype since d =
     length (filter (\<lambda>r. ar_operation r = ''close'' \<and> ar_task_id r = None \<and> ar_exchange r = exch \<and>
       upper (ar_base r) = upper base \<and>
       (ar_native_market_id r = None \<or> ar_market_type r = None \<or>
        ar_native_market_id r = Some native \<and> ar_market_type r = Some mtype) \<and>
       (case since of None \<Rightarrow> False | Some t \<Rightarrow> t \<le> ar_created_at r) \<and>
       ar_status r \<noteq> Att_failed \<and> ar_status r \<noteq> Att_no_fill) (db_attempts d))"

definition since_entry :: "int \<Rightarrow> db \<Rightarrow> int option" where
  "since_entry i d = map_option ar_created_at (find (\<lambda>r. ar_id r = i) (db_attempts d))"

definition since_task :: "int \<Rightarrow> db \<Rightarrow> int option" where
  "since_task i d = map_option tr_created_at (task_by_id d i)"

definition link_closes_in ::
  "int \<Rightarrow> int option \<Rightarrow> string \<Rightarrow> string \<Rightarrow> string \<Rightarrow> string \<Rightarrow> (db \<Rightarrow> int option) \<Rightarrow> (db, string option) prog" where
  "link_closes_in i trade_id exch base native mtype since =
     bindS (case trade_id of
              None \<Rightarrow> ret False
            | Some t \<Rightarrow> bindS (link_trade_closes i t) (\<lambda>_. readS (\<lambda>d. 0 < foreign_trade_closes t i d))) (\<lambda>foreign.
     if foreign then ret (Some ''a close of the trade belongs to another task'')
     else bindS (readS (\<lambda>d. unlinked_instrument_closes exch base native mtype (since d) d)) (\<lambda>n.
       ret (if 0 < n then Some ''a close of the instrument is linked to no task'' else None)))"

definition set_task_manual :: "int \<Rightarrow> db \<Rightarrow> db" where
  "set_task_manual i d =
     d\<lparr>db_tasks := map (\<lambda>r. if tk_id (tr_task r) = i then r\<lparr>tr_task := (tr_task r)\<lparr>tk_status := STATUS_MANUAL_REQUIRED\<rparr>\<rparr> else r)
         (db_tasks d)\<rparr>"

subsection \<open>The operations of the store\<close>

definition create_task_in :: "int \<Rightarrow> task_spec \<Rightarrow> adopted_close list \<Rightarrow> bool \<Rightarrow> (db, int \<times> bool) prog" where
  "create_task_in now spec adopted link =
     bindS (pureS (check (is_entry_client_order_id (ts_entry_client_order_id spec))
              (ValueError ''emergency close needs a derived-id entry clientOrderId''))) (\<lambda>_.
     bindS (pureS (if ts_side spec \<notin> {''long'', ''short''} then Inr True else nle (ts_owned_quantity spec) (Num 0))) (\<lambda>bad.
     bindS (pureS (check (\<not> bad) (ValueError ''emergency close needs a side and a positive owned quantity''))) (\<lambda>_.
     bindS (insert_task now spec) (\<lambda>inserted.
     case inserted of
       None \<Rightarrow>
         bindS (readS (\<lambda>d. find (\<lambda>r. tk_source_attempt_id (tr_task r) = ts_source_attempt_id spec) (db_tasks d))) (\<lambda>row.
         case row of
           None \<Rightarrow> pureS (Inl (RuntimeError ''emergency close task vanished on conflict''))
         | Some r \<Rightarrow> ret (tk_id (tr_task r), False))
     | Some i \<Rightarrow>
         bindS (insert_incident i spec) (\<lambda>_.
         bindS (adopt_each now i spec adopted) (\<lambda>_.
         if \<not> link then ret (i, True)
         else bindS (link_closes_in i (ts_trade_id spec) (ts_exchange spec) (ts_base spec) (ts_native_market_id spec)
                       (ts_market_type spec) (since_entry (ts_source_attempt_id spec))) (\<lambda>problem.
              bindS (if problem = None then ret () else modifyS (set_task_manual i)) (\<lambda>_. ret (i, True)))))))))"

definition create_task :: "task_spec \<Rightarrow> adopted_close list \<Rightarrow> (db, int \<times> bool) prog" where
  "create_task spec adopted =
     tryS (with_db (\<lambda>now. create_task_in now spec adopted False))
       (\<lambda>e. pureS (Inl (if e = db_error ''UniqueViolation'' then RuntimeError ''TaskConflictError'' else e)))"

definition link_late_closes :: "close_task \<Rightarrow> (db, string option) prog" where
  "link_late_closes task =
     with_db (\<lambda>_. link_closes_in (tk_id task) (tk_trade_id task) (tk_exchange task) (tk_base task)
       (tk_native_market_id task) (tk_market_type task) (since_task (tk_id task)))"

definition runnable_task_ids :: "(db, int list) prog" where
  "runnable_task_ids =
     with_db (\<lambda>_. readS (\<lambda>d. sort (map (\<lambda>r. tk_id (tr_task r)) (filter (\<lambda>r. tk_status (tr_task r) \<in> set RUNNABLE_STATUSES) (db_tasks d)))))"

definition claimable :: "int \<Rightarrow> string \<Rightarrow> task_row \<Rightarrow> bool" where
  "claimable now owner r \<longleftrightarrow>
     tk_status (tr_task r) \<in> {STATUS_REQUESTED, STATUS_SENDING, STATUS_UNKNOWN} \<and>
     (tr_claim_owner r = None \<or> tr_claim_owner r = Some owner \<or>
      (case tr_claim_expires_at r of None \<Rightarrow> False | Some t \<Rightarrow> t < now))"

text \<open>The claimed task without \<open>confirmed_flat_at\<close>, which the statement does not return.\<close>

definition claim :: "int \<Rightarrow> string \<Rightarrow> int \<Rightarrow> (db, close_task option) prog" where
  "claim i owner lease =
     with_db (\<lambda>now d.
       case find (\<lambda>r. tk_id (tr_task r) = i \<and> claimable now owner r) (db_tasks d) of
         None \<Rightarrow> (Inr None, d)
       | Some r \<Rightarrow>
           (Inr (Some ((tr_task r)\<lparr>tk_confirmed_flat_at := None\<rparr>)),
            d\<lparr>db_tasks := map (\<lambda>q. if tk_id (tr_task q) = i
                then q\<lparr>tr_claim_owner := Some owner, tr_claim_expires_at := Some (now + lease)\<rparr> else q) (db_tasks d)\<rparr>))"

definition close_of_row :: "attempt_row \<Rightarrow> close_order" where
  "close_of_row r =
     \<lparr>co_attempt_id = ar_id r, co_client_order_id = ar_client_order_id r, co_status = ar_status r,
      co_order_id = ar_order_id r, co_requested_amount = ar_requested_amount r,
      co_filled_amount = ar_filled_amount r, co_created_at = ar_created_at r\<rparr>"

definition closes_of :: "db \<Rightarrow> int \<Rightarrow> close_order list" where
  "closes_of d i = map close_of_row (sort_key ar_id (filter (\<lambda>r. ar_task_id r = Some i) (db_attempts d)))"

definition load_closes :: "int \<Rightarrow> (db, close_order list) prog" where
  "load_closes i = with_db (\<lambda>_. readS (\<lambda>d. closes_of d i))"

definition intent_row :: "close_task \<Rightarrow> string \<Rightarrow> number \<Rightarrow> number \<Rightarrow> number \<Rightarrow> int \<Rightarrow> attempt_row" where
  "intent_row task cid amount size_usd contract_size now =
     \<lparr>ar_id = 0, ar_operation = ''close'', ar_client_order_id = cid, ar_exchange = tk_exchange task,
      ar_base = tk_base task, ar_symbol = tk_symbol task, ar_native_market_id = Some (tk_native_market_id task),
      ar_market_type = Some (tk_market_type task), ar_side = tk_side task, ar_size_usd = size_usd,
      ar_requested_amount = Some amount, ar_contract_size = Some contract_size, ar_status = Att_pending,
      ar_order_id = None, ar_filled_amount = None, ar_trade_id = tk_trade_id task,
      ar_task_id = Some (tk_id task), ar_created_at = now\<rparr>"

definition record_close_intent :: "close_task \<Rightarrow> string \<Rightarrow> number \<Rightarrow> number \<Rightarrow> number \<Rightarrow> (db, int) prog" where
  "record_close_intent task cid amount size_usd contract_size =
     with_db (\<lambda>now. insert_attempt (intent_row task cid amount size_usd contract_size now))"

definition coalesce :: "'a option \<Rightarrow> 'a option \<Rightarrow> 'a option" where
  "coalesce a b = (case a of None \<Rightarrow> b | Some x \<Rightarrow> Some x)"

definition mark_close :: "int \<Rightarrow> attempt_status \<Rightarrow> string option \<Rightarrow> number option \<Rightarrow> (db, unit) prog" where
  "mark_close i st oid filled =
     with_db (\<lambda>_ d.
       let hit = (\<lambda>r. ar_id r = i \<and> ar_task_id r \<noteq> None) in
       case (if list_ex hit (db_attempts d) then numeric_or_null 8 filled else Inr None) of
         Inl e \<Rightarrow> (Inl e, d)
       | Inr f \<Rightarrow>
           (Inr (), d\<lparr>db_attempts := map (\<lambda>r. if hit r
              then r\<lparr>ar_status := st, ar_order_id := coalesce oid (ar_order_id r), ar_filled_amount := coalesce f (ar_filled_amount r)\<rparr>
              else r) (db_attempts d)\<rparr>))"

text \<open>The row \<open>_UPDATE_TASK\<close> writes: the first confirmation is kept, and a release clears the claim.\<close>

definition updated_row :: "int \<Rightarrow> task_status \<Rightarrow> number \<Rightarrow> int \<Rightarrow> bool \<Rightarrow> task_row \<Rightarrow> task_row" where
  "updated_row now st rest rejected release r =
     r\<lparr>tr_task := (tr_task r)\<lparr>tk_status := st, tk_owned_remainder := rest, tk_rejected_sends := rejected,
         tk_confirmed_flat_at := (if st = STATUS_CONFIRMED_FLAT then coalesce (tk_confirmed_flat_at (tr_task r)) (Some now)
           else tk_confirmed_flat_at (tr_task r))\<rparr>,
       tr_claim_owner := (if release then None else tr_claim_owner r),
       tr_claim_expires_at := (if release then None else tr_claim_expires_at r)\<rparr>"

definition update_task :: "close_task \<Rightarrow> string \<Rightarrow> task_status \<Rightarrow> number \<Rightarrow> int \<Rightarrow> bool \<Rightarrow> (db, unit) prog" where
  "update_task task owner st rest rejected release =
     with_db (\<lambda>now d.
       case find (\<lambda>r. tk_id (tr_task r) = tk_id task \<and> tr_claim_owner r = Some owner) (db_tasks d) of
         None \<Rightarrow> (Inl (RuntimeError ''emergency close task claim was lost''), d)
       | Some r \<Rightarrow>
           (case numeric 8 rest of
              Inl e \<Rightarrow> (Inl e, d)
            | Inr q \<Rightarrow>
                let r' = updated_row now st q rejected release r in
                if \<not> task_checks (tr_task r') then (Inl (db_error ''CheckViolation''), d)
                else if active_conflict d (tr_task r') then (Inl (db_error ''UniqueViolation''), d)
                else (Inr (), d\<lparr>db_tasks := map (\<lambda>x. if tk_id (tr_task x) = tk_id task then r' else x) (db_tasks d)\<rparr>)))"

definition WEEK :: int where
  "WEEK = 7 * 24 * 60 * 60 * 1000000"

definition recovery_candidates :: "(db, recovery_candidate list) prog" where
  "recovery_candidates =
     with_db (\<lambda>now. readS (\<lambda>d.
       map (\<lambda>r. \<lparr>rc_attempt_id = ar_id r, rc_entry_client_order_id = ar_client_order_id r, rc_exchange = ar_exchange r,
                 rc_base = ar_base r, rc_symbol = ar_symbol r, rc_native_market_id = the (ar_native_market_id r),
                 rc_market_type = the (ar_market_type r), rc_side = ar_side r\<rparr>)
         (sort_key ar_id (filter (\<lambda>r. ar_operation r = ''entry'' \<and> is_entry_client_order_id (ar_client_order_id r) \<and>
            ar_trade_id r = None \<and> ar_native_market_id r \<noteq> None \<and> ar_market_type r \<noteq> None \<and>
            ar_side r \<in> {''long'', ''short''} \<and>
            ar_status r \<in> {Att_pending, Att_accepted, Att_submission_unknown, Att_completed} \<and>
            now - WEEK < ar_created_at r \<and>
            \<not> list_ex (\<lambda>t. tk_source_attempt_id (tr_task t) = ar_id r) (db_tasks d)) (db_attempts d)))))"

definition has_active_task :: "string \<Rightarrow> string \<Rightarrow> (db, bool) prog" where
  "has_active_task exch base =
     with_db (\<lambda>_. readS (\<lambda>d. list_ex (\<lambda>r. tk_exchange (tr_task r) = exch \<and> tk_base (tr_task r) = upper base \<and>
       tk_status (tr_task r) \<in> {STATUS_REQUESTED, STATUS_SENDING, STATUS_UNKNOWN, STATUS_MANUAL_REQUIRED}) (db_tasks d)))"

definition postgres_store :: "db store_ops" where
  "postgres_store =
     \<lparr>so_create_task = create_task, so_link_late_closes = link_late_closes, so_runnable_task_ids = runnable_task_ids,
      so_claim = claim, so_load_closes = load_closes, so_record_close_intent = record_close_intent,
      so_mark_close = mark_close, so_update_task = update_task, so_recovery_candidates = recovery_candidates\<rparr>"
subsection \<open>The invariant of the tables\<close>

definition task_ids :: "db \<Rightarrow> int list" where
  "task_ids d = map (\<lambda>r. tk_id (tr_task r)) (db_tasks d)"

definition attempts_ok :: "db \<Rightarrow> bool" where
  "attempts_ok d \<longleftrightarrow>
     sorted_wrt (<) (map ar_id (db_attempts d)) \<and> (\<forall>r \<in> set (db_attempts d). ar_id r < db_next_attempt d) \<and>
     distinct (map ar_client_order_id (db_attempts d)) \<and>
     (\<forall>r \<in> set (db_attempts d). \<forall>i. ar_task_id r = Some i \<longrightarrow> ar_operation r = ''close'' \<and> i \<in> set (task_ids d))"

definition active_unique :: "task_row list \<Rightarrow> bool" where
  "active_unique rs \<longleftrightarrow>
     (\<forall>r \<in> set rs. \<forall>q \<in> set rs.
        active (tr_task r) \<and> active (tr_task q) \<and> identity (tr_task r) = identity (tr_task q) \<longrightarrow> tk_id (tr_task r) = tk_id (tr_task q))"

definition tasks_ok :: "db \<Rightarrow> bool" where
  "tasks_ok d \<longleftrightarrow>
     sorted_wrt (<) (task_ids d) \<and> (\<forall>i \<in> set (task_ids d). i < db_next_task d) \<and>
     distinct (map (\<lambda>r. tk_source_attempt_id (tr_task r)) (db_tasks d)) \<and>
     active_unique (db_tasks d) \<and> (\<forall>r \<in> set (db_tasks d). task_checks (tr_task r))"

definition incidents_ok :: "db \<Rightarrow> bool" where
  "incidents_ok d \<longleftrightarrow> set (task_ids d) \<subseteq> ir_task_id ` set (db_incidents d)"

definition db_ok :: "db \<Rightarrow> bool" where
  "db_ok d \<longleftrightarrow> attempts_ok d \<and> tasks_ok d \<and> incidents_ok d"

lemma conns_irrelevant [simp]:
  "task_ids (d\<lparr>db_conns := cs\<rparr>) = task_ids d" "attempts_ok (d\<lparr>db_conns := cs\<rparr>) = attempts_ok d"
  "tasks_ok (d\<lparr>db_conns := cs\<rparr>) = tasks_ok d" "incidents_ok (d\<lparr>db_conns := cs\<rparr>) = incidents_ok d"
  "db_ok (d\<lparr>db_conns := cs\<rparr>) = db_ok d" "closes_of (d\<lparr>db_conns := cs\<rparr>) = closes_of d"
  "task_by_id (d\<lparr>db_conns := cs\<rparr>) = task_by_id d" "active_conflict (d\<lparr>db_conns := cs\<rparr>) = active_conflict d"
  by (simp_all add: task_ids_def attempts_ok_def tasks_ok_def incidents_ok_def db_ok_def closes_of_def task_by_id_def
      active_conflict_def fun_eq_iff)

text \<open>A connection either fails, leaving the tables, or commits what its body did.\<close>

lemma with_db_cases:
  assumes "with_db body d = (r, t)"
  obtains (fails) e cs where "r = Inl e" "t = d\<lparr>db_conns := cs\<rparr>"
    | (commits) x now cs where "r = Inr x" "db_conns d = (True, now) # cs" "body now (d\<lparr>db_conns := cs\<rparr>) = (Inr x, t)"
proof (cases "db_conns d")
  case Nil
  then have "r = Inl (db_error ''OperationalError'')" "t = d\<lparr>db_conns := []\<rparr>" using assms by (auto simp: with_db_def)
  then show thesis by (rule fails)
next
  case (Cons c cs)
  obtain q u where q: "body (snd c) (d\<lparr>db_conns := cs\<rparr>) = (q, u)" by force
  show thesis
  proof (cases "fst c \<and> (\<exists>x. q = Inr x)")
    case True
    then show thesis using assms Cons q commits by (cases c) (auto simp: with_db_def)
  next
    case False
    then have "\<exists>e. r = Inl e" "t = d\<lparr>db_conns := cs\<rparr>" using assms Cons q
      by (cases c; cases q; auto simp: with_db_def Let_def split: if_splits)+
    then show thesis using fails by blast
  qed
qed

lemma with_db_keeps:
  assumes "\<And>d cs. I d \<Longrightarrow> I (d\<lparr>db_conns := cs\<rparr>)" "\<And>now d x t. I d \<Longrightarrow> body now d = (Inr x, t) \<Longrightarrow> I t"
  shows "keeps I (with_db body)"
proof (rule endsI)
  fix d r t assume "I d" "with_db body d = (r, t)"
  then show "I t" using assms by (elim with_db_cases) blast+
qed

lemma with_db_read: "keeps I (with_db (\<lambda>now. readS (f now)))" if "\<And>d cs. I d \<Longrightarrow> I (d\<lparr>db_conns := cs\<rparr>)"
  by (rule with_db_keeps) (auto simp: readS_def that)

lemma insert_attempt_Inr:
  assumes "insert_attempt row d = (Inr i, t)"
  obtains r where "i = db_next_attempt d" "t = d\<lparr>db_attempts := db_attempts d @ [r], db_next_attempt := i + 1\<rparr>"
    "ar_id r = i" "ar_client_order_id r = ar_client_order_id row" "ar_status r = ar_status row"
    "ar_task_id r = ar_task_id row" "ar_operation r = ar_operation row"
    "\<forall>q \<in> set (db_attempts d). ar_client_order_id q \<noteq> ar_client_order_id row"
    "\<forall>k. ar_task_id row = Some k \<longrightarrow> task_by_id d k \<noteq> None"
  using assms
  by (auto simp: insert_attempt_def bindE_def check_def Let_def list_ex_iff split: sum.splits if_splits option.splits)

lemma task_by_id_None [simp]: "task_by_id d i = None \<longleftrightarrow> i \<notin> set (task_ids d)"
  by (auto simp: task_by_id_def task_ids_def find_None_iff)

lemma insert_attempt_ok:
  assumes "insert_attempt row d = (Inr i, t)" "attempts_ok d" "ar_operation row = ''close''"
  shows "attempts_ok t \<and> db_tasks t = db_tasks d \<and> db_incidents t = db_incidents d \<and> db_next_task t = db_next_task d"
  using assms(1)
proof (rule insert_attempt_Inr)
  fix r assume *: "i = db_next_attempt d" "t = d\<lparr>db_attempts := db_attempts d @ [r], db_next_attempt := i + 1\<rparr>"
    "ar_id r = i" "ar_client_order_id r = ar_client_order_id row" "ar_task_id r = ar_task_id row" "ar_operation r = ar_operation row"
    "\<forall>q \<in> set (db_attempts d). ar_client_order_id q \<noteq> ar_client_order_id row"
    "\<forall>k. ar_task_id row = Some k \<longrightarrow> task_by_id d k \<noteq> None"
  then show ?thesis using assms(2,3)
    by (fastforce simp: attempts_ok_def sorted_wrt_append task_ids_def image_iff)
qed
lemma adopt_each_ok:
  assumes "adopt_each now i spec cs d = (Inr (), t)" "attempts_ok d"
  shows "attempts_ok t \<and> db_tasks t = db_tasks d \<and> db_incidents t = db_incidents d \<and> db_next_task t = db_next_task d"
  using assms
proof (induction cs arbitrary: d)
  case Nil
  then show ?case by (simp add: ret_def)
next
  case (Cons c cs)
  obtain k u where u: "adopt_close now i spec c d = (Inr k, u)" "adopt_each now i spec cs u = (Inr (), t)"
    using Cons.prems(1) by (auto simp: prog_simps split: prod.splits sum.splits)
  have "attempts_ok u \<and> db_tasks u = db_tasks d \<and> db_incidents u = db_incidents d \<and> db_next_task u = db_next_task d"
    using insert_attempt_ok[OF u(1)[unfolded adopt_close_def] Cons.prems(2)] by simp
  then show ?case using Cons.IH[OF u(2)] by simp
qed

lemma insert_task_cases:
  assumes "insert_task now spec d = (Inr res, t)"
  obtains (exists) "res = None" "t = d"
    | (new) q where "res = Some (db_next_task d)" "task_checks (new_task spec (db_next_task d) q)"
      "\<forall>r \<in> set (db_tasks d). tk_source_attempt_id (tr_task r) \<noteq> ts_source_attempt_id spec"
      "\<not> active_conflict d (new_task spec (db_next_task d) q)"
      "t = d\<lparr>db_tasks := db_tasks d @ [\<lparr>tr_task = new_task spec (db_next_task d) q, tr_claim_owner = None,
            tr_claim_expires_at = None, tr_created_at = now\<rparr>], db_next_task := db_next_task d + 1\<rparr>"
proof (cases "numeric 8 (ts_owned_quantity spec)")
  case (Inl e)
  then show thesis using assms by (simp add: insert_task_def)
next
  case (Inr q)
  let ?n = "new_task spec (db_next_task d) q"
  let ?dup = "list_ex (\<lambda>r. tk_source_attempt_id (tr_task r) = ts_source_attempt_id spec) (db_tasks d)"
  have checks: "task_checks ?n"
    using assms Inr by (cases "task_checks ?n") (simp_all add: insert_task_def)
  show thesis
  proof (cases ?dup)
    case True
    then show thesis using assms Inr checks exists by (simp add: insert_task_def)
  next
    case False
    then have "\<not> active_conflict d ?n"
      using assms Inr checks by (cases "active_conflict d ?n") (simp_all add: insert_task_def)
    moreover have "\<forall>r \<in> set (db_tasks d). tk_source_attempt_id (tr_task r) \<noteq> ts_source_attempt_id spec"
      using False by (simp add: list_ex_iff)
    ultimately show thesis using assms Inr checks False
      by (intro new[of q]) (simp_all add: insert_task_def Let_def split: if_splits)
  qed
qed

lemma new_task_fields [simp]:
  "tk_id (new_task spec i q) = i" "tk_source_attempt_id (new_task spec i q) = ts_source_attempt_id spec"
  "active (new_task spec i q)"
  by (simp_all add: new_task_def active_def ACTIVE_STATUSES_def RUNNABLE_STATUSES_def)

lemma insert_task_ok:
  assumes "insert_task now spec d = (Inr (Some i), t)" "tasks_ok d" "attempts_ok d"
  shows "tasks_ok t \<and> attempts_ok t \<and> task_ids t = task_ids d @ [i] \<and> db_incidents t = db_incidents d"
  using assms(1)
proof (cases rule: insert_task_cases)
  case (new q)
  let ?n = "new_task spec i q"
  have i: "i = db_next_task d" using new(1) by simp
  have ids: "task_ids t = task_ids d @ [i]" using new(5) by (simp add: task_ids_def i)
  have "tasks_ok t" unfolding tasks_ok_def
  proof (intro conjI)
    have "db_next_task t = i + 1" using new(5) by (simp add: i)
    then show "sorted_wrt (<) (task_ids t)" "\<forall>k \<in> set (task_ids t). k < db_next_task t"
      unfolding ids using assms(2) by (auto simp: i tasks_ok_def sorted_wrt_append)
    show "distinct (map (\<lambda>r. tk_source_attempt_id (tr_task r)) (db_tasks t))"
      using assms(2) new(3,5) by (auto simp: tasks_ok_def)
    show "\<forall>r \<in> set (db_tasks t). task_checks (tr_task r)" using assms(2) new(2,5) by (auto simp: tasks_ok_def)
    have fresh: "tk_id (tr_task r) \<noteq> i" if "r \<in> set (db_tasks d)" for r
      using assms(2) that i by (force simp: tasks_ok_def task_ids_def)
    have no: "\<not> (active (tr_task r) \<and> identity (tr_task r) = identity ?n)" if "r \<in> set (db_tasks d)" for r
      using new(4) fresh[OF that] that by (auto simp: active_conflict_def list_ex_iff i)
    have old: "tk_id (tr_task r) = tk_id (tr_task q)" if "r \<in> set (db_tasks d)" "q \<in> set (db_tasks d)"
      "active (tr_task r)" "active (tr_task q)" "identity (tr_task r) = identity (tr_task q)" for r q
      using assms(2) that unfolding tasks_ok_def active_unique_def by blast
    show "active_unique (db_tasks t)" unfolding active_unique_def
    proof (intro ballI impI, elim conjE)
      fix r q' assume mem: "r \<in> set (db_tasks t)" "q' \<in> set (db_tasks t)" and act: "active (tr_task r)" "active (tr_task q')"
        and same: "identity (tr_task r) = identity (tr_task q')"
      have split: "x \<in> set (db_tasks d) \<or> tr_task x = ?n" if "x \<in> set (db_tasks t)" for x
        using that new(5) by (auto simp: i)
      from split[OF mem(1)] split[OF mem(2)] show "tk_id (tr_task r) = tk_id (tr_task q')"
      proof (elim disjE)
        assume "r \<in> set (db_tasks d)" "q' \<in> set (db_tasks d)"
        then show ?thesis by (rule old[OF _ _ act same])
      next
        assume "r \<in> set (db_tasks d)" "tr_task q' = ?n"
        then show ?thesis using no[of r] act(1) same by simp
      next
        assume "tr_task r = ?n" "q' \<in> set (db_tasks d)"
        then show ?thesis using no[of q'] act(2) same by simp
      qed simp
    qed
  qed
  moreover have "attempts_ok t" using assms(3) new(5) by (auto simp: attempts_ok_def ids task_ids_def)
  ultimately show ?thesis using new(5) ids by simp
qed simp

text \<open>A change of a task that keeps its identifying columns.\<close>

lemma tasks_ok_map:
  assumes ok: "tasks_ok d"
    and same: "\<And>r. r \<in> set (db_tasks d) \<Longrightarrow> tk_id (tr_task (f r)) = tk_id (tr_task r) \<and>
      tk_source_attempt_id (tr_task (f r)) = tk_source_attempt_id (tr_task r) \<and> identity (tr_task (f r)) = identity (tr_task r)"
    and checks: "\<And>r. r \<in> set (db_tasks d) \<Longrightarrow> task_checks (tr_task (f r))"
    and act: "\<And>r q. r \<in> set (db_tasks d) \<Longrightarrow> q \<in> set (db_tasks d) \<Longrightarrow> active (tr_task (f r)) \<Longrightarrow> active (tr_task (f q)) \<Longrightarrow>
      identity (tr_task r) = identity (tr_task q) \<Longrightarrow> tk_id (tr_task r) = tk_id (tr_task q)"
  shows "tasks_ok (d\<lparr>db_tasks := map f (db_tasks d)\<rparr>)"
proof -
  have ids: "map (\<lambda>r. tk_id (tr_task (f r))) (db_tasks d) = map (\<lambda>r. tk_id (tr_task r)) (db_tasks d)"
    "map (\<lambda>r. tk_source_attempt_id (tr_task (f r))) (db_tasks d) = map (\<lambda>r. tk_source_attempt_id (tr_task r)) (db_tasks d)"
    by (rule map_cong[OF refl], use same in blast)+
  have "tk_id (tr_task (f r)) = tk_id (tr_task (f q))"
    if m: "r \<in> set (db_tasks d)" "q \<in> set (db_tasks d)" and a: "active (tr_task (f r))" "active (tr_task (f q))"
      and e: "identity (tr_task (f r)) = identity (tr_task (f q))" for r q
    using act[OF m a] same[OF m(1)] same[OF m(2)] e by metis
  then have "active_unique (map f (db_tasks d))" unfolding active_unique_def set_map by blast
  moreover have "\<forall>r \<in> set (map f (db_tasks d)). task_checks (tr_task r)" using checks by simp
  moreover have "task_ids (d\<lparr>db_tasks := map f (db_tasks d)\<rparr>) = task_ids d" by (simp add: task_ids_def comp_def ids)
  ultimately show ?thesis using ok unfolding tasks_ok_def by (simp add: comp_def ids)
qed

lemma tasks_ok_active:
  "tasks_ok d \<Longrightarrow> r \<in> set (db_tasks d) \<Longrightarrow> q \<in> set (db_tasks d) \<Longrightarrow> active (tr_task r) \<Longrightarrow> active (tr_task q) \<Longrightarrow>
     identity (tr_task r) = identity (tr_task q) \<Longrightarrow> tk_id (tr_task r) = tk_id (tr_task q)"
  unfolding tasks_ok_def active_unique_def by blast
lemma tasks_ok_row_unique:
  assumes "tasks_ok d" "r \<in> set (db_tasks d)" "q \<in> set (db_tasks d)" "tk_id (tr_task r) = tk_id (tr_task q)"
  shows "r = q"
proof -
  have "distinct (map (\<lambda>r. tk_id (tr_task r)) (db_tasks d))"
    using assms(1) strict_sorted_iff by (auto simp: tasks_ok_def task_ids_def)
  then show ?thesis using assms(2-4) by (auto simp: distinct_map inj_on_def)
qed

text \<open>A change of attempts that keeps their identifying columns.\<close>

lemma attempts_ok_map:
  assumes ok: "db_ok d"
    and same: "\<And>r. ar_id (f r) = ar_id r \<and> ar_client_order_id (f r) = ar_client_order_id r \<and> ar_operation (f r) = ar_operation r"
    and link: "\<And>r k. r \<in> set (db_attempts d) \<Longrightarrow> ar_task_id (f r) = Some k \<Longrightarrow>
      ar_task_id r = Some k \<or> ar_operation r = ''close'' \<and> k \<in> set (task_ids d)"
  shows "db_ok (d\<lparr>db_attempts := map f (db_attempts d)\<rparr>)"
proof -
  have comps: "ar_id \<circ> f = ar_id" "ar_client_order_id \<circ> f = ar_client_order_id" using same by (auto simp: fun_eq_iff)
  have old: "ar_task_id r = Some k \<Longrightarrow> ar_operation r = ''close'' \<and> k \<in> set (task_ids d)" if "r \<in> set (db_attempts d)" for r k
    using ok that by (auto simp: db_ok_def attempts_ok_def)
  have "attempts_ok (d\<lparr>db_attempts := map f (db_attempts d)\<rparr>)" unfolding attempts_ok_def
  proof (intro conjI)
    show "\<forall>r \<in> set (db_attempts (d\<lparr>db_attempts := map f (db_attempts d)\<rparr>)). \<forall>k. ar_task_id r = Some k \<longrightarrow>
        ar_operation r = ''close'' \<and> k \<in> set (task_ids (d\<lparr>db_attempts := map f (db_attempts d)\<rparr>))"
    proof (intro ballI allI impI)
      fix r' k assume "r' \<in> set (db_attempts (d\<lparr>db_attempts := map f (db_attempts d)\<rparr>))" "ar_task_id r' = Some k"
      then obtain r where r: "r \<in> set (db_attempts d)" "r' = f r" "ar_task_id (f r) = Some k" by auto
      show "ar_operation r' = ''close'' \<and> k \<in> set (task_ids (d\<lparr>db_attempts := map f (db_attempts d)\<rparr>))"
        using link[OF r(1,3)] old[OF r(1), of k] same[of r] r(2) by (auto simp: task_ids_def)
    qed
  qed (use ok same in \<open>auto simp: db_ok_def attempts_ok_def comps\<close>)
  then show ?thesis using ok by (simp add: db_ok_def tasks_ok_def incidents_ok_def task_ids_def)
qed

lemma link_trade_closes_ok:
  assumes "link_trade_closes i trade d = (Inr (), t)" "db_ok d"
  shows "db_ok t \<and> db_tasks t = db_tasks d"
proof -
  let ?f = "\<lambda>r. if unlinked_of_trade trade r then r\<lparr>ar_task_id := Some i\<rparr> else r"
  have t: "t = d\<lparr>db_attempts := map ?f (db_attempts d)\<rparr>"
    and fk: "\<And>r. r \<in> set (db_attempts d) \<Longrightarrow> unlinked_of_trade trade r \<Longrightarrow> i \<in> set (task_ids d)"
    using assms(1) by (auto simp: link_trade_closes_def list_ex_iff split: if_splits)
  have "db_ok t" unfolding t
    by (rule attempts_ok_map[OF assms(2)]) (use fk in \<open>auto simp: unlinked_of_trade_def split: if_splits\<close>)
  then show ?thesis by (simp add: t)
qed

lemma link_closes_in_ok:
  assumes "link_closes_in i trade exch base native mtype since d = (Inr x, t)" "db_ok d"
  shows "db_ok t \<and> db_tasks t = db_tasks d"
proof (cases trade)
  case None
  then show ?thesis using assms by (auto simp: link_closes_in_def prog_simps)
next
  case (Some k)
  obtain u where "link_trade_closes i k d = (Inr (), u)" "t = u"
    using assms(1) Some by (auto simp: link_closes_in_def prog_simps split: prod.splits sum.splits if_splits)
  then show ?thesis using link_trade_closes_ok assms(2) by blast
qed
lemma set_task_manual_ok:
  assumes "db_ok d" "\<And>r. r \<in> set (db_tasks d) \<Longrightarrow> tk_id (tr_task r) = i \<Longrightarrow> active (tr_task r)"
  shows "db_ok (set_task_manual i d)"
proof -
  let ?f = "\<lambda>r. if tk_id (tr_task r) = i then r\<lparr>tr_task := (tr_task r)\<lparr>tk_status := STATUS_MANUAL_REQUIRED\<rparr>\<rparr> else r"
  have act: "active (tr_task (?f r)) \<Longrightarrow> active (tr_task r)" if "r \<in> set (db_tasks d)" for r
    using assms(2)[OF that] by (cases "tk_id (tr_task r) = i") simp_all
  have ids: "map (\<lambda>r. tk_id (tr_task (?f r))) (db_tasks d) = map (\<lambda>r. tk_id (tr_task r)) (db_tasks d)" by simp
  have "tasks_ok (set_task_manual i d)" unfolding set_task_manual_def
  proof (rule tasks_ok_map)
    show "tasks_ok d" using assms(1) by (simp add: db_ok_def)
    then show "tk_id (tr_task r) = tk_id (tr_task q)"
      if "r \<in> set (db_tasks d)" "q \<in> set (db_tasks d)" "active (tr_task (?f r))" "active (tr_task (?f q))"
        "identity (tr_task r) = identity (tr_task q)" for r q
      using tasks_ok_active[OF _ that(1,2)] act that by blast
    show "task_checks (tr_task (?f r))" if "r \<in> set (db_tasks d)" for r
      using assms(1) that by (auto simp: db_ok_def tasks_ok_def task_checks_def)
  qed (simp add: identity_def)
  then show ?thesis using assms(1) ids
    by (simp add: set_task_manual_def db_ok_def attempts_ok_def incidents_ok_def task_ids_def comp_def)
qed

lemma insert_incident_Inr:
  "insert_incident i spec d = (Inr (), t) \<Longrightarrow>
     db_tasks t = db_tasks d \<and> db_attempts t = db_attempts d \<and> db_next_task t = db_next_task d \<and>
     db_next_attempt t = db_next_attempt d \<and> ir_task_id ` set (db_incidents t) = insert i (ir_task_id ` set (db_incidents d))"
  by (cases "numeric 8 (ts_owned_quantity spec)")
    (auto simp: insert_incident_def prog_simps list_ex_iff split: if_splits)

lemma create_task_in_ok:
  assumes run: "create_task_in now spec adopted link d = (Inr x, t)" and ok: "db_ok d"
  shows "db_ok t"
proof -
  obtain res u where u: "insert_task now spec d = (Inr res, u)"
    and rest: "(case res of
       None \<Rightarrow>
         bindS (readS (\<lambda>d. find (\<lambda>r. tk_source_attempt_id (tr_task r) = ts_source_attempt_id spec) (db_tasks d))) (\<lambda>row.
         case row of
           None \<Rightarrow> pureS (Inl (RuntimeError ''emergency close task vanished on conflict''))
         | Some r \<Rightarrow> ret (tk_id (tr_task r), False))
     | Some i \<Rightarrow>
         bindS (insert_incident i spec) (\<lambda>_.
         bindS (adopt_each now i spec adopted) (\<lambda>_.
         if \<not> link then ret (i, True)
         else bindS (link_closes_in i (ts_trade_id spec) (ts_exchange spec) (ts_base spec) (ts_native_market_id spec)
                       (ts_market_type spec) (since_entry (ts_source_attempt_id spec))) (\<lambda>problem.
              bindS (if problem = None then ret () else modifyS (set_task_manual i)) (\<lambda>_. ret (i, True)))))) u = (Inr x, t)"
    using run unfolding create_task_in_def by (elim bindS_InrE) (simp add: pureS_def)
  show ?thesis
  proof (cases res)
    case None
    then have "t = u" "u = d" using rest u insert_task_cases[OF u] by (auto simp: prog_simps split: option.splits)
    then show ?thesis using ok by simp
  next
    case (Some i)
    obtain v w where v: "insert_incident i spec u = (Inr (), v)" and w: "adopt_each now i spec adopted v = (Inr (), w)"
      and rest3: "(if \<not> link then ret (i, True)
         else bindS (link_closes_in i (ts_trade_id spec) (ts_exchange spec) (ts_base spec) (ts_native_market_id spec)
                       (ts_market_type spec) (since_entry (ts_source_attempt_id spec))) (\<lambda>problem.
              bindS (if problem = None then ret () else modifyS (set_task_manual i)) (\<lambda>_. ret (i, True)))) w = (Inr x, t)"
      using rest unfolding Some option.case by (elim bindS_InrE) auto
    note iu = insert_task_ok[OF u[unfolded Some]] and iv = insert_incident_Inr[OF v]
    have ids_u: "task_ids u = task_ids d @ [i]" and inc_u: "db_incidents u = db_incidents d" and "tasks_ok u" "attempts_ok u"
      using iu ok by (simp_all add: db_ok_def)
    then have v_ok: "tasks_ok v" "attempts_ok v" "incidents_ok v"
      using iv ok by (auto simp: tasks_ok_def attempts_ok_def incidents_ok_def task_ids_def db_ok_def)
    have iw: "attempts_ok w \<and> db_tasks w = db_tasks v \<and> db_incidents w = db_incidents v \<and> db_next_task w = db_next_task v"
      by (rule adopt_each_ok[OF w v_ok(2)])
    have w_ok: "db_ok w" using iw v_ok by (simp add: db_ok_def tasks_ok_def incidents_ok_def task_ids_def)
    have act: "active (tr_task r)" if "r \<in> set (db_tasks w)" "tk_id (tr_task r) = i" for r
    proof (rule insert_task_cases[OF u])
      fix q assume new: "res = Some (db_next_task d)"
        "u = d\<lparr>db_tasks := db_tasks d @ [\<lparr>tr_task = new_task spec (db_next_task d) q, tr_claim_owner = None,
            tr_claim_expires_at = None, tr_created_at = now\<rparr>], db_next_task := db_next_task d + 1\<rparr>"
      have "r \<in> set (db_tasks u)" using that(1) iw iv by simp
      moreover have "r \<notin> set (db_tasks d)" using that(2) ok new(1) Some by (force simp: db_ok_def tasks_ok_def task_ids_def)
      ultimately show ?thesis using new(2) by auto
    qed (use Some in simp)
    show ?thesis
    proof (cases link)
      case False
      then show ?thesis using rest3 w_ok by (simp add: prog_simps)
    next
      case True
      then obtain p y where y: "link_closes_in i (ts_trade_id spec) (ts_exchange spec) (ts_base spec) (ts_native_market_id spec)
            (ts_market_type spec) (since_entry (ts_source_attempt_id spec)) w = (Inr p, y)"
        and t: "t = (if p = None then y else set_task_manual i y)"
        using rest3 by (auto simp: prog_simps split: prod.splits sum.splits if_splits)
      have y_ok: "db_ok y" "db_tasks y = db_tasks w" using link_closes_in_ok[OF y w_ok] by simp_all
      then show ?thesis using set_task_manual_ok[OF y_ok(1), of i] act t by simp
    qed
  qed
qed
lemma db_ok_conns: "db_ok d \<Longrightarrow> db_ok (d\<lparr>db_conns := cs\<rparr>)"
  by simp

lemma create_task_ok: "keeps db_ok (create_task spec adopted)"
  unfolding create_task_def
  by (intro keeps_try with_db_keeps keeps_pure) (auto intro: create_task_in_ok)

lemma link_late_closes_ok: "keeps db_ok (link_late_closes task)"
  unfolding link_late_closes_def by (rule with_db_keeps) (auto dest: link_closes_in_ok)

lemma insert_attempt_db_ok:
  assumes "insert_attempt row d = (Inr i, t)" "db_ok d" "ar_operation row = ''close''"
  shows "db_ok t"
  using insert_attempt_ok[OF assms(1) _ assms(3)] assms(2)
  by (simp add: db_ok_def tasks_ok_def incidents_ok_def task_ids_def)

lemma record_close_intent_ok: "keeps db_ok (record_close_intent task cid amount usd csize)"
  unfolding record_close_intent_def by (rule with_db_keeps) (auto intro: insert_attempt_db_ok simp: intent_row_def)

text \<open>What a successful mark, claim and update did to the tables.\<close>

definition marked :: "int \<Rightarrow> attempt_status \<Rightarrow> string option \<Rightarrow> number option \<Rightarrow> attempt_row \<Rightarrow> attempt_row" where
  "marked i st oid f r =
     (if ar_id r = i \<and> ar_task_id r \<noteq> None
      then r\<lparr>ar_status := st, ar_order_id := coalesce oid (ar_order_id r), ar_filled_amount := coalesce f (ar_filled_amount r)\<rparr>
      else r)"

lemma mark_close_cases:
  assumes "mark_close i st oid filled d = (r, t)"
  obtains (fails) e cs where "r = Inl e" "t = d\<lparr>db_conns := cs\<rparr>"
    | (marks) f cs where "r = Inr ()" "t = d\<lparr>db_conns := cs, db_attempts := map (marked i st oid f) (db_attempts d)\<rparr>"
  using assms unfolding mark_close_def
proof (cases rule: with_db_cases)
  case (fails e cs)
  then show thesis by (rule that(1))
next
  case (commits x now cs)
  let ?hit = "\<lambda>r. ar_id r = i \<and> ar_task_id r \<noteq> None"
  obtain f where f: "(if list_ex ?hit (db_attempts d) then numeric_or_null 8 filled else Inr None) = Inr f"
    using commits(3) by (cases "if list_ex ?hit (db_attempts d) then numeric_or_null 8 filled else Inr None") (simp_all add: Let_def)
  have "t = d\<lparr>db_conns := cs, db_attempts := map (marked i st oid f) (db_attempts d)\<rparr>"
    using commits(3) f by (simp add: Let_def marked_def[abs_def])
  then show thesis using that(2) commits(1) by simp
qed

lemma marked_same [simp]:
  "ar_id (marked i st oid f r) = ar_id r" "ar_client_order_id (marked i st oid f r) = ar_client_order_id r"
  "ar_operation (marked i st oid f r) = ar_operation r" "ar_task_id (marked i st oid f r) = ar_task_id r"
  by (simp_all add: marked_def)

lemma mark_close_ok: "keeps db_ok (mark_close i st oid filled)"
proof (rule endsI)
  fix d r t assume "db_ok d" "mark_close i st oid filled d = (r, t)"
  then show "db_ok t"
    using attempts_ok_map[OF db_ok_conns[of d], of "marked i st oid _"] by (elim mark_close_cases) simp_all
qed

definition claimed :: "int \<Rightarrow> string \<Rightarrow> int \<Rightarrow> task_row \<Rightarrow> task_row" where
  "claimed i owner expires q =
     (if tk_id (tr_task q) = i then q\<lparr>tr_claim_owner := Some owner, tr_claim_expires_at := Some expires\<rparr> else q)"

lemma tr_task_claimed [simp]: "tr_task (claimed i owner expires q) = tr_task q"
  by (simp add: claimed_def)

lemma claim_cases:
  assumes "claim i owner lease d = (r, t)"
  obtains (none) cs where "r = Inr None \<or> (\<exists>e. r = Inl e)" "t = d\<lparr>db_conns := cs\<rparr>"
    | (claims) q now cs where "r = Inr (Some ((tr_task q)\<lparr>tk_confirmed_flat_at := None\<rparr>))" "db_conns d = (True, now) # cs"
        "q \<in> set (db_tasks d)" "tk_id (tr_task q) = i" "claimable now owner q"
        "t = d\<lparr>db_conns := cs, db_tasks := map (claimed i owner (now + lease)) (db_tasks d)\<rparr>"
  using assms unfolding claim_def
proof (cases rule: with_db_cases)
  case (fails e cs)
  then show thesis by (intro that(1)) auto
next
  case (commits x now cs)
  let ?hit = "\<lambda>r. tk_id (tr_task r) = i \<and> claimable now owner r"
  show thesis
  proof (cases "find ?hit (db_tasks d)")
    case None
    then show thesis using commits by (intro that(1)) auto
  next
    case (Some q)
    then have "q \<in> set (db_tasks d)" "?hit q" by (auto simp: find_Some_iff)
    then show thesis using commits Some
      by (intro that(2)[of q now cs]) (auto simp: claimed_def[abs_def])
  qed
qed

lemma db_ok_tasks_same:
  assumes "db_ok d" "\<And>r. tr_task (f r) = tr_task r"
  shows "db_ok (d\<lparr>db_tasks := map f (db_tasks d)\<rparr>)"
proof -
  have "tasks_ok (d\<lparr>db_tasks := map f (db_tasks d)\<rparr>)"
  proof (rule tasks_ok_map)
    show ok: "tasks_ok d" using assms(1) by (simp add: db_ok_def)
    show "task_checks (tr_task (f r))" if "r \<in> set (db_tasks d)" for r using ok that by (simp add: assms(2) tasks_ok_def)
    show "tk_id (tr_task r) = tk_id (tr_task q)"
      if "r \<in> set (db_tasks d)" "q \<in> set (db_tasks d)" "active (tr_task (f r))" "active (tr_task (f q))"
        "identity (tr_task r) = identity (tr_task q)" for r q
      using tasks_ok_active[OF ok] that unfolding assms(2) by blast
  qed (simp add: assms(2))
  moreover have "task_ids (d\<lparr>db_tasks := map f (db_tasks d)\<rparr>) = task_ids d" by (simp add: task_ids_def comp_def assms(2))
  ultimately show ?thesis using assms(1) by (simp add: db_ok_def attempts_ok_def incidents_ok_def)
qed

lemma claim_ok: "keeps db_ok (claim i owner lease)"
proof (rule endsI)
  fix d r t assume "db_ok d" "claim i owner lease d = (r, t)"
  then show "db_ok t"
    using db_ok_tasks_same[OF db_ok_conns[of d], of "claimed i owner _"] by (elim claim_cases) simp_all
qed

definition replace_row :: "task_row \<Rightarrow> task_row \<Rightarrow> task_row" where
  "replace_row r' x = (if tk_id (tr_task x) = tk_id (tr_task r') then r' else x)"

lemma updated_row_task [simp]:
  "tk_id (tr_task (updated_row now st rest rejected release r)) = tk_id (tr_task r)"
  "tk_source_attempt_id (tr_task (updated_row now st rest rejected release r)) = tk_source_attempt_id (tr_task r)"
  "identity (tr_task (updated_row now st rest rejected release r)) = identity (tr_task r)"
  "tk_status (tr_task (updated_row now st rest rejected release r)) = st"
  by (simp_all add: updated_row_def identity_def)

lemma update_task_cases:
  assumes "update_task task owner st rest rejected release d = (r, t)"
  obtains (fails) e cs where "r = Inl e" "t = d\<lparr>db_conns := cs\<rparr>"
    | (updates) q k now cs where "r = Inr ()" "db_conns d = (True, now) # cs" "k \<in> set (db_tasks d)"
        "tk_id (tr_task k) = tk_id task" "tr_claim_owner k = Some owner" "numeric 8 rest = Inr q"
        "task_checks (tr_task (updated_row now st q rejected release k))"
        "\<not> active_conflict d (tr_task (updated_row now st q rejected release k))"
        "t = d\<lparr>db_conns := cs, db_tasks := map (replace_row (updated_row now st q rejected release k)) (db_tasks d)\<rparr>"
  using assms unfolding update_task_def
proof (cases rule: with_db_cases)
  case (fails e cs)
  then show thesis by (rule that(1))
next
  case (commits x now cs)
  let ?hit = "\<lambda>r. tk_id (tr_task r) = tk_id task \<and> tr_claim_owner r = Some owner"
  obtain k where k: "find ?hit (db_tasks d) = Some k"
    using commits by (cases "find ?hit (db_tasks d)") auto
  obtain q where q: "numeric 8 rest = Inr q" using commits k by (cases "numeric 8 rest") auto
  let ?new = "updated_row now st q rejected release k"
  have mem: "k \<in> set (db_tasks d)" and hit: "?hit k" using k by (auto simp: find_Some_iff)
  have body: "(if \<not> task_checks (tr_task ?new) then (Inl (db_error ''CheckViolation''), d\<lparr>db_conns := cs\<rparr>)
      else if active_conflict d (tr_task ?new) then (Inl (db_error ''UniqueViolation''), d\<lparr>db_conns := cs\<rparr>)
      else (Inr (), d\<lparr>db_conns := cs, db_tasks := map (replace_row ?new) (db_tasks d)\<rparr>)) = (Inr x, t)"
    using commits(3) k q hit by (simp add: Let_def replace_row_def[abs_def] cong: if_cong)
  have checks: "task_checks (tr_task ?new)" using body by (rule contrapos_pp) simp
  have free: "\<not> active_conflict d (tr_task ?new)" using body checks by (auto split: if_splits)
  have "t = d\<lparr>db_conns := cs, db_tasks := map (replace_row ?new) (db_tasks d)\<rparr>" using body checks free by simp
  then show thesis using that(2)[of now cs k q] commits mem hit q checks free by simp
qed

lemma update_task_ok: "keeps db_ok (update_task task owner st rest rejected release)"
proof (rule endsI)
  fix d r t assume ok: "db_ok d" and run: "update_task task owner st rest rejected release d = (r, t)"
  from run show "db_ok t"
  proof (cases rule: update_task_cases)
    case (fails e cs)
    then show ?thesis using ok by simp
  next
    case (updates q k now cs)
    let ?new = "updated_row now st q rejected release k"
    let ?f = "replace_row ?new"
    have tasks: "tasks_ok d" using ok by (simp add: db_ok_def)
    have other: "?f x = x \<or> x = k \<and> ?f x = ?new" if "x \<in> set (db_tasks d)" for x
      using tasks_ok_row_unique[OF tasks that updates(3)] by (auto simp: replace_row_def)
    have same: "tk_id (tr_task (?f x)) = tk_id (tr_task x) \<and> tk_source_attempt_id (tr_task (?f x)) = tk_source_attempt_id (tr_task x) \<and>
        identity (tr_task (?f x)) = identity (tr_task x)" if "x \<in> set (db_tasks d)" for x
      using other[OF that] by auto
    have checks: "task_checks (tr_task (?f x))" if "x \<in> set (db_tasks d)" for x
      using other[OF that] tasks updates(7) that by (auto simp: tasks_ok_def)
    have conflict: "tk_id (tr_task k) = tk_id (tr_task x)"
      if "x \<in> set (db_tasks d)" "active (tr_task ?new)" "active (tr_task x)" "identity (tr_task x) = identity (tr_task k)" for x
      using updates(8) that by (auto simp: active_conflict_def list_ex_iff)
    have "tasks_ok (d\<lparr>db_tasks := map ?f (db_tasks d)\<rparr>)"
    proof (rule tasks_ok_map[OF tasks same checks])
      fix x y assume m: "x \<in> set (db_tasks d)" "y \<in> set (db_tasks d)" and a: "active (tr_task (?f x))" "active (tr_task (?f y))"
        and e: "identity (tr_task x) = identity (tr_task y)"
      from other[OF m(1)] other[OF m(2)] show "tk_id (tr_task x) = tk_id (tr_task y)"
      proof (elim disjE)
        assume "?f x = x" "?f y = y"
        then show ?thesis using tasks_ok_active[OF tasks m _ _ e] a by simp
      next
        assume "?f x = x" "y = k \<and> ?f y = ?new"
        then show ?thesis using conflict[OF m(1)] a e by metis
      next
        assume "x = k \<and> ?f x = ?new" "?f y = y"
        then show ?thesis using conflict[OF m(2)] a e by metis
      qed simp
    qed
    moreover have "map (\<lambda>x. tk_id (tr_task (?f x))) (db_tasks d) = map (\<lambda>x. tk_id (tr_task x)) (db_tasks d)"
      by (rule map_cong[OF refl]) (use same in blast)
    then have "task_ids (d\<lparr>db_tasks := map ?f (db_tasks d)\<rparr>) = task_ids d" by (simp add: task_ids_def comp_def del: map_eq_conv)
    ultimately have "db_ok (d\<lparr>db_tasks := map ?f (db_tasks d)\<rparr>)"
      using ok by (simp add: db_ok_def attempts_ok_def incidents_ok_def)
    moreover have "t = d\<lparr>db_tasks := map ?f (db_tasks d)\<rparr>\<lparr>db_conns := cs\<rparr>" unfolding updates(9) by (cases d) simp
    ultimately show ?thesis using db_ok_conns by blast
  qed
qed
subsection \<open>The store keeps its contract\<close>

lemma closes_of_sorted: "attempts_ok d \<Longrightarrow> closes_of d i = map close_of_row (filter (\<lambda>r. ar_task_id r = Some i) (db_attempts d))"
proof -
  assume "attempts_ok d"
  then have "sorted (map ar_id (db_attempts d))" by (auto simp: attempts_ok_def intro: strict_sorted_imp_sorted)
  then have "sorted (map ar_id (filter (\<lambda>r. ar_task_id r = Some i) (db_attempts d)))" by (rule sorted_filter)
  then show ?thesis by (simp add: closes_of_def sort_key_id_if_sorted)
qed

lemma ident_close_of_row: "ident (close_of_row r) = (ar_id r, ar_client_order_id r, ar_status r)"
  by (simp add: ident_def close_of_row_def)

lemma closes_of_distinct: "db_ok d \<Longrightarrow> distinct (map co_attempt_id (closes_of d i))"
proof -
  assume "db_ok d"
  then have "attempts_ok d" "distinct (map ar_id (db_attempts d))"
    by (auto simp: db_ok_def attempts_ok_def strict_sorted_iff)
  then show ?thesis using distinct_map_filter[of ar_id "db_attempts d"]
    by (simp add: closes_of_sorted comp_def close_of_row_def)
qed

definition task_state :: "db \<Rightarrow> int \<Rightarrow> task_status option" where
  "task_state d i = map_option (\<lambda>r. tk_status (tr_task r)) (task_by_id d i)"

definition held_by :: "db \<Rightarrow> int \<Rightarrow> string \<Rightarrow> bool" where
  "held_by d i owner \<longleftrightarrow> list_ex (\<lambda>r. tk_id (tr_task r) = i \<and> tr_claim_owner r = Some owner) (db_tasks d)"

lemma task_by_id_unique:
  assumes "tasks_ok d" "r \<in> set (db_tasks d)" "tk_id (tr_task r) = i"
  shows "task_by_id d i = Some r"
proof (cases "task_by_id d i")
  case None
  then have "\<forall>q \<in> set (db_tasks d). tk_id (tr_task q) \<noteq> i" by (auto simp: task_by_id_def find_None_iff)
  then show ?thesis using assms(2,3) by blast
next
  case (Some q)
  then have "q \<in> set (db_tasks d)" "tk_id (tr_task q) = i" by (auto simp: task_by_id_def find_Some_iff)
  then show ?thesis using Some tasks_ok_row_unique[OF assms(1)] assms(2,3) by metis
qed

lemma load_closes_reads:
  assumes "load_closes i d = (r, t)"
  shows "(db_ok d \<longrightarrow> db_ok t) \<and> closes_of t = closes_of d \<and> (\<forall>cs. r = Inr cs \<longrightarrow> cs = closes_of d i)"
  using assms unfolding load_closes_def by (cases rule: with_db_cases) (auto simp: readS_def)

lemma mark_close_rows:
  assumes "db_ok d" "mark_close a st oid f d = (Inr (), t)"
  shows "map ident (closes_of t i) = map (mark_ident a st \<circ> ident) (closes_of d i)"
proof -
  have t: "attempts_ok t" using endsD[OF mark_close_ok assms] by (simp add: db_ok_def)
  have d: "attempts_ok d" using assms(1) by (simp add: db_ok_def)
  from assms(2) obtain g cs where g: "t = d\<lparr>db_conns := cs, db_attempts := map (marked a st oid g) (db_attempts d)\<rparr>"
    by (rule mark_close_cases) auto
  have "ident (close_of_row (marked a st oid g r)) = mark_ident a st (ident (close_of_row r))" if "ar_task_id r = Some i" for r
    using that by (simp add: ident_close_of_row mark_ident_def marked_def)
  then show ?thesis unfolding closes_of_sorted[OF t] closes_of_sorted[OF d] by (simp add: g filter_map comp_def)
qed

lemma record_close_intent_rows:
  assumes "db_ok d" "record_close_intent task cid amount usd csize d = (Inr a, t)"
  shows "map ident (closes_of t (tk_id task)) = map ident (closes_of d (tk_id task)) @ [(a, cid, Att_pending)]"
proof -
  have t: "attempts_ok t" using endsD[OF record_close_intent_ok assms] by (simp add: db_ok_def)
  have d: "attempts_ok d" using assms(1) by (simp add: db_ok_def)
  from assms(2) show ?thesis unfolding record_close_intent_def
  proof (cases rule: with_db_cases)
    case (commits x now cs)
    from commits(3) show ?thesis
    proof (rule insert_attempt_Inr)
      fix r assume "t = d\<lparr>db_conns := cs, db_attempts := db_attempts (d\<lparr>db_conns := cs\<rparr>) @ [r], db_next_attempt := x + 1\<rparr>"
        "ar_id r = x" "ar_client_order_id r = ar_client_order_id (intent_row task cid amount usd csize now)" "ar_status r = ar_status (intent_row task cid amount usd csize now)"
        "ar_task_id r = ar_task_id (intent_row task cid amount usd csize now)"
      then show ?thesis using commits(1) unfolding closes_of_sorted[OF t] closes_of_sorted[OF d]
        by (simp add: ident_close_of_row intent_row_def)
    qed
  qed simp
qed

lemma update_task_sets:
  assumes ok: "db_ok d" and run: "update_task task owner st rest n release d = (Inr (), t)"
  shows "task_state t (tk_id task) = Some st \<and> closes_of t (tk_id task) = closes_of d (tk_id task) \<and>
     held_by d (tk_id task) owner \<and> (\<not> release \<longrightarrow> held_by t (tk_id task) owner)"
  using run
proof (cases rule: update_task_cases)
  case (updates q k now cs)
  let ?new = "updated_row now st q n release k"
  have "db_ok t" using endsD[OF update_task_ok ok run] .
  moreover have new: "?new \<in> set (db_tasks t)"
    using updates(3,9) by (auto simp: replace_row_def intro!: image_eqI[of _ _ k])
  ultimately have "task_by_id t (tk_id task) = Some ?new"
    using task_by_id_unique[OF _ new] updates(4) by (simp add: db_ok_def)
  then have "task_state t (tk_id task) = Some st" by (simp add: task_state_def)
  moreover have "closes_of t (tk_id task) = closes_of d (tk_id task)" using updates(9) by (simp add: closes_of_def)
  moreover have "held_by d (tk_id task) owner" using updates(3-5) by (auto simp: held_by_def list_ex_iff)
  moreover have "held_by t (tk_id task) owner" if "\<not> release"
    using new updates(4,5) that unfolding held_by_def list_ex_iff by (intro bexI[of _ ?new]) (simp_all add: updated_row_def)
  ultimately show ?thesis by blast
qed simp

lemma claim_takes:
  assumes "claim i owner lease d = (Inr (Some task), t)"
  shows "tk_id task = i \<and> held_by t i owner"
  using assms
proof (cases rule: claim_cases)
  case (claims q now cs)
  have "claimed i owner (now + lease) q \<in> set (db_tasks t)" using claims(3,6) by simp
  moreover have "tk_id (tr_task (claimed i owner (now + lease) q)) = i \<and> tr_claim_owner (claimed i owner (now + lease) q) = Some owner"
    using claims(4) by (simp add: claimed_def)
  ultimately have "held_by t i owner" unfolding held_by_def list_ex_iff by blast
  then show ?thesis using claims(1,4) by simp
qed auto

lemma postgres_store_ops [simp]:
  "so_create_task postgres_store = create_task" "so_link_late_closes postgres_store = link_late_closes"
  "so_runnable_task_ids postgres_store = runnable_task_ids" "so_claim postgres_store = claim"
  "so_load_closes postgres_store = load_closes" "so_record_close_intent postgres_store = record_close_intent"
  "so_mark_close postgres_store = mark_close" "so_update_task postgres_store = update_task"
  "so_recovery_candidates postgres_store = recovery_candidates"
  by (simp_all add: postgres_store_def)

interpretation pg: close_store postgres_store closes_of task_state held_by db_ok
proof (unfold_locales, unfold postgres_store_ops, goal_cases)
  case 1 then show ?case by (rule closes_of_distinct)
next
  case 2 then show ?case by (rule endsD[OF claim_ok])
next
  case 3 then show ?case by (intro claim_takes)
next
  case 4 then show ?case using load_closes_reads by blast
next
  case 5 then show ?case using load_closes_reads by metis
next
  case 6 then show ?case by (rule endsD[OF link_late_closes_ok])
next
  case 7 then show ?case by (rule endsD[OF mark_close_ok])
next
  case 8 then show ?case by (rule mark_close_rows)
next
  case 9 then show ?case by (rule endsD[OF record_close_intent_ok])
next
  case 10 then show ?case by (rule record_close_intent_rows)
next
  case 11 then show ?case by (rule endsD[OF update_task_ok])
next
  case 12 then show ?case by (rule update_task_sets)
qed

end
