(* ===== verification/Emergency_Safety.thy ===== *)
theory Emergency_Safety
  imports Emergency_Store
begin

text \<open>
  The emergency close executor on the Postgres store: histories of store calls by any number of
  executors keep the tables consistent and the claim exclusive, an order is sent only on the stored
  evidence, and a position is called flat only on the exchange's.
\<close>

subsection \<open>Histories\<close>

datatype store_call =
    Create_task task_spec "adopted_close list"
  | Link_late_closes close_task
  | Runnable_task_ids
  | Claim int string int
  | Load_closes int
  | Record_close_intent close_task string number number number
  | Mark_close int attempt_status "string option" "number option"
  | Update_task close_task string task_status number int bool
  | Recovery_candidates

text \<open>The store a call leaves, whatever it returned or raised.\<close>

fun perform :: "'s store_ops \<Rightarrow> store_call \<Rightarrow> 's \<Rightarrow> 's" where
  "perform ops (Create_task spec adopted) s = snd (so_create_task ops spec adopted s)"
| "perform ops (Link_late_closes task) s = snd (so_link_late_closes ops task s)"
| "perform ops Runnable_task_ids s = snd (so_runnable_task_ids ops s)"
| "perform ops (Claim i owner lease) s = snd (so_claim ops i owner lease s)"
| "perform ops (Load_closes i) s = snd (so_load_closes ops i s)"
| "perform ops (Record_close_intent task cid amount usd csize) s = snd (so_record_close_intent ops task cid amount usd csize s)"
| "perform ops (Mark_close i st oid filled) s = snd (so_mark_close ops i st oid filled s)"
| "perform ops (Update_task task owner st rest n release) s = snd (so_update_task ops task owner st rest n release s)"
| "perform ops Recovery_candidates s = snd (so_recovery_candidates ops s)"

definition history :: "store_call list \<Rightarrow> db \<Rightarrow> db" where
  "history calls d = fold (perform postgres_store) calls d"

lemma history_simps [simp]: "history [] d = d" "history (c # cs) d = history cs (perform postgres_store c d)"
  by (simp_all add: history_def)

lemma keeps_snd: "keeps I m \<Longrightarrow> I s \<Longrightarrow> I (snd (m s))"
  using endsD[of I m "\<lambda>_. I" s] by (cases "m s") simp

lemma history_keeps:
  assumes "\<And>c d. I d \<Longrightarrow> I (perform postgres_store c d)" "I d"
  shows "I (history calls d)"
  using assms by (induction calls arbitrary: d) auto

lemma perform_ok: "db_ok d \<Longrightarrow> db_ok (perform postgres_store c d)"
  by (cases c) (auto intro!: keeps_snd[of db_ok] create_task_ok link_late_closes_ok claim_ok record_close_intent_ok mark_close_ok
      update_task_ok with_db_read simp: runnable_task_ids_def load_closes_def recovery_candidates_def)

subsection \<open>The claim\<close>

definition by_other :: "string \<Rightarrow> store_call \<Rightarrow> bool" where
  "by_other owner c \<longleftrightarrow>
     (case c of Claim _ o' _ \<Rightarrow> o' \<noteq> owner | Update_task _ o' _ _ _ _ \<Rightarrow> o' \<noteq> owner | _ \<Rightarrow> True)"

text \<open>The claim of \<open>owner\<close> on the task, which no connection to come finds expired.\<close>

definition claim_stands :: "int \<Rightarrow> string \<Rightarrow> db \<Rightarrow> bool" where
  "claim_stands i owner d \<longleftrightarrow>
     db_ok d \<and> (\<exists>r \<in> set (db_tasks d). tk_id (tr_task r) = i \<and> tr_claim_owner r = Some owner \<and>
       (\<exists>e. tr_claim_expires_at r = Some e \<and> (\<forall>c \<in> set (db_conns d). snd c \<le> e)))"

lemma claim_stands_frame:
  assumes "claim_stands i owner d" "db_ok t" "set (db_conns t) \<subseteq> set (db_conns d)" "set (db_tasks d) \<subseteq> set (db_tasks t)"
  shows "claim_stands i owner t"
  using assms unfolding claim_stands_def by blast

lemma with_db_conns:
  assumes body: "\<And>now d x t. body now d = (Inr x, t) \<Longrightarrow> db_conns t = db_conns d"
    and run: "with_db body d = (r, t)"
  shows "set (db_conns t) \<subseteq> set (db_conns d)"
proof (cases "db_conns d")
  case Nil
  then show ?thesis using run by (auto simp: with_db_def)
next
  case (Cons c cs)
  obtain q u where q: "body (snd c) (d\<lparr>db_conns := cs\<rparr>) = (q, u)" by force
  have "db_conns t = cs"
  proof (cases "fst c \<and> (\<exists>x. q = Inr x)")
    case True
    then obtain x where "q = Inr x" by blast
    then show ?thesis using run body[of "snd c" "d\<lparr>db_conns := cs\<rparr>" x u] q Cons True by (cases c) (simp add: with_db_def)
  next
    case False
    then show ?thesis using run Cons q
      by (cases c; cases q) (auto simp: with_db_def Let_def split: if_splits)
  qed
  then show ?thesis using Cons by auto
qed

lemma with_db_tasks:
  assumes "\<And>now d x t. body now d = (Inr x, t) \<Longrightarrow> set (db_tasks d) \<subseteq> set (db_tasks t) \<and> db_conns t = db_conns d"
    and run: "with_db body d = (r, t)"
  shows "set (db_tasks d) \<subseteq> set (db_tasks t) \<and> set (db_conns t) \<subseteq> set (db_conns d)"
proof
  show "set (db_conns t) \<subseteq> set (db_conns d)" using with_db_conns[OF _ run] assms(1) by blast
  show "set (db_tasks d) \<subseteq> set (db_tasks t)"
    using run
  proof (cases rule: with_db_cases)
    case (commits x now cs)
    then show ?thesis using assms(1)[OF commits(3)] by simp
  qed simp
qed

lemma insert_attempt_tasks: "insert_attempt row d = (Inr x, t) \<Longrightarrow> db_tasks t = db_tasks d \<and> db_conns t = db_conns d"
  by (erule insert_attempt_Inr) simp

lemma adopt_each_tasks: "adopt_each now i spec cs d = (Inr x, t) \<Longrightarrow> db_tasks t = db_tasks d \<and> db_conns t = db_conns d"
  by (induction cs arbitrary: d) (auto simp: ret_def adopt_close_def elim!: bindS_InrE dest!: insert_attempt_tasks)

lemma create_task_in_tasks:
  assumes "create_task_in now spec adopted False d = (Inr x, t)"
  shows "set (db_tasks d) \<subseteq> set (db_tasks t) \<and> db_conns t = db_conns d"
proof -
  obtain res u where u: "insert_task now spec d = (Inr res, u)"
    and rest: "t = u \<or> (\<exists>i v. insert_incident i spec u = (Inr (), v) \<and> adopt_each now i spec adopted v = (Inr (), t))"
    using assms unfolding create_task_in_def
    by (elim bindS_InrE) (auto simp: pureS_apply readS_apply ret_apply split: option.splits elim!: bindS_InrE, blast)
  have "set (db_tasks d) \<subseteq> set (db_tasks u) \<and> db_conns u = db_conns d" using u by (cases rule: insert_task_cases) auto
  moreover have "db_tasks v = db_tasks u \<and> db_conns v = db_conns u" if "insert_incident i spec u = (Inr (), v)" for i v
    using that by (auto simp: insert_incident_def prog_simps split: if_splits sum.splits)
  ultimately show ?thesis using rest adopt_each_tasks by metis
qed

lemma create_task_tasks:
  assumes "create_task spec adopted d = (r, t)"
  shows "set (db_tasks d) \<subseteq> set (db_tasks t) \<and> set (db_conns t) \<subseteq> set (db_conns d)"
proof -
  obtain q where "with_db (\<lambda>now. create_task_in now spec adopted False) d = (q, t)"
    using assms by (auto simp: create_task_def tryS_def pureS_def split: prod.splits sum.splits)
  then show ?thesis by (rule with_db_tasks[rotated]) (rule create_task_in_tasks)
qed

lemma link_closes_in_tasks:
  "link_closes_in i trade exch base native mtype since d = (Inr x, t) \<Longrightarrow> db_tasks t = db_tasks d \<and> db_conns t = db_conns d"
  by (auto simp: link_closes_in_def prog_simps link_trade_closes_def elim!: bindS_InrE split: option.splits if_splits prod.splits sum.splits)
lemma claim_conns: "claim j o' lease d = (r, t) \<Longrightarrow> set (db_conns t) \<subseteq> set (db_conns d)"
  unfolding claim_def by (rule with_db_conns[rotated]) (auto split: option.splits)

lemma update_task_conns: "update_task task o' st rest n release d = (r, t) \<Longrightarrow> set (db_conns t) \<subseteq> set (db_conns d)"
  unfolding update_task_def
  by (rule with_db_conns[rotated]) (auto simp: Let_def split: option.splits sum.splits if_splits)

lemma claim_standsE:
  assumes "claim_stands i owner d"
  obtains k e where "db_ok d" "k \<in> set (db_tasks d)" "tk_id (tr_task k) = i" "tr_claim_owner k = Some owner"
    "tr_claim_expires_at k = Some e" "\<And>c. c \<in> set (db_conns d) \<Longrightarrow> snd c \<le> e"
  using assms by (auto simp: claim_stands_def)

lemma claim_stands_claim:
  assumes st: "claim_stands i owner d" and other: "o' \<noteq> owner" and run: "claim j o' lease d = (r, t)"
  shows "claim_stands i owner t \<and> (j = i \<longrightarrow> (\<forall>x. r \<noteq> Inr (Some x)))"
proof -
  obtain k e where k: "db_ok d" "k \<in> set (db_tasks d)" "tk_id (tr_task k) = i" "tr_claim_owner k = Some owner"
    "tr_claim_expires_at k = Some e" "\<And>c. c \<in> set (db_conns d) \<Longrightarrow> snd c \<le> e" using st by (rule claim_standsE) blast
  have t: "db_ok t" by (rule endsD[OF claim_ok k(1) run])
  from run show ?thesis
  proof (cases rule: claim_cases)
    case (none cs)
    then show ?thesis using claim_stands_frame[OF st t claim_conns[OF run]] by auto
  next
    case (claims q now cs)
    have "j \<noteq> i"
    proof
      assume "j = i"
      then have "q = k" using tasks_ok_row_unique[OF _ claims(3) k(2)] k(1,3) claims(4) by (simp add: db_ok_def)
      moreover have "now \<le> e" using k(6)[of "(True, now)"] claims(2) by simp
      ultimately show False using claims(5) k(4,5) other by (simp add: claimable_def)
    qed
    then have "k \<in> set (db_tasks t)" using k(2,3) claims(6) by (auto simp: claimed_def intro!: image_eqI[of _ _ k])
    then have "claim_stands i owner t" unfolding claim_stands_def
      using t k(3-6) claim_conns[OF run] by (intro conjI bexI[of _ k] exI[of _ e]) auto
    then show ?thesis using \<open>j \<noteq> i\<close> by simp
  qed
qed

lemma claim_stands_update:
  assumes st: "claim_stands i owner d" and other: "o' \<noteq> owner" and run: "update_task task o' ts rest n release d = (r, t)"
  shows "claim_stands i owner t \<and> (tk_id task = i \<longrightarrow> (\<exists>e. r = Inl e))"
proof -
  obtain k e where k: "db_ok d" "k \<in> set (db_tasks d)" "tk_id (tr_task k) = i" "tr_claim_owner k = Some owner"
    "tr_claim_expires_at k = Some e" "\<And>c. c \<in> set (db_conns d) \<Longrightarrow> snd c \<le> e" using st by (rule claim_standsE) blast
  have t: "db_ok t" by (rule endsD[OF update_task_ok k(1) run])
  from run show ?thesis
  proof (cases rule: update_task_cases)
    case (fails e' cs)
    then show ?thesis using claim_stands_frame[OF st t update_task_conns[OF run]] by auto
  next
    case (updates q m now cs)
    have ne: "tk_id task \<noteq> i"
    proof
      assume "tk_id task = i"
      then have "m = k" using tasks_ok_row_unique[OF _ updates(3) k(2)] k(1,3) updates(4) by (simp add: db_ok_def)
      then show False using updates(5) k(4) other by simp
    qed
    then have "k \<in> set (db_tasks t)"
      using k(2,3) updates(4,9) by (auto simp: replace_row_def intro!: image_eqI[of _ _ k])
    then have "claim_stands i owner t" unfolding claim_stands_def
      using t k(3-6) update_task_conns[OF run] by (intro conjI bexI[of _ k] exI[of _ e]) auto
    then show ?thesis using ne by simp
  qed
qed

lemma claim_stands_with_db:
  assumes "claim_stands i owner d" "db_ok (snd (with_db body d))"
    and "\<And>now d x t. body now d = (Inr x, t) \<Longrightarrow> db_tasks t = db_tasks d \<and> db_conns t = db_conns d"
  shows "claim_stands i owner (snd (with_db body d))"
proof -
  have "set (db_tasks d) \<subseteq> set (db_tasks t) \<and> set (db_conns t) \<subseteq> set (db_conns d)" if "with_db body d = (r, t)" for r t
    using that by (rule with_db_tasks[rotated]) (use assms(3) in auto)
  then show ?thesis using claim_stands_frame[OF assms(1,2)] by (cases "with_db body d") simp
qed

lemma claim_stands_perform:
  assumes st: "claim_stands i owner d" and other: "by_other owner c"
  shows "claim_stands i owner (perform postgres_store c d)"
proof -
  have ok: "db_ok (perform postgres_store c d)" using st perform_ok by (simp add: claim_stands_def)
  show ?thesis
  proof (cases c)
    case (Create_task spec adopted)
    then show ?thesis using claim_stands_frame[OF st ok] create_task_tasks[of spec adopted d] by (cases "create_task spec adopted d") simp
  next
    case (Link_late_closes task)
    then show ?thesis using ok by (auto simp: link_late_closes_def dest: link_closes_in_tasks intro!: claim_stands_with_db[OF st])
  next
    case Runnable_task_ids
    then show ?thesis using ok by (auto simp: runnable_task_ids_def readS_def intro!: claim_stands_with_db[OF st])
  next
    case (Claim j o' lease)
    then show ?thesis using claim_stands_claim[OF st, of o' j lease] other by (cases "claim j o' lease d") (simp add: by_other_def)
  next
    case (Load_closes j)
    then show ?thesis using ok by (auto simp: load_closes_def readS_def intro!: claim_stands_with_db[OF st])
  next
    case (Record_close_intent task cid amount usd csize)
    then show ?thesis using ok by (auto simp: record_close_intent_def dest: insert_attempt_tasks intro!: claim_stands_with_db[OF st])
  next
    case (Mark_close a ts oid filled)
    then show ?thesis using ok
      by (auto simp: mark_close_def Let_def split: sum.splits if_splits intro!: claim_stands_with_db[OF st])
  next
    case (Update_task task o' ts rest n release)
    then show ?thesis using claim_stands_update[OF st, of o' task ts rest n release] other
      by (cases "update_task task o' ts rest n release d") (simp add: by_other_def)
  next
    case Recovery_candidates
    then show ?thesis using ok by (auto simp: recovery_candidates_def readS_def intro!: claim_stands_with_db[OF st])
  qed
qed
subsection \<open>Stored numbers\<close>

definition fits :: "nat \<Rightarrow> number \<Rightarrow> bool" where
  "fits scale n \<longleftrightarrow>
     (case n of Num x \<Rightarrow> \<exists>k :: int. \<bar>k\<bar> < 10 ^ 18 \<and> x = of_int k / 10 ^ scale | NotANumber \<Rightarrow> True | Infinite _ \<Rightarrow> False)"

definition row_typed :: "attempt_row \<Rightarrow> bool" where
  "row_typed r \<longleftrightarrow> fits 4 (ar_size_usd r) \<and> pred_option (fits 8) (ar_requested_amount r) \<and>
     pred_option (fits 8) (ar_filled_amount r) \<and> pred_option (fits 8) (ar_contract_size r)"

definition task_typed :: "task_row \<Rightarrow> bool" where
  "task_typed r \<longleftrightarrow> fits 8 (tk_owned_quantity (tr_task r)) \<and> fits 8 (tk_owned_remainder (tr_task r))"

definition tables_typed :: "db \<Rightarrow> bool" where
  "tables_typed d \<longleftrightarrow> list_all row_typed (db_attempts d) \<and> list_all task_typed (db_tasks d) \<and>
     list_all (\<lambda>r. fits 8 (ir_contracts r)) (db_incidents d)"

lemma numeric_fits: "numeric scale n = Inr m \<Longrightarrow> fits scale m"
proof (cases n)
  case (Num x)
  let ?u = "x * 10 ^ scale"
  define k where "k = (if 0 \<le> ?u then \<lfloor>?u + 1 / 2\<rfloor> else - \<lfloor>- ?u + 1 / 2\<rfloor>)"
  assume "numeric scale n = Inr m"
  then have "\<not> 10 ^ 18 \<le> \<bar>k\<bar>" "m = Num (of_int k / 10 ^ scale)"
    unfolding numeric_def Num number.case Let_def k_def[symmetric] by (simp_all split: if_splits)
  then show ?thesis unfolding fits_def by (auto intro!: exI[of _ k])
qed (simp_all add: numeric_def fits_def)

lemma numeric_or_null_fits: "numeric_or_null scale v = Inr m \<Longrightarrow> pred_option (fits scale) m"
  by (auto simp: numeric_or_null_def bindE_eq_Inr dest: numeric_fits split: option.splits)

lemma tables_typed_conns [simp]: "tables_typed (d\<lparr>db_conns := cs\<rparr>) = tables_typed d"
  by (simp add: tables_typed_def)

lemma insert_attempt_typed:
  assumes "insert_attempt row d = (Inr i, t)" "tables_typed d"
  shows "tables_typed t"
proof -
  obtain usd req fl cs where n: "numeric 4 (ar_size_usd row) = Inr usd" "numeric_or_null 8 (ar_requested_amount row) = Inr req"
    "numeric_or_null 8 (ar_filled_amount row) = Inr fl" "numeric_or_null 8 (ar_contract_size row) = Inr cs"
    and t: "t = d\<lparr>db_attempts := db_attempts d @ [row\<lparr>ar_id := db_next_attempt d, ar_size_usd := usd, ar_requested_amount := req,
      ar_filled_amount := fl, ar_contract_size := cs\<rparr>], db_next_attempt := db_next_attempt d + 1\<rparr>"
    using assms(1) by (auto simp: insert_attempt_def Let_def bindE_eq_Inr split: sum.splits)
  show ?thesis using assms(2) numeric_fits[OF n(1)] numeric_or_null_fits[OF n(2)] numeric_or_null_fits[OF n(3)] numeric_or_null_fits[OF n(4)]
    by (simp add: t tables_typed_def row_typed_def)
qed

lemma adopt_each_typed: "adopt_each now i spec cs d = (Inr x, t) \<Longrightarrow> tables_typed d \<Longrightarrow> tables_typed t"
  by (induction cs arbitrary: d) (auto simp: ret_def adopt_close_def elim!: bindS_InrE dest!: insert_attempt_typed)

lemma create_task_in_typed:
  assumes "create_task_in now spec adopted False d = (Inr x, t)" "tables_typed d"
  shows "tables_typed t"
proof -
  obtain res u where u: "insert_task now spec d = (Inr res, u)"
    and rest: "t = u \<or> (\<exists>i v. insert_incident i spec u = (Inr (), v) \<and> adopt_each now i spec adopted v = (Inr (), t))"
    using assms(1) unfolding create_task_in_def
    by (elim bindS_InrE) (auto simp: pureS_apply readS_apply ret_apply split: option.splits elim!: bindS_InrE, blast)
  have "tables_typed u"
  proof (cases "numeric 8 (ts_owned_quantity spec)")
    case (Inr q)
    then show ?thesis using u assms(2) numeric_fits[OF Inr]
      by (auto simp: insert_task_def Let_def tables_typed_def task_typed_def new_task_def check_def split: if_splits)
  qed (use u in \<open>simp add: insert_task_def\<close>)
  moreover have "tables_typed v" if "insert_incident i spec u = (Inr (), v)" "tables_typed u" for i v
    using that by (auto simp: insert_incident_def prog_simps tables_typed_def dest: numeric_fits split: if_splits sum.splits)
  ultimately show ?thesis using rest adopt_each_typed by blast
qed

lemma link_closes_in_typed:
  "link_closes_in i trade exch base native mtype since d = (Inr x, t) \<Longrightarrow> tables_typed d \<Longrightarrow> tables_typed t"
  by (auto simp: link_closes_in_def prog_simps link_trade_closes_def tables_typed_def list_all_iff row_typed_def
      split: option.splits if_splits prod.splits sum.splits)

lemma mark_close_typed: "keeps tables_typed (mark_close a st oid filled)"
  unfolding mark_close_def
proof (rule with_db_keeps, simp)
  fix now d x t assume d: "tables_typed d" and run: "(let hit = \<lambda>r. ar_id r = a \<and> ar_task_id r \<noteq> None in
       case if list_ex hit (db_attempts d) then numeric_or_null 8 filled else Inr None of
         Inl e \<Rightarrow> (Inl e, d)
       | Inr f \<Rightarrow>
           (Inr (), d\<lparr>db_attempts := map (\<lambda>r. if hit r
              then r\<lparr>ar_status := st, ar_order_id := coalesce oid (ar_order_id r), ar_filled_amount := coalesce f (ar_filled_amount r)\<rparr>
              else r) (db_attempts d)\<rparr>)) = (Inr x, t)"
  let ?n = "if list_ex (\<lambda>r. ar_id r = a \<and> ar_task_id r \<noteq> None) (db_attempts d) then numeric_or_null 8 filled else Inr None"
  show "tables_typed t"
  proof (cases ?n)
    case (Inr f)
    then have "pred_option (fits 8) f" by (auto dest: numeric_or_null_fits split: if_splits)
    then have "row_typed (r\<lparr>ar_status := st, ar_order_id := g, ar_filled_amount := coalesce f (ar_filled_amount r)\<rparr>)" if "row_typed r" for r g
      using that by (cases f) (simp_all add: row_typed_def coalesce_def)
    then show ?thesis using run Inr d by (auto simp: Let_def tables_typed_def list_all_iff)
  qed (use run in \<open>simp add: Let_def\<close>)
qed

lemma claim_typed: "keeps tables_typed (claim i owner lease)"
proof (rule endsI)
  fix d r t assume "tables_typed d" "claim i owner lease d = (r, t)"
  then show "tables_typed t"
    by (elim claim_cases) (simp_all add: tables_typed_def list_all_iff task_typed_def)
qed

lemma update_task_typed: "keeps tables_typed (update_task task owner st rest n release)"
proof (rule endsI)
  fix d r t assume d: "tables_typed d" and "update_task task owner st rest n release d = (r, t)"
  from this(2) show "tables_typed t"
  proof (cases rule: update_task_cases)
    case (updates q k now cs)
    have "task_typed (updated_row now st q n release k)"
      using d updates(3) numeric_fits[OF updates(6)] by (auto simp: task_typed_def updated_row_def tables_typed_def list_all_iff)
    then show ?thesis using d unfolding updates(9) by (auto simp: tables_typed_def list_all_iff replace_row_def)
  qed (use d in simp)
qed

lemma perform_typed: "tables_typed d \<Longrightarrow> tables_typed (perform postgres_store c d)"
proof -
  assume d: "tables_typed d"
  have create: "keeps tables_typed (create_task spec adopted)" for spec adopted
    unfolding create_task_def by (intro keeps_try with_db_keeps keeps_pure) (auto intro: create_task_in_typed)
  have link: "keeps tables_typed (link_late_closes task)" for task
    unfolding link_late_closes_def by (rule with_db_keeps) (auto intro: link_closes_in_typed)
  have intent: "keeps tables_typed (record_close_intent task cid amount usd csize)" for task cid amount usd csize
    unfolding record_close_intent_def by (rule with_db_keeps) (auto intro: insert_attempt_typed)
  show ?thesis using d
    by (cases c) (auto intro!: keeps_snd[of tables_typed] create link intent claim_typed mark_close_typed update_task_typed with_db_read
      simp: runnable_task_ids_def load_closes_def recovery_candidates_def)
qed
subsection \<open>A sample task\<close>

text \<open>An entry that left two contracts long, and its task; the exchange holds the position and fills the close.\<close>

definition sample_entry_row :: attempt_row where
  "sample_entry_row =
     \<lparr>ar_id = 1, ar_operation = ''entry'', ar_client_order_id = sample_entry, ar_exchange = ''bybit'', ar_base = ''X'',
      ar_symbol = ''X/USDT'', ar_native_market_id = Some ''XUSDT'', ar_market_type = Some ''swap'', ar_side = ''long'',
      ar_size_usd = Num 20, ar_requested_amount = Some (Num 2), ar_contract_size = None, ar_status = Att_completed,
      ar_order_id = Some ''e'', ar_filled_amount = Some (Num 2), ar_trade_id = None, ar_task_id = None, ar_created_at = 0\<rparr>"

definition sample_spec :: task_spec where
  "sample_spec =
     \<lparr>ts_source_attempt_id = 1, ts_entry_client_order_id = sample_entry, ts_exchange = ''bybit'', ts_base = ''X'',
      ts_symbol = ''X/USDT'', ts_native_market_id = ''XUSDT'', ts_market_type = ''swap'', ts_side = ''long'',
      ts_owned_quantity = Num 2, ts_reason = ''stop_placement_failed'', ts_trade_id = None\<rparr>"

definition sample_empty_db :: db where
  "sample_empty_db =
     \<lparr>db_attempts = [sample_entry_row], db_tasks = [], db_incidents = [], db_next_attempt = 2, db_next_task = 1,
      db_conns = replicate 16 (True, 0)\<rparr>"

definition sample_db :: db where
  "sample_db =
     \<lparr>db_attempts = [sample_entry_row],
      db_tasks = [\<lparr>tr_task = new_task sample_spec 1 (Num 2), tr_claim_owner = None, tr_claim_expires_at = None, tr_created_at = 0\<rparr>],
      db_incidents = [\<lparr>ir_task_id = 1, ir_exchange = ''bybit'', ir_symbol = ''X/USDT'', ir_native_market_id = ''XUSDT'',
         ir_market_type = ''swap'', ir_side = ''long'', ir_contracts = Num 2\<rparr>],
      db_next_attempt = 2, db_next_task = 2, db_conns = replicate 16 (True, 0)\<rparr>"

definition sample_world :: "db world" where
  "sample_world = \<lparr>w_store = sample_db, w_log = [], w_runs = 0\<rparr>"

definition sample_executor :: executor where
  "sample_executor = \<lparr>ex_owner = ''A'', ex_claim_seconds = 60, ex_unknown_deadline = 60, ex_max_rejected_sends = 3\<rparr>"

definition no_orders :: order_source where
  "no_orders = \<lparr>has_fetchOpenOrders = True, has_fetchClosedOrders = True, fetch_open_orders = (\<lambda>_. Inr []), fetch_closed_orders = (\<lambda>_. Inr [])\<rparr>"

definition sample_close_order :: order where
  "sample_close_order =
     \<lparr>o_id = Some ''o1'', o_clientOrderId = Some (sample_entry @ ''c1''), o_info_clientOrderId = None, o_info_clientOid = None,
      o_info_orderLinkId = None, o_status = Some ''closed'', o_filled = PInt 2, o_amount = PInt 2, o_average = PNone,
      o_price = PNone, o_cost = PNone, o_lastTradeTimestamp = PNone\<rparr>"

definition sample_env :: "raw_position list \<Rightarrow> pass_env" where
  "sample_env ps =
     \<lparr>pe_configured = True, pe_now = 0, pe_listing = (\<lambda>_. no_orders), pe_stops = no_orders, pe_positions = Inr ps,
      pe_cancel = (\<lambda>_. Inr ()), pe_precision = (\<lambda>_. Inr (PStr ''2'')), pe_contract_size = PInt 1,
      pe_create = (\<lambda>_ _ _. Created sample_close_order), pe_lock = Inr True, pe_lease_lost = False\<rparr>"

definition sample_position :: raw_position where
  "sample_position = \<lparr>rp_symbol = Some ''X/USDT'', rp_side = Some ''long'', rp_contracts = PInt 2, rp_markPrice = PInt 10\<rparr>"

definition first_pass :: "pass_result res \<times> db world" where
  "first_pass = run_pass postgres_store sample_executor (sample_env [sample_position]) 1 False sample_world"

definition second_pass :: "pass_result res \<times> db world" where
  "second_pass = run_pass postgres_store sample_executor (sample_env []) 1 False (snd first_pass)"

lemma sample_first_pass: "fst first_pass = Inr (Ran STATUS_SENDING) \<and> length (sent (snd first_pass)) = 1"
  by code_simp

lemma sample_second_pass: "fst second_pass = Inr (Ran STATUS_CONFIRMED_FLAT)"
  by code_simp

lemma sample_db_ok: "db_ok sample_db"
  by (simp add: db_ok_def attempts_ok_def tasks_ok_def incidents_ok_def active_unique_def task_ids_def sample_db_def
      sample_entry_row_def new_task_def sample_spec_def task_checks_def TASK_REASONS_def sample_entry_def
      is_entry_client_order_id_def is_hex_def)
subsection \<open>The properties\<close>



text \<open>
  C6. A claim is exclusive: once an executor has claimed a task, then after any calls of other
  executors, as long as no connection finds the lease expired, it still holds the task, another
  executor's claim returns nothing, and another executor's update raises.
\<close>

theorem claim_exclusive:
  assumes "db_ok d" "claim i owner lease d = (Inr (Some task), t)" "db_conns d = (True, now) # conns"
    and "\<forall>c \<in> set conns. snd c \<le> now + lease" "list_all (by_other owner) calls" "other \<noteq> owner"
  shows "held_by (history calls t) i owner \<and>
    (\<forall>lease' x. fst (claim i other lease' (history calls t)) \<noteq> Inr (Some x)) \<and>
    (\<forall>task' st rest n release. tk_id task' = i \<longrightarrow>
       (\<exists>e. fst (update_task task' other st rest n release (history calls t)) = Inl e))"
proof -
  have start: "claim_stands i owner t"
    using assms(2)
  proof (cases rule: claim_cases)
    case (claims q now' cs)
    have eq: "now' = now" "cs = conns" using claims(2) assms(3) by simp_all
    have "claimed i owner (now + lease) q \<in> set (db_tasks t)" using claims(3,6) eq by simp
    moreover have "tk_id (tr_task (claimed i owner (now + lease) q)) = i" using claims(4) by simp
    moreover have "tr_claim_owner (claimed i owner (now + lease) q) = Some owner"
      "tr_claim_expires_at (claimed i owner (now + lease) q) = Some (now + lease)" using claims(4) by (simp_all add: claimed_def)
    moreover have "db_conns t = conns" using claims(6) eq by simp
    ultimately show ?thesis unfolding claim_stands_def using endsD[OF claim_ok assms(1,2)] assms(4) by blast
  qed auto
  have stands: "claim_stands i owner (history calls t)"
    using start assms(5) by (induction calls arbitrary: t) (auto intro: claim_stands_perform)
  then have "held_by (history calls t) i owner" by (auto simp: claim_stands_def held_by_def list_ex_iff)
  moreover have "fst (claim i other lease' (history calls t)) \<noteq> Inr (Some x)" for lease' x
    using claim_stands_claim[OF stands assms(6)] by (cases "claim i other lease' (history calls t)") auto
  moreover have "\<exists>e. fst (update_task task' other st rest n release (history calls t)) = Inl e" if "tk_id task' = i" for task' st rest n release
    using claim_stands_update[OF stands assms(6)] that by (cases "update_task task' other st rest n release (history calls t)") auto
  ultimately show ?thesis by blast
qed

text \<open>
  C2. A pass sends at most one order. When it sends one, the store at that moment already held the
  close as pending under the order's id and the task as sending under this executor's claim, every
  earlier close of the task was settled, the exchange position was on the task's side only and equal to
  the owned remainder, and the amount is that remainder in the exchange's precision.
\<close>

theorem emergency_send_justified:
  assumes "db_ok (w_store w)" "run_pass postgres_store ex env i lease w = (r, w')"
  shows "db_ok (w_store w') \<and> (sent w' = sent w \<or>
     (\<exists>task d x. claim i (ex_owner ex) (ex_claim_seconds ex) (w_store w) = (Inr (Some task), d) \<and> tk_id task = i \<and>
        sent w' = sent w @ [x] \<and> justified closes_of task_state held_by (ex_owner ex) env task x))"
  using pg.run_pass_sends[OF assms] by simp

text \<open>
  C7. A pass that reports the position flat has proved it: the exchange shows no position on either
  side, every protective stop of the entry is terminal, and in the database every close of the task is
  settled and the task is confirmed flat.
\<close>

theorem emergency_flat_proven:
  assumes "db_ok (w_store w)" "run_pass postgres_store ex env i lease w = (Inr (Ran STATUS_CONFIRMED_FLAT), w')"
  shows "\<exists>task d. claim i (ex_owner ex) (ex_claim_seconds ex) (w_store w) = (Inr (Some task), d) \<and> tk_id task = i \<and>
     flat_proven closes_of task_state env task (w_store w')"
  using pg.run_pass_flat[OF assms] by simp

subsection \<open>Witnesses\<close>


lemma sample_db_typed: "tables_typed sample_db"
proof -
  have "fits 4 (Num 20)" "fits 8 (Num 2)"
    by (auto simp: fits_def intro!: exI[of _ 200000] exI[of _ 200000000])
  then show ?thesis by (simp add: tables_typed_def row_typed_def task_typed_def sample_db_def sample_entry_row_def new_task_def sample_spec_def)
qed


lemma sample_claim: "claim 1 ''A'' 60 sample_db =
    (Inr (Some (new_task sample_spec 1 (Num 2))),
     sample_db\<lparr>db_conns := replicate 15 (True, 0), db_tasks := [\<lparr>tr_task = new_task sample_spec 1 (Num 2),
       tr_claim_owner = Some ''A'', tr_claim_expires_at = Some 60, tr_created_at = 0\<rparr>]\<rparr>)"
  by code_simp

theorem claim_exclusive_witness:
  "\<exists>t. claim 1 ''A'' 60 sample_db = (Inr (Some (new_task sample_spec 1 (Num 2))), t) \<and>
     held_by (history [Claim 1 ''B'' 60, Update_task (new_task sample_spec 1 (Num 2)) ''B'' STATUS_MANUAL_REQUIRED (Num 2) 0 True] t) 1 ''A''"
proof -
  have conns: "db_conns sample_db = (True, 0) # replicate 15 (True, 0)" by code_simp
  have "list_all (by_other ''A'') [Claim 1 ''B'' 60, Update_task (new_task sample_spec 1 (Num 2)) ''B'' STATUS_MANUAL_REQUIRED (Num 2) 0 True]"
    by (simp add: by_other_def)
  from claim_exclusive[OF sample_db_ok sample_claim conns _ this, of "''B''"] sample_claim show ?thesis by auto
qed

theorem emergency_send_justified_witness:
  "\<exists>task x. sent (snd first_pass) = [x] \<and> justified closes_of task_state held_by ''A'' (sample_env [sample_position]) task x"
proof -
  have "run_pass postgres_store sample_executor (sample_env [sample_position]) 1 False sample_world = (fst first_pass, snd first_pass)"
    by (simp add: first_pass_def)
  from emergency_send_justified[OF _ this] sample_db_ok sample_first_pass show ?thesis
    by (auto simp: sample_world_def sent_def sample_executor_def)
qed

lemma first_pass_ok: "db_ok (w_store (snd first_pass))"
proof -
  have "run_pass postgres_store sample_executor (sample_env [sample_position]) 1 False sample_world = (fst first_pass, snd first_pass)"
    by (simp add: first_pass_def)
  moreover have "db_ok (w_store sample_world)" using sample_db_ok by (simp add: sample_world_def)
  ultimately show ?thesis using pg.run_pass_sends by blast
qed

theorem emergency_flat_proven_witness:
  "\<exists>task. flat_proven closes_of task_state (sample_env []) task (w_store (snd second_pass))"
proof -
  have "run_pass postgres_store sample_executor (sample_env []) 1 False (snd first_pass) = (Inr (Ran STATUS_CONFIRMED_FLAT), snd second_pass)"
    using sample_second_pass by (simp add: second_pass_def prod_eq_iff)
  from emergency_flat_proven[OF first_pass_ok this] show ?thesis by blast
qed
subsection \<open>Progress\<close>

lemma with_db_up: "db_conns d = (True, now) # cs \<Longrightarrow> body now (d\<lparr>db_conns := cs\<rparr>) = (Inr x, t) \<Longrightarrow> with_db body d = (Inr x, t)"
  by (simp add: with_db_def)

lemma follow_each_settled: "\<forall>c \<in> set cs. settled (co_status c) \<Longrightarrow> follow_each ops env cs = ret cs"
  by (induction cs) (auto simp: follow_close_def settled_def bindS_def ret_def)

lemma bindS_ret: "m s = (Inr x, t) \<Longrightarrow> bindS m f s = f x t"
  by (simp add: bindS_def)

lemma decide_closes_flat:
  assumes cs: "\<forall>c \<in> set cs. settled (co_status c)"
    and stops: "orders_with_prefix (pe_stops env) (stop_prefix (tk_entry_client_order_id task)) = Inr stops" "\<forall>ord \<in> set stops. is_terminal ord"
      "stop_filled stops = Inr stopped"
    and rest: "close_filled cs = Inr by_closes" "owned_remainder task by_closes stopped = Inr rest"
    and pos: "position_of env task = Inr pos" "\<not> po_opposite_side pos" "nle (po_contracts pos) (Num 0) = Inr True"
  shows "decide_closes ops ex env task cs =
     bindS (set_status ops ex (task\<lparr>tk_owned_remainder := rest\<rparr>) STATUS_CONFIRMED_FLAT True) (\<lambda>st. bindS (act Alert) (\<lambda>_. ret st))"
proof -
  have none: "filter (\<lambda>s. \<not> is_terminal s) stops = []" using stops(2) by (simp add: filter_empty_conv)
  have "\<not> list_ex (\<lambda>c. co_status c = Att_manual_required) cs" "\<not> list_ex (\<lambda>c. co_status c = Att_accepted) cs"
    "filter (\<lambda>c. close_unknown (co_status c)) cs = []"
    using cs by (auto simp: settled_def list_ex_iff filter_empty_conv)
  then show ?thesis
    using stops rest pos none
    by (simp add: decide_closes_def decide_stops_def decide_position_def fun_eq_iff bindS_apply pureS_apply)
qed

lemma find_unique: "x \<in> set xs \<Longrightarrow> P x \<Longrightarrow> (\<And>z. z \<in> set xs \<Longrightarrow> P z \<Longrightarrow> z = x) \<Longrightarrow> find P xs = Some x"
proof (cases "find P xs")
  case None
  then show "x \<in> set xs \<Longrightarrow> P x \<Longrightarrow> find P xs = Some x" by (auto simp: find_None_iff)
next
  case (Some z)
  then have "z \<in> set xs" "P z" by (auto simp: find_Some_iff)
  then show "(\<And>z. z \<in> set xs \<Longrightarrow> P z \<Longrightarrow> z = x) \<Longrightarrow> find P xs = Some x" using Some by simp
qed

lemma update_task_succeeds:
  assumes "db_conns d = (True, now) # cs" "find (\<lambda>r. tk_id (tr_task r) = tk_id task \<and> tr_claim_owner r = Some owner) (db_tasks d) = Some k"
    and "numeric 8 rest = Inr q" "task_checks (tr_task (updated_row now st q n release k))"
    and "\<not> active_conflict d (tr_task (updated_row now st q n release k))"
  shows "\<exists>t. update_task task owner st rest n release d = (Inr (), t)"
  unfolding update_task_def by (rule exI, rule with_db_up[OF assms(1)]) (use assms in \<open>simp add: Let_def\<close>)

lemma link_closes_in_none:
  "since d = Some c \<Longrightarrow> unlinked_instrument_closes e bs nt mt (Some c) d = 0 \<Longrightarrow> link_closes_in i None e bs nt mt since d = (Inr None, d)"
  by (simp add: link_closes_in_def prog_simps)

lemma remainder_within:
  assumes q: "fits 8 (Num q)" "0 < q" and nn: "0 \<le> a" "0 \<le> b"
    and rest: "owned_remainder task (Num a) (Num b) = Inr rest" "tk_owned_quantity task = Num q"
  obtains v where "numeric 8 rest = Inr (Num v)" "0 \<le> v" "v \<le> q"
proof -
  obtain k :: int where k: "\<bar>k\<bar> < 10 ^ 18" "q = of_int k / 10 ^ 8" using q(1) by (auto simp: fits_def)
  have exact: "dec28 q = q" unfolding k(2) by (rule dec28_exact) (use k(1) in simp_all)
  have mono: "dec28 x \<le> dec28 y" if "x \<le> y" for x y unfolding dec28_def by (rule round_sig_mono) (use that in simp_all)
  have a: "dsub q a \<le> q" unfolding dsub_def using mono[of "q - a" q] nn exact by simp
  have b: "dsub (dsub q a) b \<le> q" unfolding dsub_def[of _ b] using mono[of "dsub q a - b" q] nn a exact by simp
  define x where "x = (if 0 < dsub (dsub q a) b then dsub (dsub q a) b else 0)"
  have x: "0 \<le> x" "x \<le> q" using b q(2) by (auto simp: x_def)
  have r: "rest = Num x" using rest by (auto simp: owned_remainder_def x_def)
  define n where "n = \<lfloor>x * 10 ^ 8 + 1 / 2\<rfloor>"
  have "x * 10 ^ 8 \<le> of_int k" using x(2) k(2) by (simp add: field_simps)
  then have "n \<le> k" unfolding n_def by linarith
  moreover have "0 \<le> n" unfolding n_def using x(1) by (simp add: zero_le_floor)
  ultimately have n: "0 \<le> n" "n \<le> k" "\<not> 10 ^ 18 \<le> \<bar>n\<bar>" using k(1) by auto
  have "numeric 8 rest = Inr (Num (of_int n / 10 ^ 8))"
  proof -
    have "(if 0 \<le> x * 10 ^ 8 then \<lfloor>x * 10 ^ 8 + 1 / 2\<rfloor> else - \<lfloor>- (x * 10 ^ 8) + 1 / 2\<rfloor>) = n" using x(1) by (simp add: n_def)
    then show ?thesis unfolding r numeric_def number.case Let_def by (simp only: n(3) if_False)
  qed
  moreover have "(of_int n :: rat) / 10 ^ 8 \<le> q" "0 \<le> (of_int n :: rat) / 10 ^ 8" using n k(2) by (simp_all add: divide_right_mono)
  ultimately show thesis using that by blast
qed


end
