(* ===== verification/Protective_Stop.thy ===== *)
theory Protective_Stop
  imports Exchange_Orders Order_Ids Py_State
begin

text \<open>
  Placing the protective stop of an entry (\<open>protective_stop.py\<close>, \<open>place_protective_stop\<close>): up to
  three requests under one deadline, each answered by an order, a rejection or nothing certain. What
  an attempt meets is a record of clock readings and replies. Symbol, side, amount and trigger price
  are the same in every request and the error texts are kinds of errors.
\<close>

definition STOP_RETRY_DELAYS_SECONDS :: "pyfloat list" where
  "STOP_RETRY_DELAYS_SECONDS = [Fin 0, Fin (3 / 2), Fin (9 / 2)]"

definition STOP_DEADLINE_SECONDS :: pyfloat where
  "STOP_DEADLINE_SECONDS = Fin 10"

datatype stop_condition = Resting | Filling | Terminal_fill | No_fill

definition stop_condition :: "order \<Rightarrow> stop_condition res" where
  "stop_condition ord =
     bindE (nlt (Num 0) (fill_of ord)) (\<lambda>positive.
       Inr (if is_terminal ord then if positive then Terminal_fill else No_fill
            else if positive then Filling else Resting))"

datatype stop_error =
    Ended_no_fill string | Already string stop_condition | Duplicate_outcome_unknown | Not_retryable
  | Outcome_unknown | Stop_refused

record placement =
  pl_order :: "order option"
  pl_client_order_id :: string
  pl_sequence :: int
  pl_requests :: int
  pl_errors :: "stop_error list"

text \<open>The last error, if any.\<close>

definition placement_error :: "placement \<Rightarrow> stop_error option" where
  "placement_error p = (if pl_errors p = [] then None else Some (last (pl_errors p)))"

text \<open>
  The exception classes a request can end with: \<open>InvalidOrder\<close>, its subclass for duplicate ids, a
  network error, any other \<open>ExchangeError\<close>, and everything else, a timeout included.
\<close>

datatype stop_reply = Stop_order order | Invalid_order | Duplicate_order_id | Stop_network_error | Stop_rejected | Stop_failed

datatype stop_event = Requested string stop_reply | Looked string "order option"

record stop_run =
  sr_placement :: placement
  sr_unknown :: bool
  sr_log :: "stop_event list"

text \<open>The elapsed seconds read at the start, before a sleep and after it, and the replies.\<close>

record stop_attempt =
  sa_elapsed :: pyfloat
  sa_elapsed_wait :: pyfloat
  sa_elapsed_check :: pyfloat
  sa_lookup :: order_source
  sa_reply :: "string \<Rightarrow> stop_reply"

definition remaining :: "pyfloat \<Rightarrow> pyfloat" where
  "remaining elapsed = fsub STOP_DEADLINE_SECONDS elapsed"

definition on_placement :: "(placement \<Rightarrow> placement) \<Rightarrow> (stop_run, unit) prog" where
  "on_placement f = modifyS (\<lambda>s. s\<lparr>sr_placement := f (sr_placement s)\<rparr>)"

definition add_error :: "stop_error \<Rightarrow> (stop_run, unit) prog" where
  "add_error e = on_placement (\<lambda>p. p\<lparr>pl_errors := pl_errors p @ [e]\<rparr>)"

definition set_unknown :: "bool \<Rightarrow> (stop_run, unit) prog" where
  "set_unknown b = modifyS (\<lambda>s. s\<lparr>sr_unknown := b\<rparr>)"

definition log_event :: "stop_event \<Rightarrow> (stop_run, unit) prog" where
  "log_event e = modifyS (\<lambda>s. s\<lparr>sr_log := sr_log s @ [e]\<rparr>)"

definition current_id :: "(stop_run, string) prog" where
  "current_id = readS (\<lambda>s. pl_client_order_id (sr_placement s))"

definition next_id :: "string \<Rightarrow> (stop_run, unit) prog" where
  "next_id entry =
     bindS (on_placement (\<lambda>p. p\<lparr>pl_sequence := pl_sequence p + 1\<rparr>)) (\<lambda>_.
     bindS (readS (\<lambda>s. pl_sequence (sr_placement s))) (\<lambda>n.
     bindS (pureS (stop_client_order_id entry n)) (\<lambda>i.
     on_placement (\<lambda>p. p\<lparr>pl_client_order_id := i\<rparr>))))"

definition settle :: "string \<Rightarrow> order \<Rightarrow> (stop_run, bool) prog" where
  "settle entry ord =
     bindS (pureS (stop_condition ord)) (\<lambda>st.
     bindS current_id (\<lambda>i.
     case st of
       Resting \<Rightarrow> bindS (on_placement (\<lambda>p. p\<lparr>pl_order := Some ord\<rparr>)) (\<lambda>_. ret True)
     | No_fill \<Rightarrow> bindS (add_error (Ended_no_fill i)) (\<lambda>_. bindS (next_id entry) (\<lambda>_. ret False))
     | _ \<Rightarrow> bindS (add_error (Already i st)) (\<lambda>_. ret True)))"

text \<open>The lookup of an id whose outcome is unknown: whether the placement ends, and whether the id is sent again.\<close>

definition look_first :: "string \<Rightarrow> stop_attempt \<Rightarrow> (stop_run, bool \<times> bool) prog" where
  "look_first entry a =
     bindS (readS sr_unknown) (\<lambda>unknown.
     if \<not> unknown then ret (False, False)
     else
       bindS current_id (\<lambda>i.
       let found = look_up (sa_lookup a) i in
       bindS (log_event (Looked i found)) (\<lambda>_.
       case found of
         None \<Rightarrow> ret (False, True)
       | Some ord \<Rightarrow>
           bindS (settle entry ord) (\<lambda>done.
           if done then ret (True, False)
           else bindS (set_unknown False) (\<lambda>_. ret (False, False))))))"

datatype loop_exit = Next | Break | Return

definition request_stop :: "string \<Rightarrow> stop_attempt \<Rightarrow> bool \<Rightarrow> (stop_run, loop_exit) prog" where
  "request_stop entry a resending_unknown =
     bindS (on_placement (\<lambda>p. p\<lparr>pl_requests := pl_requests p + 1\<rparr>)) (\<lambda>_.
     bindS current_id (\<lambda>i.
     let reply = sa_reply a i in
     bindS (log_event (Requested i reply)) (\<lambda>_.
     case reply of
       Stop_order ord \<Rightarrow>
         bindS (set_unknown False) (\<lambda>_.
         tryS (bindS (settle entry ord) (\<lambda>done. ret (if done then Return else Next)))
           (\<lambda>_. bindS (add_error Outcome_unknown) (\<lambda>_. bindS (set_unknown True) (\<lambda>_. ret Next))))
     | Invalid_order \<Rightarrow>
         if resending_unknown
         then bindS (add_error Duplicate_outcome_unknown) (\<lambda>_. bindS (set_unknown True) (\<lambda>_. ret Next))
         else bindS (add_error Not_retryable) (\<lambda>_. bindS (set_unknown False) (\<lambda>_. ret Break))
     | Duplicate_order_id \<Rightarrow> bindS (add_error Duplicate_outcome_unknown) (\<lambda>_. bindS (set_unknown True) (\<lambda>_. ret Next))
     | Stop_network_error \<Rightarrow> bindS (add_error Outcome_unknown) (\<lambda>_. bindS (set_unknown True) (\<lambda>_. ret Next))
     | Stop_rejected \<Rightarrow>
         bindS (add_error Stop_refused) (\<lambda>_. bindS (set_unknown False) (\<lambda>_. bindS (next_id entry) (\<lambda>_. ret Next)))
     | Stop_failed \<Rightarrow> bindS (add_error Outcome_unknown) (\<lambda>_. bindS (set_unknown True) (\<lambda>_. ret Next)))))"

text \<open>Whether the deadline stops the loop before the request.\<close>

definition too_late :: "pyfloat \<Rightarrow> stop_attempt \<Rightarrow> bool" where
  "too_late delay a =
     (let wait = fsub delay (sa_elapsed a) in
      flt (Fin 0) wait \<and> fle (remaining (sa_elapsed_wait a)) wait \<or> fle (remaining (sa_elapsed_check a)) (Fin 0))"

text \<open>The loop; true when the placement returned from inside it.\<close>

fun stop_attempts :: "string \<Rightarrow> (pyfloat \<times> stop_attempt) list \<Rightarrow> (stop_run, bool) prog" where
  "stop_attempts entry [] = ret False"
| "stop_attempts entry ((delay, a) # rest) =
     (if too_late delay a then ret False
      else bindS (look_first entry a) (\<lambda>(finished, resending).
        if finished then ret True
        else bindS (request_stop entry a resending) (\<lambda>exit.
          case exit of Return \<Rightarrow> ret True | Break \<Rightarrow> ret False | Next \<Rightarrow> stop_attempts entry rest)))"

definition last_look :: "string \<Rightarrow> order_source \<Rightarrow> (stop_run, unit) prog" where
  "last_look entry source =
     bindS (readS sr_unknown) (\<lambda>unknown.
     if \<not> unknown then ret ()
     else bindS current_id (\<lambda>i.
       let found = look_up source i in
       bindS (log_event (Looked i found)) (\<lambda>_.
       case found of None \<Rightarrow> ret () | Some ord \<Rightarrow> bindS (settle entry ord) (\<lambda>_. ret ()))))"

definition start_run :: "string \<Rightarrow> int \<Rightarrow> stop_run" where
  "start_run i first_sequence =
     \<lparr>sr_placement = \<lparr>pl_order = None, pl_client_order_id = i, pl_sequence = first_sequence, pl_requests = 0, pl_errors = []\<rparr>,
      sr_unknown = False, sr_log = []\<rparr>"

definition place_stop_prog :: "string \<Rightarrow> stop_attempt list \<Rightarrow> order_source \<Rightarrow> (stop_run, unit) prog" where
  "place_stop_prog entry attempts source =
     bindS (stop_attempts entry (zip STOP_RETRY_DELAYS_SECONDS attempts)) (\<lambda>returned.
       if returned then ret () else last_look entry source)"

text \<open>The placement and the events, given what the attempts and the last lookup meet.\<close>

definition place_protective_stop ::
  "string \<Rightarrow> int \<Rightarrow> stop_attempt list \<Rightarrow> order_source \<Rightarrow> (placement \<times> stop_event list) res" where
  "place_protective_stop entry first_sequence attempts source =
     bindE (stop_client_order_id entry first_sequence) (\<lambda>i.
       case place_stop_prog entry attempts source (start_run i first_sequence) of
         (Inl e, _) \<Rightarrow> Inl e
       | (Inr _, s) \<Rightarrow> Inr (sr_placement s, sr_log s))"

subsection \<open>What the placement guarantees\<close>

text \<open>An event that ends the id: an explicit rejection, or an order seen terminal without a fill.\<close>

definition ends_id :: "string \<Rightarrow> stop_event \<Rightarrow> bool" where
  "ends_id i e \<longleftrightarrow> (case e of
       Requested j (Stop_order ord) \<Rightarrow> j = i \<and> stop_condition ord = Inr No_fill
     | Requested j Stop_rejected \<Rightarrow> j = i
     | Looked j (Some ord) \<Rightarrow> j = i \<and> stop_condition ord = Inr No_fill
     | _ \<Rightarrow> False)"

definition shows_order :: "string \<Rightarrow> order \<Rightarrow> stop_event \<Rightarrow> bool" where
  "shows_order i ord e \<longleftrightarrow> e = Requested i (Stop_order ord) \<or> e = Looked i (Some ord)"

fun requested_ids :: "stop_event list \<Rightarrow> string list" where
  "requested_ids [] = []"
| "requested_ids (Requested i _ # es) = i # requested_ids es"
| "requested_ids (Looked _ _ # es) = requested_ids es"

text \<open>Every request asks for the id in use, and every earlier id has ended by then.\<close>

fun one_open_id :: "stop_event list \<Rightarrow> stop_event list \<Rightarrow> bool" where
  "one_open_id past [] = True"
| "one_open_id past (e # es) =
     ((case e of Requested i _ \<Rightarrow> (\<forall>j \<in> set (requested_ids past). j = i \<or> (\<exists>x \<in> set past. ends_id j x)) | _ \<Rightarrow> True) \<and>
      one_open_id (past @ [e]) es)"

lemma requested_ids_append [simp]: "requested_ids (xs @ ys) = requested_ids xs @ requested_ids ys"
  by (induction xs rule: requested_ids.induct) simp_all

lemma one_open_id_append: "one_open_id past (xs @ ys) \<longleftrightarrow> one_open_id past xs \<and> one_open_id (past @ xs) ys"
  by (induction xs arbitrary: past) auto

definition run_ok :: "stop_run \<Rightarrow> bool" where
  "run_ok s \<longleftrightarrow>
     one_open_id [] (sr_log s) \<and>
     (\<forall>j \<in> set (requested_ids (sr_log s)). j = pl_client_order_id (sr_placement s) \<or> (\<exists>x \<in> set (sr_log s). ends_id j x)) \<and>
     pl_requests (sr_placement s) = int (length (requested_ids (sr_log s)))"
definition confirmed :: "stop_run \<Rightarrow> bool" where
  "confirmed s \<longleftrightarrow> (\<forall>ord. pl_order (sr_placement s) = Some ord \<longrightarrow>
     stop_condition ord = Inr Resting \<and> (\<exists>x \<in> set (sr_log s). shows_order (pl_client_order_id (sr_placement s)) ord x))"

definition looping :: "stop_run \<Rightarrow> bool" where
  "looping s \<longleftrightarrow> run_ok s \<and> pl_order (sr_placement s) = None"

definition finished :: "stop_run \<Rightarrow> bool" where
  "finished s \<longleftrightarrow> run_ok s \<and> confirmed s"

lemma looping_finished: "looping s \<Longrightarrow> finished s"
  by (simp add: looping_def finished_def confirmed_def)

lemmas stop_prog_defs = on_placement_def add_error_def set_unknown_def log_event_def current_id_def

lemma looping_add_error: "keeps looping (add_error e)"
  by (auto simp: ends_def stop_prog_defs prog_simps looping_def run_ok_def)

lemma looping_set_unknown: "keeps looping (set_unknown b)"
  by (auto simp: ends_def stop_prog_defs prog_simps looping_def run_ok_def)

lemma keeps_note: "keeps looping (bindS (add_error e) (\<lambda>_. bindS (set_unknown b) (\<lambda>_. ret x)))"
  by (intro keeps_bind looping_add_error looping_set_unknown keeps_ret)

text \<open>A new id may be taken once the current one has ended.\<close>

definition current_ended :: "stop_run \<Rightarrow> bool" where
  "current_ended s \<longleftrightarrow> (\<exists>x \<in> set (sr_log s). ends_id (pl_client_order_id (sr_placement s)) x)"

lemma next_id_looping: "ends (\<lambda>s. looping s \<and> current_ended s) (next_id entry) (\<lambda>r. looping)"
  by (auto simp: ends_def next_id_def stop_prog_defs prog_simps looping_def run_ok_def current_ended_def split: sum.splits)

lemma shows_ends: "shows_order i ord x \<Longrightarrow> stop_condition ord = Inr No_fill \<Longrightarrow> ends_id i x"
  by (auto simp: shows_order_def ends_id_def)

lemma settle_ends:
  "ends (\<lambda>s. looping s \<and> (\<exists>x \<in> set (sr_log s). shows_order (pl_client_order_id (sr_placement s)) ord x)) (settle entry ord)
     (\<lambda>r s. if r = Inr True then finished s else looping s)"
proof (cases "stop_condition ord")
  case (Inl e)
  then show ?thesis by (simp add: settle_def ends_def prog_simps)
next
  case (Inr st)
  show ?thesis
  proof (rule endsI)
    fix s r t
    assume s: "looping s \<and> (\<exists>x \<in> set (sr_log s). shows_order (pl_client_order_id (sr_placement s)) ord x)"
      and run: "settle entry ord s = (r, t)"
    let ?i = "pl_client_order_id (sr_placement s)"
    consider "st = Resting" | "st = No_fill" | "st = Filling \<or> st = Terminal_fill" by (cases st) auto
    then show "if r = Inr True then finished t else looping t"
    proof cases
      case 1
      then show ?thesis using s run Inr
        by (auto simp: settle_def stop_prog_defs prog_simps finished_def looping_def confirmed_def run_ok_def)
    next
      case 2
      let ?u = "s\<lparr>sr_placement := (sr_placement s)\<lparr>pl_errors := pl_errors (sr_placement s) @ [Ended_no_fill ?i]\<rparr>\<rparr>"
      obtain q u where q: "next_id entry ?u = (q, u)" by force
      have "looping ?u" "current_ended ?u"
        using s 2 Inr by (auto simp: looping_def run_ok_def current_ended_def intro: shows_ends)
      then have "looping u" using endsD[OF next_id_looping _ q] by blast
      then show ?thesis using run Inr 2 q
        by (auto simp: settle_def stop_prog_defs prog_simps split: sum.splits)
    next
      case 3
      let ?t = "s\<lparr>sr_placement := (sr_placement s)\<lparr>pl_errors := pl_errors (sr_placement s) @ [Already ?i st]\<rparr>\<rparr>"
      have "looping ?t" using s by (simp add: looping_def run_ok_def)
      moreover have "t = ?t" using 3 run Inr by (auto simp: settle_def stop_prog_defs prog_simps)
      ultimately show ?thesis using looping_finished by simp
    qed
  qed
qed

text \<open>An event about the id in use.\<close>

lemma log_looked: "looping s \<Longrightarrow> looping (s\<lparr>sr_log := sr_log s @ [Looked (pl_client_order_id (sr_placement s)) found]\<rparr>)"
  by (auto simp: looping_def run_ok_def one_open_id_append)

lemma log_requested:
  "looping s \<Longrightarrow> looping (s\<lparr>sr_placement := (sr_placement s)\<lparr>pl_requests := pl_requests (sr_placement s) + 1\<rparr>,
     sr_log := sr_log s @ [Requested (pl_client_order_id (sr_placement s)) reply]\<rparr>)"
  by (auto simp: looping_def run_ok_def one_open_id_append)

lemma settle_step:
  assumes "looping s" "shows_order (pl_client_order_id (sr_placement s)) ord (last (sr_log s))" "sr_log s \<noteq> []" "settle entry ord s = (r, t)"
  shows "if r = Inr True then finished t else looping t"
  by (rule endsD[OF settle_ends _ assms(4)]) (use assms last_in_set in blast)

lemma look_first_ends:
  "ends looping (look_first entry a) (\<lambda>r s. if (\<exists>b. r = Inr (True, b)) then finished s else looping s)"
proof (rule endsI)
  fix s r t assume s: "looping s" and run: "look_first entry a s = (r, t)"
  let ?i = "pl_client_order_id (sr_placement s)"
  let ?f = "look_up (sa_lookup a) ?i"
  let ?u = "s\<lparr>sr_log := sr_log s @ [Looked ?i ?f]\<rparr>"
  show "if (\<exists>b. r = Inr (True, b)) then finished t else looping t"
  proof (cases "sr_unknown s \<and> ?f \<noteq> None")
    case False
    then show ?thesis using run s log_looked[OF s, of ?f]
      by (auto simp: look_first_def stop_prog_defs prog_simps Let_def split: if_splits)
  next
    case True
    then obtain ord where ord: "?f = Some ord" by blast
    obtain q u where q: "settle entry ord ?u = (q, u)" by force
    have *: "if q = Inr True then finished u else looping u"
      by (rule settle_step[OF log_looked[OF s, of ?f] _ _ q]) (simp_all add: shows_order_def ord)
    show ?thesis
    proof (cases q)
      case (Inl e)
      then show ?thesis using run True ord q * by (auto simp: look_first_def stop_prog_defs prog_simps Let_def)
    next
      case (Inr b)
      then show ?thesis using run True ord q *
        by (cases b) (auto simp: look_first_def stop_prog_defs prog_simps Let_def looping_def run_ok_def)
    qed
  qed
qed

lemma request_stop_ends:
  "ends looping (request_stop entry a resending) (\<lambda>r s. if r = Inr Return then finished s else looping s)"
proof (rule endsI)
  fix s r t assume s: "looping s" and run: "request_stop entry a resending s = (r, t)"
  let ?i = "pl_client_order_id (sr_placement s)"
  let ?u = "s\<lparr>sr_placement := (sr_placement s)\<lparr>pl_requests := pl_requests (sr_placement s) + 1\<rparr>,
     sr_log := sr_log s @ [Requested ?i (sa_reply a ?i)]\<rparr>"
  note u = log_requested[OF s, of "sa_reply a ?i"]
  have noted: "looping t" if "bindS (add_error e) (\<lambda>_. bindS (set_unknown b) (\<lambda>_. ret x)) ?u = (r, t)" for e b and x :: loop_exit
    by (rule endsD[OF keeps_note u that])
  show "if r = Inr Return then finished t else looping t"
  proof (cases "sa_reply a ?i")
    case (Stop_order ord)
    let ?v = "?u\<lparr>sr_unknown := False\<rparr>"
    obtain q v where q: "settle entry ord ?v = (q, v)" by force
    have v: "looping ?v" using u by (simp add: looping_def run_ok_def)
    have *: "if q = Inr True then finished v else looping v"
      by (rule settle_step[OF v _ _ q]) (simp_all add: shows_order_def Stop_order)
    show ?thesis
    proof (cases q)
      case (Inl e)
      then show ?thesis using run Stop_order q *
        by (auto simp: request_stop_def stop_prog_defs prog_simps tryS_def Let_def looping_def run_ok_def)
    next
      case (Inr b)
      then show ?thesis using run Stop_order q *
        by (auto simp: request_stop_def stop_prog_defs prog_simps tryS_def Let_def split: if_splits)
    qed
  next
    case Stop_rejected
    let ?v = "?u\<lparr>sr_placement := (sr_placement ?u)\<lparr>pl_errors := pl_errors (sr_placement s) @ [Stop_refused]\<rparr>, sr_unknown := False\<rparr>"
    obtain q v where q: "next_id entry ?v = (q, v)" by force
    have "looping ?v" "current_ended ?v"
      using u Stop_rejected by (auto simp: looping_def run_ok_def current_ended_def ends_id_def)
    then have "looping v" using endsD[OF next_id_looping _ q] by blast
    then show ?thesis using run Stop_rejected q
      by (auto simp: request_stop_def stop_prog_defs prog_simps Let_def split: sum.splits)
  qed (use run noted looping_finished in \<open>auto simp: request_stop_def on_placement_def log_event_def current_id_def prog_simps(1-5) Let_def split: if_splits\<close>)
qed
lemma stop_attempts_ends: "ends looping (stop_attempts entry as) (\<lambda>r s. if r = Inr True then finished s else looping s)"
proof (induction as)
  case Nil
  show ?case by (simp add: ends_ret)
next
  case (Cons da rest)
  obtain delay a where da: "da = (delay, a)" by force
  have next_step: "ends looping (bindS (request_stop entry a b) (\<lambda>exit.
      case exit of Return \<Rightarrow> ret True | Break \<Rightarrow> ret False | Next \<Rightarrow> stop_attempts entry rest))
      (\<lambda>r s. if r = Inr True then finished s else looping s)" for b
  proof (rule ends_bind[where R = "\<lambda>x s. if x = Return then finished s else looping s"])
    show "ends looping (request_stop entry a b) (\<lambda>r t. case r of Inl e \<Rightarrow> if Inl e = Inr True then finished t else looping t
        | Inr x \<Rightarrow> if x = Return then finished t else looping t)"
      by (rule ends_weaken[OF request_stop_ends]) (auto split: sum.splits if_splits)
    show "ends (\<lambda>s. if x = Return then finished s else looping s)
        (case x of Return \<Rightarrow> ret True | Break \<Rightarrow> ret False | Next \<Rightarrow> stop_attempts entry rest)
        (\<lambda>r s. if r = Inr True then finished s else looping s)" for x
      using Cons.IH by (cases x) (simp_all add: ends_ret)
  qed
  have "ends looping (bindS (look_first entry a) (\<lambda>(fin, resending). if fin then ret True
      else bindS (request_stop entry a resending) (\<lambda>exit.
          case exit of Return \<Rightarrow> ret True | Break \<Rightarrow> ret False | Next \<Rightarrow> stop_attempts entry rest)))
      (\<lambda>r s. if r = Inr True then finished s else looping s)"
  proof (rule ends_bind[where R = "\<lambda>x s. if fst x then finished s else looping s"])
    show "ends looping (look_first entry a) (\<lambda>r t. case r of Inl e \<Rightarrow> if Inl e = Inr True then finished t else looping t
        | Inr x \<Rightarrow> if fst x then finished t else looping t)"
      by (rule ends_weaken[OF look_first_ends]) (auto split: sum.splits if_splits)
    show "ends (\<lambda>s. if fst x then finished s else looping s) (case x of (fin, resending) \<Rightarrow> if fin then ret True
      else bindS (request_stop entry a resending) (\<lambda>exit.
          case exit of Return \<Rightarrow> ret True | Break \<Rightarrow> ret False | Next \<Rightarrow> stop_attempts entry rest))
        (\<lambda>r s. if r = Inr True then finished s else looping s)" for x
      using next_step by (cases x) (auto simp: ends_ret)
  qed
  then show ?case by (simp add: da ends_ret)
qed

lemma last_look_ends: "ends looping (last_look entry source) (\<lambda>r. finished)"
proof (rule endsI)
  fix s r t assume s: "looping s" and run: "last_look entry source s = (r, t)"
  let ?i = "pl_client_order_id (sr_placement s)"
  let ?f = "look_up source ?i"
  let ?u = "s\<lparr>sr_log := sr_log s @ [Looked ?i ?f]\<rparr>"
  show "finished t"
  proof (cases "sr_unknown s \<and> ?f \<noteq> None")
    case False
    then show ?thesis using run looping_finished[OF s] looping_finished[OF log_looked[OF s, of ?f]]
      by (auto simp: last_look_def stop_prog_defs prog_simps Let_def split: if_splits)
  next
    case True
    then obtain ord where ord: "?f = Some ord" by blast
    obtain q u where q: "settle entry ord ?u = (q, u)" by force
    have "if q = Inr True then finished u else looping u"
      by (rule settle_step[OF log_looked[OF s, of ?f] _ _ q]) (simp_all add: shows_order_def ord)
    then have "finished u" using looping_finished by (auto split: if_splits)
    then show ?thesis using run True ord q
      by (auto simp: last_look_def stop_prog_defs prog_simps Let_def split: sum.splits)
  qed
qed

lemma place_stop_ends: "ends looping (place_stop_prog entry attempts source) (\<lambda>r. finished)"
  unfolding place_stop_prog_def
proof (rule ends_bind[where R = "\<lambda>x s. if x then finished s else looping s"])
  show "ends looping (stop_attempts entry (zip STOP_RETRY_DELAYS_SECONDS attempts))
      (\<lambda>r t. case r of Inl e \<Rightarrow> finished t | Inr x \<Rightarrow> if x then finished t else looping t)"
    by (rule ends_weaken[OF stop_attempts_ends]) (auto split: sum.splits if_splits intro: looping_finished)
  show "ends (\<lambda>s. if x then finished s else looping s) (if x then ret () else last_look entry source) (\<lambda>r. finished)" for x
    using last_look_ends by (cases x) (simp_all add: ends_ret)
qed

definition requests :: "stop_run \<Rightarrow> int" where
  "requests s = pl_requests (sr_placement s)"

lemma requests_frame [simp]: "requests (s\<lparr>sr_unknown := b\<rparr>) = requests s" "requests (s\<lparr>sr_log := l\<rparr>) = requests s"
  by (simp_all add: requests_def)

lemma settle_requests: "keeps (\<lambda>s. requests s \<le> n) (settle entry ord)"
  by (auto simp: ends_def settle_def next_id_def stop_prog_defs prog_simps requests_def split: sum.splits stop_condition.splits)
lemma requests_basic:
  "keeps (\<lambda>s. requests s \<le> n) (add_error e)" "keeps (\<lambda>s. requests s \<le> n) (set_unknown b)"
  "keeps (\<lambda>s. requests s \<le> n) (log_event x)" "keeps (\<lambda>s. requests s \<le> n) current_id" "keeps (\<lambda>s. requests s \<le> n) (next_id entry)"
  by (auto simp: ends_def next_id_def stop_prog_defs prog_simps requests_def split: sum.splits)

lemma look_first_requests: "keeps (\<lambda>s. requests s \<le> n) (look_first entry a)"
  by (auto simp: look_first_def Let_def split: option.split intro!: keeps_bind keeps_read keeps_ret requests_basic settle_requests)

lemma last_look_requests: "keeps (\<lambda>s. requests s \<le> n) (last_look entry source)"
  by (auto simp: last_look_def Let_def split: option.split intro!: keeps_bind keeps_read keeps_ret requests_basic settle_requests)

lemma request_stop_requests: "ends (\<lambda>s. requests s \<le> n) (request_stop entry a b) (\<lambda>r s. requests s \<le> n + 1)"
  unfolding request_stop_def
proof (rule ends_bind[where R = "\<lambda>_ s. requests s \<le> n + 1"])
  show "ends (\<lambda>s. requests s \<le> n) (on_placement (\<lambda>p. p\<lparr>pl_requests := pl_requests p + 1\<rparr>))
      (\<lambda>r t. case r of Inl e \<Rightarrow> requests t \<le> n + 1 | Inr x \<Rightarrow> requests t \<le> n + 1)"
    by (auto simp: ends_def on_placement_def prog_simps requests_def)
qed (auto simp: Let_def split: stop_reply.split intro!: keeps_bind keeps_try keeps_ret requests_basic settle_requests)

lemma stop_attempts_requests: "ends (\<lambda>s. requests s \<le> n) (stop_attempts entry as) (\<lambda>r s. requests s \<le> n + int (length as))"
proof (induction as arbitrary: n)
  case Nil
  show ?case by (simp add: ends_ret)
next
  case (Cons da rest)
  obtain delay a where da: "da = (delay, a)" by force
  have step: "ends (\<lambda>s. requests s \<le> n) (bindS (request_stop entry a b) (\<lambda>exit.
      case exit of Return \<Rightarrow> ret True | Break \<Rightarrow> ret False | Next \<Rightarrow> stop_attempts entry rest))
      (\<lambda>r s. requests s \<le> n + int (length (da # rest)))" for b
  proof (rule ends_bind[where R = "\<lambda>_ s. requests s \<le> n + 1"])
    show "ends (\<lambda>s. requests s \<le> n) (request_stop entry a b)
        (\<lambda>r t. case r of Inl e \<Rightarrow> requests t \<le> n + int (length (da # rest)) | Inr x \<Rightarrow> requests t \<le> n + 1)"
      by (rule ends_weaken[OF request_stop_requests]) (auto split: sum.splits)
    show "ends (\<lambda>s. requests s \<le> n + 1) (case x of Return \<Rightarrow> ret True | Break \<Rightarrow> ret False | Next \<Rightarrow> stop_attempts entry rest)
        (\<lambda>r s. requests s \<le> n + int (length (da # rest)))" for x
      using Cons.IH[of "n + 1"] by (cases x) (auto simp: ends_def prog_simps algebra_simps)
  qed
  have "ends (\<lambda>s. requests s \<le> n) (bindS (look_first entry a) (\<lambda>(fin, resending). if fin then ret True
      else bindS (request_stop entry a resending) (\<lambda>exit.
          case exit of Return \<Rightarrow> ret True | Break \<Rightarrow> ret False | Next \<Rightarrow> stop_attempts entry rest)))
      (\<lambda>r s. requests s \<le> n + int (length (da # rest)))"
  proof (rule ends_bind[where R = "\<lambda>_ s. requests s \<le> n"])
    show "ends (\<lambda>s. requests s \<le> n) (look_first entry a)
        (\<lambda>r t. case r of Inl e \<Rightarrow> requests t \<le> n + int (length (da # rest)) | Inr x \<Rightarrow> requests t \<le> n)"
      by (rule ends_weaken[OF look_first_requests]) (auto split: sum.splits)
  qed (use step in \<open>auto intro!: ends_ret\<close>)
  then show ?case by (auto simp: da intro!: ends_ret)
qed

lemma place_stop_requests: "ends (\<lambda>s. requests s \<le> 0) (place_stop_prog entry attempts source) (\<lambda>r s. requests s \<le> 3)"
  unfolding place_stop_prog_def
proof (rule ends_bind[where R = "\<lambda>_ s. requests s \<le> 3"])
  show "ends (\<lambda>s. requests s \<le> 0) (stop_attempts entry (zip STOP_RETRY_DELAYS_SECONDS attempts))
      (\<lambda>r t. case r of Inl e \<Rightarrow> requests t \<le> 3 | Inr x \<Rightarrow> requests t \<le> 3)"
    by (rule ends_weaken[OF stop_attempts_requests]) (auto simp: STOP_RETRY_DELAYS_SECONDS_def split: sum.splits)
qed (auto simp: ends_ret intro: last_look_requests)

text \<open>The ids a placement uses are those of the sequences from its first to its last.\<close>

definition used_sequence :: "string \<Rightarrow> int \<Rightarrow> int \<Rightarrow> string \<Rightarrow> bool" where
  "used_sequence entry first final i \<longleftrightarrow> (\<exists>n. first \<le> n \<and> n \<le> final \<and> stop_client_order_id entry n = Inr i)"

definition sequences_ok :: "string \<Rightarrow> int \<Rightarrow> stop_run \<Rightarrow> bool" where
  "sequences_ok entry first s \<longleftrightarrow>
     used_sequence entry first (pl_sequence (sr_placement s)) (pl_client_order_id (sr_placement s)) \<and>
     (\<forall>i \<in> set (requested_ids (sr_log s)). used_sequence entry first (pl_sequence (sr_placement s)) i)"

lemma used_sequence_Suc: "used_sequence entry first n i \<Longrightarrow> used_sequence entry first (n + 1) i"
  by (force simp: used_sequence_def)

lemma used_sequence_first: "used_sequence entry first n i \<Longrightarrow> first \<le> n"
  by (auto simp: used_sequence_def)

lemma next_id_sequences: "keeps (sequences_ok entry first) (next_id entry)"
proof (rule endsI)
  fix s r t assume s: "sequences_ok entry first s" and run: "next_id entry s = (r, t)"
  let ?n = "pl_sequence (sr_placement s)"
  have "first \<le> ?n" using s by (auto simp: sequences_ok_def dest: used_sequence_first)
  then have "stop_client_order_id entry (?n + 1) = Inr i \<Longrightarrow> used_sequence entry first (?n + 1) i" for i
    unfolding used_sequence_def by (intro exI[of _ "?n + 1"]) simp
  then show "sequences_ok entry first t" using s run
    by (auto simp: next_id_def stop_prog_defs prog_simps sequences_ok_def used_sequence_Suc split: sum.splits)
qed

lemma sequences_basic:
  "keeps (sequences_ok entry first) (add_error e)" "keeps (sequences_ok entry first) (set_unknown b)"
  "keeps (sequences_ok entry first) (log_event (Looked i found))" "keeps (sequences_ok entry first) current_id"
  "keeps (sequences_ok entry first) (on_placement (\<lambda>p. p\<lparr>pl_order := x\<rparr>))"
  "keeps (sequences_ok entry first) (on_placement (\<lambda>p. p\<lparr>pl_requests := pl_requests p + 1\<rparr>))"
  by (auto simp: ends_def stop_prog_defs prog_simps sequences_ok_def)

lemma settle_sequences: "keeps (sequences_ok entry first) (settle entry ord)"
  by (auto simp: settle_def split: stop_condition.split intro!: keeps_bind keeps_pure keeps_ret sequences_basic next_id_sequences)

lemma requested_sequences:
  assumes "\<And>i reply. keeps (sequences_ok entry first) (f i reply)"
  shows "keeps (sequences_ok entry first) (bindS current_id (\<lambda>i. let reply = sa_reply a i in bindS (log_event (Requested i reply)) (\<lambda>_. f i reply)))"
proof (rule endsI)
  fix s r t assume s: "sequences_ok entry first s"
    and run: "bindS current_id (\<lambda>i. let reply = sa_reply a i in bindS (log_event (Requested i reply)) (\<lambda>_. f i reply)) s = (r, t)"
  let ?i = "pl_client_order_id (sr_placement s)"
  let ?u = "s\<lparr>sr_log := sr_log s @ [Requested ?i (sa_reply a ?i)]\<rparr>"
  have "sequences_ok entry first ?u" using s by (auto simp: sequences_ok_def)
  moreover have "f ?i (sa_reply a ?i) ?u = (r, t)" using run by (simp add: current_id_def log_event_def prog_simps Let_def)
  ultimately show "sequences_ok entry first t" using endsD[OF assms] by blast
qed

lemma request_stop_sequences: "keeps (sequences_ok entry first) (request_stop entry a b)"
  unfolding request_stop_def
  by (intro keeps_bind[OF sequences_basic(6)] requested_sequences)
    (auto split: stop_reply.split intro!: keeps_bind keeps_try keeps_ret sequences_basic settle_sequences next_id_sequences)

lemma stop_attempts_sequences: "keeps (sequences_ok entry first) (stop_attempts entry as)"
proof (induction as)
  case (Cons da rest)
  have look: "keeps (sequences_ok entry first) (look_first entry a)" for a
    by (auto simp: look_first_def Let_def split: option.split intro!: keeps_bind keeps_read keeps_ret sequences_basic settle_sequences)
  show ?case using Cons
    by (cases da) (auto split: loop_exit.split intro!: keeps_bind keeps_ret look request_stop_sequences)
qed simp

lemma place_stop_sequences: "keeps (sequences_ok entry first) (place_stop_prog entry attempts source)"
  by (auto simp: place_stop_prog_def last_look_def Let_def split: option.split
      intro!: keeps_bind keeps_read keeps_ret sequences_basic settle_sequences stop_attempts_sequences)

lemma place_protective_stop_run:
  assumes "place_protective_stop entry first attempts source = Inr (p, events)"
  obtains i s where "stop_client_order_id entry first = Inr i" "place_stop_prog entry attempts source (start_run i first) = (Inr (), s)"
    "p = sr_placement s" "events = sr_log s" "finished s" "requests s \<le> 3" "sequences_ok entry first s"
proof -
  obtain i where i: "stop_client_order_id entry first = Inr i"
    using assms by (cases "stop_client_order_id entry first") (auto simp: place_protective_stop_def)
  obtain s where s: "place_stop_prog entry attempts source (start_run i first) = (Inr (), s)" "p = sr_placement s" "events = sr_log s"
    using assms i by (auto simp: place_protective_stop_def split: prod.splits sum.splits)
  have "looping (start_run i first)" "requests (start_run i first) \<le> 0" "sequences_ok entry first (start_run i first)"
    using i by (auto simp: looping_def run_ok_def start_run_def requests_def sequences_ok_def used_sequence_def)
  then show thesis
    using that[OF i s] endsD[OF place_stop_ends _ s(1)] endsD[OF place_stop_requests _ s(1)] endsD[OF place_stop_sequences _ s(1)] by blast
qed

text \<open>
  C25. A stop counts as placed only on the exchange's own word: the order that the placement reports
  was returned for the id in use, by a request or by a lookup, resting and without a fill.
\<close>

theorem stop_confirmed_resting:
  assumes "place_protective_stop entry first attempts source = Inr (p, events)" "pl_order p = Some ord"
  shows "\<not> is_terminal ord \<and> nlt (Num 0) (fill_of ord) = Inr False \<and>
    (\<exists>e \<in> set events. shows_order (pl_client_order_id p) ord e)"
proof -
  obtain s where s: "p = sr_placement s" "events = sr_log s" "finished s"
    using assms(1) by (rule place_protective_stop_run) blast
  then have "stop_condition ord = Inr Resting" "\<exists>e \<in> set events. shows_order (pl_client_order_id p) ord e"
    using assms(2) by (auto simp: finished_def confirmed_def)
  then show ?thesis by (auto simp: stop_condition_def bindE_eq_Inr split: if_splits)
qed


subsection \<open>Witnesses\<close>

text \<open>A stop whose first request times out, is not found, and rests when it is sent again.\<close>

definition sample_stop_order :: order where
  "sample_stop_order =
     \<lparr>o_id = Some ''s'', o_clientOrderId = Some (sample_entry @ ''s1''), o_info_clientOrderId = None, o_info_clientOid = None,
      o_info_orderLinkId = None, o_status = Some ''open'', o_filled = PInt 0, o_amount = PInt 2, o_average = PNone,
      o_price = PNone, o_cost = PNone, o_lastTradeTimestamp = PNone\<rparr>"

definition nothing_listed :: order_source where
  "nothing_listed = \<lparr>has_fetchOpenOrders = True, has_fetchClosedOrders = True, fetch_open_orders = (\<lambda>_. Inr []), fetch_closed_orders = (\<lambda>_. Inr [])\<rparr>"

definition sample_attempts :: "stop_attempt list" where
  "sample_attempts = map (\<lambda>(t, r). \<lparr>sa_elapsed = Fin t, sa_elapsed_wait = Fin t, sa_elapsed_check = Fin t, sa_lookup = nothing_listed, sa_reply = (\<lambda>_. r)\<rparr>)
     [(0, Stop_failed), (3, Stop_order sample_stop_order), (5, Stop_failed)]"

definition sample_placement :: placement where
  "sample_placement = \<lparr>pl_order = Some sample_stop_order, pl_client_order_id = sample_entry @ ''s1'', pl_sequence = 1, pl_requests = 2, pl_errors = [Outcome_unknown]\<rparr>"

definition sample_events :: "stop_event list" where
  "sample_events = [Requested (sample_entry @ ''s1'') Stop_failed, Looked (sample_entry @ ''s1'') None, Requested (sample_entry @ ''s1'') (Stop_order sample_stop_order)]"

lemma sample_places: "place_protective_stop sample_entry 1 sample_attempts nothing_listed = Inr (sample_placement, sample_events)"
  by code_simp

theorem stop_confirmed_resting_witness:
  "\<exists>e \<in> set sample_events. shows_order (sample_entry @ ''s1'') sample_stop_order e"
  using stop_confirmed_resting[OF sample_places] by (simp add: sample_placement_def)


end
