(* ===== verification/Order_Lock.thy ===== *)
theory Order_Lock
  imports Py_Num Py_State
begin

text \<open>
  Renewable, owner-checked leases on an instrument (\<open>order_lock.py\<close>). Redis is a parameter: the
  record of the four commands that the code and its two scripts call, with the laws they rely on in the
  locale \<open>redis\<close>. Every process that takes leases on the same server is part of one system whose
  steps are the calls of the lease class and the passing of time; a call may be answered, or raise
  before or after the server acted.
\<close>

definition ORDER_LOCK_TTL_MS :: int where
  "ORDER_LOCK_TTL_MS = 30000"

definition ORDER_LOCK_RENEW_INTERVAL_SECONDS :: pyfloat where
  "ORDER_LOCK_RENEW_INTERVAL_SECONDS = Fin 10"

subsection \<open>The server\<close>

record 'r redis_ops =
  rd_get :: "string \<Rightarrow> 'r \<Rightarrow> string option"
  rd_set_nx_px :: "string \<Rightarrow> string \<Rightarrow> int \<Rightarrow> 'r \<Rightarrow> bool \<times> 'r"
  rd_pexpire :: "string \<Rightarrow> int \<Rightarrow> 'r \<Rightarrow> int \<times> 'r"
  rd_del :: "string \<Rightarrow> 'r \<Rightarrow> int \<times> 'r"
  rd_elapse :: "int \<Rightarrow> 'r \<Rightarrow> 'r"

definition renew_lock :: "'r redis_ops \<Rightarrow> string \<Rightarrow> string \<Rightarrow> int \<Rightarrow> 'r \<Rightarrow> int \<times> 'r" where
  "renew_lock ops key token ttl_ms r = (if rd_get ops key r = Some token then rd_pexpire ops key ttl_ms r else (0, r))"

definition release_lock :: "'r redis_ops \<Rightarrow> string \<Rightarrow> string \<Rightarrow> 'r \<Rightarrow> int \<times> 'r" where
  "release_lock ops key token r = (if rd_get ops key r = Some token then rd_del ops key r else (0, r))"

text \<open>How a call ends: answered, or raised, with or without the server having acted on it.\<close>

datatype fate = Answered | Raised bool

definition call :: "fate \<Rightarrow> ('r \<Rightarrow> 'a \<times> 'r) \<Rightarrow> ('r, 'a) prog" where
  "call fate f = (\<lambda>r. case fate of
       Answered \<Rightarrow> (Inr (fst (f r)), snd (f r))
     | Raised acted \<Rightarrow> (Inl (RuntimeError ''ConnectionError''), if acted then snd (f r) else r))"

subsection \<open>A lease\<close>

datatype lost_reason = Renewal_failed | Ownership_changed | Release_not_owner

text \<open>\<open>le_heartbeat\<close> is absent before entry and after exit, else whether the renewal loop still runs.\<close>

record lease =
  le_key :: string
  le_token :: string
  le_operation :: string
  le_ttl_ms :: int
  le_renew_interval_seconds :: pyfloat
  le_heartbeat :: "bool option"
  le_lost :: "lost_reason option"

definition new_lease :: "string \<Rightarrow> string \<Rightarrow> string \<Rightarrow> int \<Rightarrow> pyfloat \<Rightarrow> lease" where
  "new_lease key token operation ttl_ms interval =
     \<lparr>le_key = key, le_token = token, le_operation = operation, le_ttl_ms = ttl_ms,
      le_renew_interval_seconds = interval, le_heartbeat = None, le_lost = None\<rparr>"

text \<open>\<open>token\<close> is the drawn \<open>uuid4\<close>.\<close>

definition acquire ::
  "'r redis_ops \<Rightarrow> string \<Rightarrow> string \<Rightarrow> int option \<Rightarrow> pyfloat option \<Rightarrow> string \<Rightarrow> fate \<Rightarrow> ('r, lease option) prog" where
  "acquire ops key operation ttl_opt interval_opt token fate =
     (let ttl_ms = (case ttl_opt of None \<Rightarrow> ORDER_LOCK_TTL_MS | Some n \<Rightarrow> n);
          interval = (case interval_opt of None \<Rightarrow> ORDER_LOCK_RENEW_INTERVAL_SECONDS | Some f \<Rightarrow> f)
      in bindS (pureS (check (0 < ttl_ms) (ValueError ''order lock TTL must be positive''))) (\<lambda>_.
         bindS (pureS (check (\<not> fle interval (Fin 0)) (ValueError ''order lock renewal interval must be positive''))) (\<lambda>_.
         bindS (pureS (check (\<not> fle (Fin (of_int ttl_ms)) (fmul interval (Fin 1000)))
                  (ValueError ''order lock renewal interval must be shorter than its TTL''))) (\<lambda>_.
         bindS (call fate (rd_set_nx_px ops key token ttl_ms)) (\<lambda>acquired.
         ret (if acquired then Some (new_lease key token operation ttl_ms interval) else None))))))"

definition mark_lost :: "lost_reason \<Rightarrow> lease \<Rightarrow> lease" where
  "mark_lost reason le = (if le_lost le = None then le\<lparr>le_lost := Some reason\<rparr> else le)"

definition aenter :: "lease \<Rightarrow> lease res" where
  "aenter le =
     (if le_heartbeat le \<noteq> None then Inl (RuntimeError ''order lock lease cannot be entered twice'')
      else Inr (le\<lparr>le_heartbeat := Some True\<rparr>))"

text \<open>One round of the renewal loop, after its sleep.\<close>

definition renew_beat :: "'r redis_ops \<Rightarrow> fate \<Rightarrow> lease \<Rightarrow> ('r, lease) prog" where
  "renew_beat ops fate le =
     tryS (bindS (call fate (renew_lock ops (le_key le) (le_token le) (le_ttl_ms le))) (\<lambda>renewed.
             ret (if renewed \<noteq> 1 then mark_lost Ownership_changed (le\<lparr>le_heartbeat := Some False\<rparr>) else le)))
       (\<lambda>_. ret (mark_lost Renewal_failed (le\<lparr>le_heartbeat := Some False\<rparr>)))"

definition release :: "'r redis_ops \<Rightarrow> fate \<Rightarrow> lease \<Rightarrow> ('r, lease) prog" where
  "release ops fate le =
     tryS (bindS (call fate (release_lock ops (le_key le) (le_token le))) (\<lambda>released.
             ret (if released \<noteq> 1 then mark_lost Release_not_owner le else le)))
       (\<lambda>_. ret le)"

text \<open>\<open>raised\<close>: whether the protected block raised. The result is what leaving the block itself raises.\<close>

definition aexit :: "'r redis_ops \<Rightarrow> fate \<Rightarrow> bool \<Rightarrow> lease \<Rightarrow> ('r, lease \<times> unit res) prog" where
  "aexit ops fate raised le =
     bindS (release ops fate (le\<lparr>le_heartbeat := None\<rparr>)) (\<lambda>le'.
     ret (le', check (le_lost le' = None \<or> raised) (RuntimeError ''OrderLockLostError'')))"

subsection \<open>The system of all leases\<close>

record 'r lock_system =
  ls_redis :: 'r
  ls_leases :: "string \<rightharpoonup> lease"
  ls_issued :: "string list"

datatype lock_event =
    Acquired string "lease option"
  | Entered string
  | Beat string lease
  | Stray string
  | Exited string fate bool "unit res"
  | Passed int

text \<open>
  A \<open>Stray\<close> step is a renewal that reaches the server although the cancelled heartbeat no longer waits
  for the answer. A drawn token is new.
\<close>

inductive lock_step :: "'r redis_ops \<Rightarrow> 'r lock_system \<Rightarrow> lock_event \<Rightarrow> 'r lock_system \<Rightarrow> bool" for ops where
  acquires: "token \<notin> set (ls_issued s) \<Longrightarrow> acquire ops key operation ttl_ms interval token fate (ls_redis s) = (result, r) \<Longrightarrow>
    got = (case result of Inl _ \<Rightarrow> None | Inr le \<Rightarrow> le) \<Longrightarrow>
    lock_step ops s (Acquired token got)
      (s\<lparr>ls_redis := r, ls_leases := (case got of None \<Rightarrow> ls_leases s | Some le \<Rightarrow> (ls_leases s)(token \<mapsto> le)),
         ls_issued := token # ls_issued s\<rparr>)"
| enters: "ls_leases s token = Some le \<Longrightarrow> aenter le = Inr le' \<Longrightarrow>
    lock_step ops s (Entered token) (s\<lparr>ls_leases := (ls_leases s)(token \<mapsto> le')\<rparr>)"
| beats: "ls_leases s token = Some le \<Longrightarrow> le_heartbeat le = Some True \<Longrightarrow> renew_beat ops fate le (ls_redis s) = (Inr le', r) \<Longrightarrow>
    lock_step ops s (Beat token le') (s\<lparr>ls_redis := r, ls_leases := (ls_leases s)(token \<mapsto> le')\<rparr>)"
| strays: "ls_leases s token = Some le \<Longrightarrow>
    lock_step ops s (Stray token) (s\<lparr>ls_redis := snd (renew_lock ops (le_key le) (le_token le) (le_ttl_ms le) (ls_redis s))\<rparr>)"
| exits: "ls_leases s token = Some le \<Longrightarrow> aexit ops fate raised le (ls_redis s) = (Inr (le', outcome), r) \<Longrightarrow>
    lock_step ops s (Exited token fate raised outcome) (s\<lparr>ls_redis := r, ls_leases := (ls_leases s)(token \<mapsto> le')\<rparr>)"
| passes: "0 \<le> ms \<Longrightarrow> lock_step ops s (Passed ms) (s\<lparr>ls_redis := rd_elapse ops ms (ls_redis s)\<rparr>)"

inductive lock_run :: "'r redis_ops \<Rightarrow> 'r lock_system \<Rightarrow> lock_event list \<Rightarrow> 'r lock_system \<Rightarrow> bool" for ops where
  start: "lock_run ops s [] s"
| more: "lock_run ops s evs t \<Longrightarrow> lock_step ops t e u \<Longrightarrow> lock_run ops s (evs @ [e]) u"

inductive_cases lock_stepE: "lock_step ops s e t"
inductive_simps lock_run_Nil: "lock_run ops s [] t"

definition no_leases :: "'r \<Rightarrow> 'r lock_system" where
  "no_leases r = \<lparr>ls_redis = r, ls_leases = Map.empty, ls_issued = []\<rparr>"

text \<open>
  The time for which the answers a lease has seen still promise it the key: its term counts from the
  acquisition and from every confirmed renewal, and ends with its own exit.
\<close>

fun term_after :: "string \<Rightarrow> int \<Rightarrow> lock_event \<Rightarrow> int" where
  "term_after a n (Acquired b got) = (if b = a then case got of None \<Rightarrow> 0 | Some le \<Rightarrow> le_ttl_ms le else n)"
| "term_after a n (Beat b le) = (if b = a then if le_lost le = None then le_ttl_ms le else 0 else n)"
| "term_after a n (Exited b _ _ _) = (if b = a then 0 else n)"
| "term_after a n (Passed ms) = n - ms"
| "term_after a n _ = n"

definition term_left :: "string \<Rightarrow> lock_event list \<Rightarrow> int" where
  "term_left a evs = foldl (term_after a) 0 evs"

definition sys_ok :: "'r lock_system \<Rightarrow> bool" where
  "sys_ok s \<longleftrightarrow> (\<forall>a le. ls_leases s a = Some le \<longrightarrow> le_token le = a \<and> a \<in> set (ls_issued s) \<and> 0 < le_ttl_ms le)"

lemma sys_okD: "sys_ok s \<Longrightarrow> ls_leases s a = Some le \<Longrightarrow> le_token le = a \<and> a \<in> set (ls_issued s) \<and> 0 < le_ttl_ms le"
  by (auto simp: sys_ok_def)

lemma no_leases_ok: "sys_ok (no_leases r)"
  by (simp add: sys_ok_def no_leases_def)

subsection \<open>What the commands promise\<close>

text \<open>\<open>pttl\<close> is the time that a lock key still lives; every lock key is written with an expiry.\<close>

locale redis =
  fixes ops :: "'r redis_ops" and pttl :: "string \<Rightarrow> 'r \<Rightarrow> int"
  assumes set_free: "rd_get ops k r = None \<Longrightarrow> 0 < ms \<Longrightarrow> rd_set_nx_px ops k v ms r = (ok, r') \<Longrightarrow>
      ok \<and> rd_get ops k r' = Some v \<and> pttl k r' = ms \<and> (\<forall>j. j \<noteq> k \<longrightarrow> rd_get ops j r' = rd_get ops j r \<and> pttl j r' = pttl j r)"
    and set_taken: "rd_get ops k r = Some w \<Longrightarrow> rd_set_nx_px ops k v ms r = (False, r)"
    and pexpire: "rd_get ops k r = Some w \<Longrightarrow> 0 < ms \<Longrightarrow> rd_pexpire ops k ms r = (n, r') \<Longrightarrow>
      n = 1 \<and> rd_get ops k r' = Some w \<and> pttl k r' = ms \<and> (\<forall>j. j \<noteq> k \<longrightarrow> rd_get ops j r' = rd_get ops j r \<and> pttl j r' = pttl j r)"
    and del: "rd_get ops k r = Some w \<Longrightarrow> rd_del ops k r = (n, r') \<Longrightarrow>
      n = 1 \<and> rd_get ops k r' = None \<and> (\<forall>j. j \<noteq> k \<longrightarrow> rd_get ops j r' = rd_get ops j r \<and> pttl j r' = pttl j r)"
    and elapse: "0 \<le> ms \<Longrightarrow> rd_get ops k (rd_elapse ops ms r) = (if ms < pttl k r then rd_get ops k r else None)"
    and elapse_pttl: "0 \<le> ms \<Longrightarrow> ms < pttl k r \<Longrightarrow> rd_get ops k r \<noteq> None \<Longrightarrow> pttl k (rd_elapse ops ms r) = pttl k r - ms"
begin

lemma renew_lock_get [simp]: "0 < ms \<Longrightarrow> rd_get ops j (snd (renew_lock ops k v ms r)) = rd_get ops j r"
  using pexpire[of k r v ms "fst (rd_pexpire ops k ms r)" "snd (rd_pexpire ops k ms r)"]
  by (cases "j = k") (auto simp: renew_lock_def)

lemma renew_lock_reply: "0 < ms \<Longrightarrow> fst (renew_lock ops k v ms r) = 1 \<longleftrightarrow> rd_get ops k r = Some v"
  using pexpire[of k r v ms "fst (rd_pexpire ops k ms r)" "snd (rd_pexpire ops k ms r)"]
  by (auto simp: renew_lock_def)

lemma renew_lock_pttl:
  "0 < ms \<Longrightarrow> pttl j (snd (renew_lock ops k v ms r)) = (if j = k \<and> rd_get ops k r = Some v then ms else pttl j r)"
  using pexpire[of k r v ms "fst (rd_pexpire ops k ms r)" "snd (rd_pexpire ops k ms r)"]
  by (auto simp: renew_lock_def)

lemma release_lock_reply: "fst (release_lock ops k v r) = 1 \<longleftrightarrow> rd_get ops k r = Some v"
  using del[of k r v "fst (rd_del ops k r)" "snd (rd_del ops k r)"] by (auto simp: release_lock_def)

lemma release_lock_get: "rd_get ops j (snd (release_lock ops k v r)) = (if j = k \<and> rd_get ops k r = Some v then None else rd_get ops j r)"
  using del[of k r v "fst (rd_del ops k r)" "snd (rd_del ops k r)"] by (auto simp: release_lock_def)

lemma release_lock_pttl: "\<not> (j = k \<and> rd_get ops k r = Some v) \<Longrightarrow> pttl j (snd (release_lock ops k v r)) = pttl j r"
  using del[of k r v "fst (rd_del ops k r)" "snd (rd_del ops k r)"] by (auto simp: release_lock_def)

lemma acquire_cases:
  assumes "acquire ops key operation ttl_opt interval_opt token fate r = (result, r')"
  obtains (nothing) "result \<in> range Inl \<union> {Inr None}" "r' = r"
    | (written) ms interval where "rd_get ops key r = None" "0 < ms" "rd_get ops key r' = Some token" "pttl key r' = ms"
      "\<forall>j. j \<noteq> key \<longrightarrow> rd_get ops j r' = rd_get ops j r \<and> pttl j r' = pttl j r"
      "result \<in> range Inl \<union> {Inr (Some (new_lease key token operation ms interval))}"
proof -
  define ms where "ms = (case ttl_opt of None \<Rightarrow> ORDER_LOCK_TTL_MS | Some n \<Rightarrow> n)"
  define iv where "iv = (case interval_opt of None \<Rightarrow> ORDER_LOCK_RENEW_INTERVAL_SECONDS | Some f \<Rightarrow> f)"
  obtain ok w where w: "rd_set_nx_px ops key token ms r = (ok, w)" by force
  consider "result \<in> range Inl" "r' = r" | "0 < ms" "fate = Answered" "r' = w" "result = Inr (if ok then Some (new_lease key token operation ms iv) else None)"
    | "0 < ms" "fate \<noteq> Answered" "r' \<in> {r, w}" "result \<in> range Inl"
    using assms unfolding acquire_def Let_def ms_def[symmetric] iv_def[symmetric]
    by (auto simp: prog_simps check_def call_def w split: if_splits fate.splits)
  then show thesis
  proof cases
    case 1
    show thesis by (rule nothing) (use 1 in auto)
  next
    case 2
    show thesis
    proof (cases "rd_get ops key r")
      case None
      show thesis by (rule written[of ms iv]) (use 2 set_free[OF None 2(1) w] None in auto)
    next
      case (Some v)
      show thesis by (rule nothing) (use 2 set_taken[OF Some, of token ms] w in auto)
    qed
  next
    case 3
    show thesis
    proof (cases "rd_get ops key r = None \<and> r' = w")
      case True
      show thesis by (rule written[of ms iv]) (use 3 set_free[OF _ 3(1) w] True in auto)
    next
      case False
      show thesis by (rule nothing) (use 3 set_taken[of key r _ token ms] w False in auto)
    qed
  qed
qed

text \<open>What a round of the loop and an exit do.\<close>

lemma renew_beat_Inr:
  assumes "renew_beat ops fate le r = (Inr le', r')" "0 < le_ttl_ms le"
  shows "r' = r \<or> r' = snd (renew_lock ops (le_key le) (le_token le) (le_ttl_ms le) r)"
    and "le_lost le' = None \<Longrightarrow> rd_get ops (le_key le) r = Some (le_token le) \<and> pttl (le_key le) r' = le_ttl_ms le"
    and "le_key le' = le_key le" "le_token le' = le_token le" "le_ttl_ms le' = le_ttl_ms le"
  using assms renew_lock_reply[OF assms(2), of "le_key le" "le_token le" r]
    renew_lock_pttl[OF assms(2), of "le_key le" "le_key le" "le_token le" r]
  by (auto simp: renew_beat_def tryS_def call_def prog_simps mark_lost_def split: fate.splits if_splits)

lemma aexit_Inr:
  assumes "aexit ops fate raised le r = (Inr (le', outcome), r')"
  shows "r' = r \<or> r' = snd (release_lock ops (le_key le) (le_token le) r)"
    and "outcome = Inr () \<Longrightarrow> \<not> raised \<Longrightarrow> fate = Answered \<Longrightarrow> rd_get ops (le_key le) r = Some (le_token le)"
    and "le_key le' = le_key le" "le_token le' = le_token le" "le_ttl_ms le' = le_ttl_ms le"
  using assms release_lock_reply[of "le_key le" "le_token le" r]
  by (auto simp: aexit_def release_def tryS_def call_def prog_simps mark_lost_def check_def split: fate.splits if_splits)

lemma acquire_lease:
  assumes "acquire ops key operation ttl_opt interval_opt token fate r = (Inr (Some le), r')"
  shows "le_token le = token \<and> le_key le = key \<and> 0 < le_ttl_ms le \<and> rd_get ops key r = None \<and>
    rd_get ops key r' = Some token \<and> pttl key r' = le_ttl_ms le"
  using assms by (elim acquire_cases) (auto simp: new_lease_def)

lemma aenter_Inr: "aenter le = Inr le' \<Longrightarrow> le_key le' = le_key le \<and> le_token le' = le_token le \<and> le_ttl_ms le' = le_ttl_ms le"
  by (auto simp: aenter_def split: if_splits)

lemma step_ok: "lock_step ops s e t \<Longrightarrow> sys_ok s \<Longrightarrow> sys_ok t"
proof (induction rule: lock_step.induct)
  case (acquires token s key operation ttl_ms interval fate result r got)
  then show ?case using acquire_lease[of key operation ttl_ms interval token fate "ls_redis s" _ r]
    by (auto simp: sys_ok_def split: sum.splits option.splits if_splits)
qed (auto simp: sys_ok_def dest: aenter_Inr renew_beat_Inr(3-5) aexit_Inr(3-5) split: if_splits)

lemma step_issued: "lock_step ops s e t \<Longrightarrow> set (ls_issued s) \<subseteq> set (ls_issued t)"
  by (induction rule: lock_step.induct) auto

text \<open>A lease keeps its key and its term.\<close>

lemma step_lease:
  assumes "lock_step ops s e t" "sys_ok s" "ls_leases s a = Some le"
  shows "\<exists>le'. ls_leases t a = Some le' \<and> le_key le' = le_key le \<and> le_ttl_ms le' = le_ttl_ms le"
  using assms(1)
proof cases
  case (acquires token key operation ttl_ms interval fate result r got)
  then have "token \<noteq> a" using sys_okD[OF assms(2,3)] by auto
  then show ?thesis using acquires assms(3) by (auto split: option.splits)
next
  case (beats token b fate b' r)
  then show ?thesis using assms(3) renew_beat_Inr(3,5)[OF beats(5)] sys_okD[OF assms(2) beats(3)] by auto
qed (use assms(3) in \<open>auto dest: aenter_Inr aexit_Inr(3,5)\<close>)

text \<open>A token once drawn does not come back to a key that it left.\<close>

lemma step_holds_back:
  assumes "lock_step ops s e t" "sys_ok s" "a \<in> set (ls_issued s)" "rd_get ops k (ls_redis t) = Some a"
  shows "rd_get ops k (ls_redis s) = Some a"
  using assms(1)
proof cases
  case (acquires token key operation ttl_ms interval fate result r got)
  then have "token \<noteq> a" using assms(3) by auto
  then show ?thesis using acquires(2,4) assms(4) by (elim acquire_cases) (cases "k = key"; auto)+
next
  case (beats token le fate le' r)
  then show ?thesis using assms(4) renew_beat_Inr(1)[OF beats(5)] sys_okD[OF assms(2) beats(3)] by auto
next
  case (strays token le)
  then show ?thesis using assms(4) sys_okD[OF assms(2) strays(3)] by auto
next
  case (exits token le fate raised le' outcome r)
  then show ?thesis using assms(4) aexit_Inr(1)[OF exits(4)] by (auto simp: release_lock_get split: if_splits)
next
  case (passes ms)
  then show ?thesis using assms(4) elapse[of ms k "ls_redis s"] by (auto split: if_splits)
qed (use assms(4) in auto)

lemma run_ok: "lock_run ops s evs t \<Longrightarrow> sys_ok s \<Longrightarrow> sys_ok t"
  by (induction rule: lock_run.induct) (auto intro: step_ok)

lemma run_issued: "lock_run ops s evs t \<Longrightarrow> set (ls_issued s) \<subseteq> set (ls_issued t)"
  by (induction rule: lock_run.induct) (auto dest: step_issued)

lemma run_lease:
  "lock_run ops s evs t \<Longrightarrow> sys_ok s \<Longrightarrow> ls_leases s a = Some le \<Longrightarrow> \<exists>le'. ls_leases t a = Some le' \<and> le_key le' = le_key le"
proof (induction rule: lock_run.induct)
  case (more s evs t e u)
  then show ?case using step_lease[OF more(2)] run_ok by metis
qed simp

text \<open>While a token stays on a key, nobody else acquires it.\<close>

lemma held_throughout:
  assumes "lock_run ops s evs t" "sys_ok s" "a \<in> set (ls_issued s)" "rd_get ops k (ls_redis t) = Some a"
  shows "\<forall>b le. Acquired b (Some le) \<in> set evs \<longrightarrow> le_key le \<noteq> k"
  using assms
proof (induction rule: lock_run.induct)
  case (more s evs t e u)
  have t: "sys_ok t" "a \<in> set (ls_issued t)" using run_ok run_issued more.hyps(1) more.prems by blast+
  have before: "rd_get ops k (ls_redis t) = Some a" by (rule step_holds_back[OF more.hyps(2) t more.prems(3)])
  have "le_key le \<noteq> k" if "e = Acquired b (Some le)" for b le
    using more.hyps(2) before unfolding that
    by (elim lock_stepE) (auto dest!: acquire_lease split: sum.splits)
  then show ?case using more.IH[OF more.prems(1,2) before] by auto
qed simp

definition holds_term :: "string \<Rightarrow> int \<Rightarrow> 'r lock_system \<Rightarrow> bool" where
  "holds_term a n s \<longleftrightarrow> (\<exists>le. ls_leases s a = Some le \<and> rd_get ops (le_key le) (ls_redis s) = Some a \<and>
     n \<le> pttl (le_key le) (ls_redis s) \<and> n \<le> le_ttl_ms le)"

lemma step_term:
  assumes step: "lock_step ops s e t" and ok: "sys_ok s" and old: "0 < n \<longrightarrow> holds_term a n s" and left: "0 < term_after a n e"
  shows "holds_term a (term_after a n e) t"
  using step
proof cases
  case (acquires token key operation ttl_ms interval fate result r got)
  show ?thesis
  proof (cases "token = a")
    case True
    then obtain le where "result = Inr (Some le)" using acquires left by (auto split: sum.splits option.splits)
    then show ?thesis using acquires True by (auto simp: holds_term_def dest!: acquire_lease)
  next
    case False
    then obtain le where le: "ls_leases s a = Some le" "rd_get ops (le_key le) (ls_redis s) = Some a"
        "n \<le> pttl (le_key le) (ls_redis s)" "n \<le> le_ttl_ms le"
      using old left acquires(1) by (auto simp: holds_term_def)
    have "rd_get ops (le_key le) r = Some a \<and> pttl (le_key le) r = pttl (le_key le) (ls_redis s)"
      using acquires(4) le(2) by (elim acquire_cases) (cases "le_key le = key"; simp)+
    then show ?thesis using acquires(1,2) le False by (auto simp: holds_term_def split: option.splits)
  qed
next
  case (beats token b fate b' r)
  note b = sys_okD[OF ok beats(3)]
  note beat = renew_beat_Inr[OF beats(5)]
  show ?thesis
  proof (cases "token = a")
    case True
    then show ?thesis using beats(1,2) left b beat by (auto simp: holds_term_def split: if_splits)
  next
    case False
    then obtain le where le: "ls_leases s a = Some le" "rd_get ops (le_key le) (ls_redis s) = Some a"
        "n \<le> pttl (le_key le) (ls_redis s)" "n \<le> le_ttl_ms le"
      using old left beats(1) by (auto simp: holds_term_def)
    have "rd_get ops (le_key le) r = Some a \<and> pttl (le_key le) r = pttl (le_key le) (ls_redis s)"
      using beat(1) b le(2) False by (auto simp: renew_lock_pttl)
    then show ?thesis using beats(1,2) le False by (auto simp: holds_term_def)
  qed
next
  case (strays token b)
  note b = sys_okD[OF ok strays(3)]
  then show ?thesis using strays old left by (auto simp: holds_term_def renew_lock_pttl)
next
  case (exits token b fate raised b' outcome r)
  note b = sys_okD[OF ok exits(3)]
  have other: "token \<noteq> a" using exits(1) left by auto
  then obtain le where le: "ls_leases s a = Some le" "rd_get ops (le_key le) (ls_redis s) = Some a"
      "n \<le> pttl (le_key le) (ls_redis s)" "n \<le> le_ttl_ms le"
    using old left exits(1) by (auto simp: holds_term_def)
  have "rd_get ops (le_key le) r = Some a \<and> pttl (le_key le) r = pttl (le_key le) (ls_redis s)"
    using aexit_Inr(1)[OF exits(4)] b le(2) other release_lock_pttl[of "le_key le" "le_key b" "ls_redis s" "le_token b"]
    by (cases "le_key le = le_key b") (auto simp: release_lock_get)
  then show ?thesis using exits(1,2) le other by (auto simp: holds_term_def)
next
  case (enters token b b')
  then show ?thesis using old left by (auto simp: holds_term_def dest!: aenter_Inr)
next
  case (passes ms)
  then show ?thesis using old left by (auto simp: holds_term_def elapse elapse_pttl)
qed

lemma run_term:
  assumes "lock_run ops s evs t" "sys_ok s"
  shows "0 < term_left a evs \<Longrightarrow> holds_term a (term_left a evs) t"
  using assms
proof (induction rule: lock_run.induct)
  case (more s evs t e u)
  then show ?case using step_term[OF more.hyps(2) run_ok[OF more.hyps(1)]] by (auto simp: term_left_def)
qed (simp add: term_left_def)

end
subsection \<open>Properties\<close>

text \<open>
  C16. Mutual exclusion: of all leases on one key, across every process and whatever calls raise or stall,
  at most one is within the term that its own answers promise it.
\<close>

theorem lock_exclusive:
  assumes "redis ops pttl" "lock_run ops (no_leases r) evs s"
    and "ls_leases s a = Some la" "ls_leases s b = Some lb" "le_key la = le_key lb"
    and "0 < term_left a evs" "0 < term_left b evs"
  shows "a = b"
  using redis.run_term[OF assms(1,2) no_leases_ok assms(6)] redis.run_term[OF assms(1,2) no_leases_ok assms(7)] assms(3-5)
  by (auto simp: redis.holds_term_def[OF assms(1)])

text \<open>
  C24. A block that ends without an exception, and whose lease then exits normally on an answered release, held the key
  from its acquisition to its release: nobody acquired it in between, even when renewals came late.
\<close>

theorem clean_exit_exclusive:
  assumes "redis ops pttl" "lock_run ops (no_leases r) evs s" "lock_step ops s (Acquired a (Some le)) s1"
    and "lock_run ops s1 during s2" "lock_step ops s2 (Exited a Answered False (Inr ())) s3"
  shows "\<forall>b le'. Acquired b (Some le') \<in> set during \<longrightarrow> le_key le' \<noteq> le_key le"
proof -
  note ok = redis.run_ok[OF assms(1,2) no_leases_ok] redis.step_ok[OF assms(1) assms(3)]
  have s1: "ls_leases s1 a = Some le" "a \<in> set (ls_issued s1)"
    using assms(3) by (auto elim!: lock_stepE split: option.splits)
  obtain le2 where le2: "ls_leases s2 a = Some le2" "le_key le2 = le_key le"
    using redis.run_lease[OF assms(1,4) _ s1(1)] ok by blast
  have "le_token le2 = a" using sys_okD[OF redis.run_ok[OF assms(1,4)] le2(1)] ok by blast
  moreover obtain le' r where "aexit ops Answered False le2 (ls_redis s2) = (Inr (le', Inr ()), r)"
    using assms(5) le2(1) by (elim lock_stepE) auto
  ultimately have "rd_get ops (le_key le) (ls_redis s2) = Some a"
    using redis.aexit_Inr(2)[OF assms(1)] le2(2) by fastforce
  then show ?thesis using redis.held_throughout[OF assms(1,4)] ok s1(2) by blast
qed

subsection \<open>Witnesses\<close>

text \<open>A server that keeps each lock key with its value and the milliseconds it still lives.\<close>

type_synonym keyspace = "string \<Rightarrow> (string \<times> int) option"

definition map_redis :: "keyspace redis_ops" where
  "map_redis =
     \<lparr>rd_get = (\<lambda>k m. map_option fst (m k)),
      rd_set_nx_px = (\<lambda>k v ms m. if m k = None then (True, m(k \<mapsto> (v, ms))) else (False, m)),
      rd_pexpire = (\<lambda>k ms m. case m k of None \<Rightarrow> (0, m) | Some (v, _) \<Rightarrow> (1, m(k \<mapsto> (v, ms)))),
      rd_del = (\<lambda>k m. (if m k = None then 0 else 1, m(k := None))),
      rd_elapse = (\<lambda>ms m k. case m k of Some (v, n) \<Rightarrow> if ms < n then Some (v, n - ms) else None | None \<Rightarrow> None)\<rparr>"

definition map_pttl :: "string \<Rightarrow> keyspace \<Rightarrow> int" where
  "map_pttl k m = (case m k of None \<Rightarrow> 0 | Some (v, n) \<Rightarrow> n)"

interpretation mr: redis map_redis map_pttl
  by unfold_locales (auto simp: map_redis_def map_pttl_def split: option.splits if_splits)

definition sample_lease :: "string \<Rightarrow> lease" where
  "sample_lease token = new_lease (''lock:order:bybit:'' @ token) token ''close'' 30000 (Fin 10)"

definition after_acquire :: "string \<Rightarrow> keyspace lock_system \<Rightarrow> keyspace lock_system" where
  "after_acquire token s =
     s\<lparr>ls_redis := (ls_redis s)(''lock:order:bybit:'' @ token \<mapsto> (token, 30000)),
       ls_leases := (ls_leases s)(token \<mapsto> sample_lease token), ls_issued := token # ls_issued s\<rparr>"

lemma sample_acquires:
  assumes "token \<notin> set (ls_issued s)" "ls_redis s (''lock:order:bybit:'' @ token) = None"
  shows "lock_step map_redis s (Acquired token (Some (sample_lease token))) (after_acquire token s)"
proof -
  have ok: "fle (Fin 10) (Fin 0) = False" "fle (Fin 30000) (fmul (Fin 10) (Fin 1000)) = False" by code_simp+
  have "acquire map_redis (''lock:order:bybit:'' @ token) ''close'' None None token Answered (ls_redis s) =
      (Inr (Some (sample_lease token)), (ls_redis s)(''lock:order:bybit:'' @ token \<mapsto> (token, 30000)))"
    using assms(2) ok
    by (simp add: acquire_def ORDER_LOCK_TTL_MS_def ORDER_LOCK_RENEW_INTERVAL_SECONDS_def prog_simps check_def call_def
        map_redis_def sample_lease_def)
  from acquires[OF assms(1) this refl] show ?thesis by (simp add: after_acquire_def)
qed

lemma run_cons: "lock_step ops s e t \<Longrightarrow> lock_run ops s [e] t"
  using more[OF start] by fastforce

lemma sample_run: "lock_run map_redis (no_leases Map.empty) [Acquired ''a'' (Some (sample_lease ''a''))] (after_acquire ''a'' (no_leases Map.empty))"
  by (intro run_cons sample_acquires) (simp_all add: no_leases_def)

theorem lock_exclusive_witness:
  "0 < term_left ''a'' [Acquired ''a'' (Some (sample_lease ''a''))] \<and> ''a'' = ''a''"
  using lock_exclusive[OF mr.redis_axioms sample_run, of "''a''" "sample_lease ''a''" "''a''" "sample_lease ''a''"]
  by (simp add: term_left_def sample_lease_def new_lease_def after_acquire_def)

theorem clean_exit_exclusive_witness:
  "\<exists>s3. lock_step map_redis (after_acquire ''b'' (after_acquire ''a'' (no_leases Map.empty))) (Exited ''a'' Answered False (Inr ())) s3 \<and>
     le_key (sample_lease ''b'') \<noteq> le_key (sample_lease ''a'')"
proof -
  let ?s0 = "no_leases Map.empty" and ?r = "(Map.empty(''lock:order:bybit:b'' \<mapsto> (''b'', 30000)))"
  have first: "lock_step map_redis ?s0 (Acquired ''a'' (Some (sample_lease ''a''))) (after_acquire ''a'' ?s0)"
    by (intro sample_acquires) (simp_all add: no_leases_def)
  have second: "lock_run map_redis (after_acquire ''a'' ?s0) [Acquired ''b'' (Some (sample_lease ''b''))] (after_acquire ''b'' (after_acquire ''a'' ?s0))"
    by (intro run_cons sample_acquires) (simp_all add: no_leases_def after_acquire_def)
  let ?s2 = "after_acquire ''b'' (after_acquire ''a'' ?s0)"
  have lease: "ls_leases ?s2 ''a'' = Some (sample_lease ''a'')" by (simp add: after_acquire_def)
  have "aexit map_redis Answered False (sample_lease ''a'') (ls_redis ?s2) = (Inr (sample_lease ''a'', Inr ()), (ls_redis ?s2)(''lock:order:bybit:a'' := None))"
    by (simp add: aexit_def release_def tryS_def call_def prog_simps check_def mark_lost_def release_lock_def
        map_redis_def sample_lease_def new_lease_def after_acquire_def no_leases_def)
  from exits[OF lease this] obtain s3 where s3: "lock_step map_redis ?s2 (Exited ''a'' Answered False (Inr ())) s3" by blast
  then show ?thesis using clean_exit_exclusive[OF mr.redis_axioms start first second] by auto
qed

end
