(* ===== verification/Entry_Recovery.thy ===== *)
theory Entry_Recovery
  imports Protective_Stop
begin

text \<open>
  The entry whose submission result is unknown (\<open>entry_recovery.py\<close>): looking it up, cancelling what
  is left of it, and the guard that keeps every fill seen meanwhile protected. What a look meets (the
  listings, the replies to the stop requests) is an argument; waiting between looks changes nothing
  else and is left out. \<open>price_to_precision\<close>, of the exchange client, is an argument of the guard.
\<close>

definition ENTRY_LOOKUP_AT_SECONDS :: "pyfloat list" where
  "ENTRY_LOOKUP_AT_SECONDS = [Fin 1, Fin 3, Fin 6, Fin 10]"

definition CANCEL_CONFIRM_AT_SECONDS :: "pyfloat list" where
  "CANCEL_CONFIRM_AT_SECONDS = [Fin (1 / 2), Fin (3 / 2), Fin 3, Fin 5]"

subsection \<open>Finding and settling the entry\<close>

text \<open>The listings at the scheduled instants; the first look that finds the order ends the poll.\<close>

fun poll :: "(pyfloat \<times> 'a) list \<Rightarrow> ('a \<Rightarrow> order option) \<Rightarrow> order option" where
  "poll [] probe = None"
| "poll ((_, a) # rest) probe = (case probe a of None \<Rightarrow> poll rest probe | Some found \<Rightarrow> Some found)"

definition find_entry :: "string \<Rightarrow> order_source list \<Rightarrow> order option" where
  "find_entry cid sources = poll (zip ENTRY_LOOKUP_AT_SECONDS sources) (\<lambda>source. look_up source cid)"

text \<open>One look after the cancel: the listing it reads and what \<open>on_active\<close> meets then.\<close>

record 'e settle_look =
  sl_source :: order_source
  sl_env :: 'e

fun confirm_cancel ::
  "(order \<Rightarrow> 'e \<Rightarrow> ('s, unit) prog) \<Rightarrow> string \<Rightarrow> order \<Rightarrow> (pyfloat \<times> 'e settle_look) list \<Rightarrow> ('s, order option \<times> order) prog" where
  "confirm_cancel on_active cid latest [] = ret (None, latest)"
| "confirm_cancel on_active cid latest ((_, l) # rest) =
     (case look_up (sl_source l) cid of
        None \<Rightarrow> confirm_cancel on_active cid latest rest
      | Some found \<Rightarrow>
          if is_terminal found then ret (Some found, found)
          else bindS (on_active found (sl_env l)) (\<lambda>_. confirm_cancel on_active cid found rest))"

text \<open>\<open>cancel\<close> is the exchange call, given the order's id.\<close>

definition settle_active_entry ::
  "(string option \<Rightarrow> ('s, unit) prog) \<Rightarrow> (order \<Rightarrow> 'e \<Rightarrow> ('s, unit) prog) \<Rightarrow> order \<Rightarrow> 'e \<Rightarrow> 'e settle_look list \<Rightarrow>
    ('s, order option \<times> order) prog" where
  "settle_active_entry cancel on_active ord env looks =
     (if is_terminal ord then ret (Some ord, ord)
      else bindS (on_active ord env) (\<lambda>_.
        case client_order_id ord of
          None \<Rightarrow> ret (None, ord)
        | Some cid \<Rightarrow>
            bindS (tryS (cancel (o_id ord)) (\<lambda>_. ret ())) (\<lambda>_.
            confirm_cancel on_active cid ord (zip CANCEL_CONFIRM_AT_SECONDS looks))))"

subsection \<open>The stops of an entry\<close>

definition entry_stops :: "order_source \<Rightarrow> string \<Rightarrow> order list option" where
  "entry_stops source entry = (case orders_with_prefix source (stop_prefix entry) of Inl _ \<Rightarrow> None | Inr stops \<Rightarrow> Some stops)"

definition stop_trigger :: "(pyfloat \<Rightarrow> pyfloat res) \<Rightarrow> string \<Rightarrow> pyfloat \<Rightarrow> pyfloat \<Rightarrow> pyfloat res" where
  "stop_trigger precise side reference_price initial_sl_pct =
     bindE (fdiv initial_sl_pct (Fin 100)) (\<lambda>x.
     precise (fmul reference_price (if side = ''short'' then fadd (Fin 1) x else fsub (Fin 1) x)))"

subsection \<open>The guard\<close>

record guard_spec =
  gs_side :: string
  gs_reference_price :: pyfloat
  gs_initial_sl_pct :: pyfloat
  gs_entry_client_order_id :: string
  gs_precise :: "pyfloat \<Rightarrow> pyfloat res"

datatype guard_report =
    Nothing_filled
  | Stops_unread number
  | All_covered number number
  | Unprotected number number number number "stop_error option option"

text \<open>The stop placements made: amount, trigger, placement and events.\<close>

type_synonym placed_stop = "pyfloat \<times> pyfloat \<times> placement \<times> stop_event list"

text \<open>\<open>fg_failure\<close> holds the error of a placement that confirmed no stop, itself absent when none was recorded.\<close>

record fill_guard =
  fg_next_sequence :: int
  fg_placed :: "string list"
  fg_seen_filled :: number
  fg_failure :: "stop_error option option"
  fg_report :: guard_report
  fg_log :: "placed_stop list"

definition new_guard :: fill_guard where
  "new_guard = \<lparr>fg_next_sequence = 1, fg_placed = [], fg_seen_filled = Num 0, fg_failure = None,
     fg_report = Nothing_filled, fg_log = []\<rparr>"

definition removeprefix :: "string \<Rightarrow> string \<Rightarrow> string" where
  "removeprefix s prefix = (if startswith s prefix then drop (length prefix) s else s)"

definition adopt_stop :: "string \<Rightarrow> fill_guard \<Rightarrow> order \<Rightarrow> fill_guard" where
  "adopt_stop prefix g stop =
     (let cid = (case client_order_id stop of None \<Rightarrow> '''' | Some c \<Rightarrow> c);
          sequence = removeprefix cid prefix
      in if str_isdigit sequence
         then g\<lparr>fg_placed := List.insert cid (fg_placed g),
                fg_next_sequence := max (fg_next_sequence g) (int (nat_of_str 0 sequence) + 1)\<rparr>
         else g)"

definition adopt_existing :: "guard_spec \<Rightarrow> order_source \<Rightarrow> (fill_guard, bool) prog" where
  "adopt_existing spec source =
     (case entry_stops source (gs_entry_client_order_id spec) of
        None \<Rightarrow> ret False
      | Some stops \<Rightarrow>
          bindS (modifyS (\<lambda>g. foldl (adopt_stop (stop_prefix (gs_entry_client_order_id spec))) g stops)) (\<lambda>_. ret True))"

text \<open>\<open>max\<close> of two Decimals keeps the first unless the second is larger.\<close>

definition nmax :: "number \<Rightarrow> number \<Rightarrow> number res" where
  "nmax a b = bindE (nlt a b) (\<lambda>c. Inr (if c then b else a))"

text \<open>The loop over the stops; none when a fill or an amount cannot be read.\<close>

fun add_stops :: "number \<Rightarrow> number \<Rightarrow> order list \<Rightarrow> (number \<times> number) option res" where
  "add_stops filled protecting [] = Inr (Some (filled, protecting))"
| "add_stops filled protecting (stop # rest) =
     (case decimal_or_none (o_filled stop) of
        None \<Rightarrow> Inr None
      | Some stop_filled \<Rightarrow>
          bindE (nadd filled stop_filled) (\<lambda>filled'.
          if is_terminal stop then add_stops filled' protecting rest
          else case decimal_or_none (o_amount stop) of
                 None \<Rightarrow> Inr None
               | Some amount \<Rightarrow>
                   bindE (nsub amount stop_filled) (\<lambda>open_amount.
                   bindE (nmax open_amount (Num 0)) (\<lambda>positive.
                   bindE (nadd protecting positive) (\<lambda>protecting'. add_stops filled' protecting' rest)))))"

definition stops_view :: "guard_spec \<Rightarrow> order_source \<Rightarrow> fill_guard \<Rightarrow> (number \<times> number) option res" where
  "stops_view spec source g =
     (case entry_stops source (gs_entry_client_order_id spec) of
        None \<Rightarrow> Inr None
      | Some stops \<Rightarrow>
          if list_ex (\<lambda>cid. Some cid \<notin> set (map client_order_id stops)) (fg_placed g) then Inr None
          else add_stops (Num 0) (Num 0) stops)"

definition describe :: "stop_error option option \<Rightarrow> number \<Rightarrow> number option \<Rightarrow> number \<Rightarrow> guard_report res" where
  "describe failure filled left protecting =
     (case left of
        None \<Rightarrow> Inr (Stops_unread filled)
      | Some l \<Rightarrow>
          bindE (nle l protecting) (\<lambda>covered.
          if covered then Inr (All_covered l filled)
          else bindE (nsub l protecting) (\<lambda>missing. Inr (Unprotected missing l filled protecting failure))))"

text \<open>What one call of \<open>cover\<close> meets: the stop listing, and the replies to a placement.\<close>

record cover_env =
  ce_stops :: order_source
  ce_attempts :: "stop_attempt list"
  ce_last :: order_source

text \<open>What is left of the fill, what protects it, and the gap.\<close>

definition coverage :: "(number \<times> number) option \<Rightarrow> number \<Rightarrow> number \<Rightarrow> (number option \<times> number \<times> number) res" where
  "coverage view filled seen =
     (case view of
        None \<Rightarrow> bindE (nsub filled seen) (\<lambda>gap. Inr (None, Num 0, gap))
      | Some (stops_filled, protecting) \<Rightarrow>
          bindE (nsub filled stops_filled) (\<lambda>rest.
          bindE (nmax rest (Num 0)) (\<lambda>left.
          bindE (nsub left protecting) (\<lambda>gap. Inr (Some left, protecting, gap)))))"

definition place_gap :: "guard_spec \<Rightarrow> cover_env \<Rightarrow> order \<Rightarrow> number \<Rightarrow> number \<Rightarrow> (fill_guard, number) prog" where
  "place_gap spec env ord protecting gap =
     (let reference = (case decimal_or_none (o_average ord) of
            None \<Rightarrow> gs_reference_price spec
          | Some a \<Rightarrow> if ntruth a then float_of_number a else gs_reference_price spec)
      in bindS (pureS (stop_trigger (gs_precise spec) (gs_side spec) reference (gs_initial_sl_pct spec))) (\<lambda>trigger.
         bindS (readS fg_next_sequence) (\<lambda>n.
         bindS (pureS (place_protective_stop (gs_entry_client_order_id spec) n (ce_attempts env) (ce_last env))) (\<lambda>(p, events).
         bindS (modifyS (\<lambda>g. g\<lparr>fg_next_sequence := pl_sequence p + 1,
                  fg_log := fg_log g @ [(float_of_number gap, trigger, p, events)]\<rparr>)) (\<lambda>_.
         case pl_order p of
           None \<Rightarrow> bindS (modifyS (\<lambda>g. g\<lparr>fg_failure := Some (placement_error p)\<rparr>)) (\<lambda>_. ret protecting)
         | Some _ \<Rightarrow>
             bindS (modifyS (\<lambda>g. g\<lparr>fg_placed := List.insert (pl_client_order_id p) (fg_placed g)\<rparr>)) (\<lambda>_.
             pureS (nadd protecting gap)))))))"

definition current_view :: "guard_spec \<Rightarrow> order_source \<Rightarrow> fill_guard \<Rightarrow> (number \<times> number) option res" where
  "current_view spec source g = (if 1 < fg_next_sequence g then stops_view spec source g else Inr (Some (Num 0, Num 0)))"

definition cover :: "guard_spec \<Rightarrow> order \<Rightarrow> cover_env \<Rightarrow> (fill_guard, unit) prog" where
  "cover spec ord env =
     (let filled = fill_of ord in
      bindS (\<lambda>g. (current_view spec (ce_stops env) g, g)) (\<lambda>view.
      bindS (readS fg_seen_filled) (\<lambda>seen.
      bindS (pureS (coverage view filled seen)) (\<lambda>(left, protecting, gap).
      bindS (pureS (nmax seen filled)) (\<lambda>m.
      bindS (modifyS (\<lambda>g. g\<lparr>fg_seen_filled := m\<rparr>)) (\<lambda>_.
      bindS (pureS (nlt (Num 0) gap)) (\<lambda>positive.
      bindS (readS fg_failure) (\<lambda>failure.
      bindS (if positive \<and> failure = None then place_gap spec env ord protecting gap else ret protecting) (\<lambda>protecting'.
      bindS (readS fg_failure) (\<lambda>failure'.
      bindS (pureS (describe failure' filled left protecting')) (\<lambda>rep.
      modifyS (\<lambda>g. g\<lparr>fg_report := rep\<rparr>))))))))))))"
subsection \<open>What settling shows\<close>

lemma confirm_cancel_keeps:
  assumes "\<And>ord env. keeps I (on_active ord env)"
  shows "keeps I (confirm_cancel on_active cid latest ls)"
  using assms
proof (induction on_active cid latest ls rule: confirm_cancel.induct)
  case (2 on_active cid latest t l rest)
  then show ?case by (auto split: option.split intro!: keeps_bind)
qed simp

lemma settle_active_entry_keeps:
  "(\<And>ord env. keeps I (on_active ord env)) \<Longrightarrow> (\<And>i. keeps I (cancel i)) \<Longrightarrow> keeps I (settle_active_entry cancel on_active ord env looks)"
  by (auto simp: settle_active_entry_def split: option.split intro!: keeps_bind keeps_try confirm_cancel_keeps)

lemma confirm_cancel_result:
  assumes "confirm_cancel on_active cid latest ls s = (Inr (final, seen), t)"
  shows "(final = None \<longrightarrow> seen = latest \<or> (\<exists>l \<in> set ls. look_up (sl_source (snd l)) cid = Some seen \<and> \<not> is_terminal seen)) \<and>
    (\<forall>f. final = Some f \<longrightarrow> seen = f \<and> is_terminal f \<and> (\<exists>l \<in> set ls. look_up (sl_source (snd l)) cid = Some f))"
  using assms
proof (induction on_active cid latest ls arbitrary: s rule: confirm_cancel.induct)
  case (1 on_active cid latest)
  then show ?case by (simp add: prog_simps)
next
  case (2 on_active cid latest at l rest)
  show ?case
  proof (cases "look_up (sl_source l) cid")
    case None
    then show ?thesis using 2(1)[OF None] 2(3) by auto
  next
    case (Some f)
    show ?thesis
    proof (cases "is_terminal f")
      case True
      then show ?thesis using 2(3) Some by (auto simp: prog_simps)
    next
      case False
      then obtain u where "confirm_cancel on_active cid f rest u = (Inr (final, seen), t)"
        using 2(3) Some by (auto elim!: bindS_InrE)
      then show ?thesis using 2(2)[OF Some False] Some False by auto
    qed
  qed
qed

text \<open>The ids of the orders found are the ones asked for.\<close>

lemma look_up_id: "look_up source cid = Some ord \<Longrightarrow> client_order_id ord = Some cid"
  by (auto simp: look_up_def find_by_client_order_id_def bindE_eq_Inr find_Some_iff split: sum.splits)

subsection \<open>What the guard places\<close>

definition seq_of :: "string \<Rightarrow> string \<Rightarrow> int" where
  "seq_of entry cid = int (nat_of_str 0 (drop (length (stop_prefix entry)) cid))"

lemma used_sequence_seq_of: "used_sequence entry a b i \<Longrightarrow> a \<le> seq_of entry i \<and> seq_of entry i \<le> b"
  by (auto simp: used_sequence_def stop_client_order_id_def derived_Inr seq_of_def stop_prefix_def)

abbreviation block_placement :: "placed_stop \<Rightarrow> placement" where
  "block_placement b \<equiv> fst (snd (snd b))"

abbreviation block_ids :: "placed_stop \<Rightarrow> string list" where
  "block_ids b \<equiv> requested_ids (snd (snd (snd b)))"

lemma place_protective_stop_ids:
  assumes "place_protective_stop entry n attempts source = Inr (p, events)"
  shows "(\<forall>i \<in> set (requested_ids events). n \<le> seq_of entry i \<and> seq_of entry i \<le> pl_sequence p) \<and> n \<le> pl_sequence p"
proof -
  obtain s where s: "p = sr_placement s" "events = sr_log s" "sequences_ok entry n s"
    using assms by (rule place_protective_stop_run) blast
  then show ?thesis using used_sequence_seq_of used_sequence_first unfolding sequences_ok_def by blast
qed

text \<open>A call leaves the placements as they are, or adds one that starts at the next sequence.\<close>

lemma place_gap_cases:
  assumes "place_gap spec env ord protecting gap g = (r, g')"
  obtains (raised) e where "r = Inl e" "g' = g"
    | (failed) trigger p events where "r = Inr protecting" "pl_order p = None"
      "place_protective_stop (gs_entry_client_order_id spec) (fg_next_sequence g) (ce_attempts env) (ce_last env) = Inr (p, events)"
      "g' = g\<lparr>fg_next_sequence := pl_sequence p + 1, fg_log := fg_log g @ [(float_of_number gap, trigger, p, events)],
              fg_failure := Some (placement_error p)\<rparr>"
    | (placed) trigger p events where "r = nadd protecting gap" "pl_order p \<noteq> None"
      "place_protective_stop (gs_entry_client_order_id spec) (fg_next_sequence g) (ce_attempts env) (ce_last env) = Inr (p, events)"
      "g' = g\<lparr>fg_next_sequence := pl_sequence p + 1, fg_log := fg_log g @ [(float_of_number gap, trigger, p, events)],
              fg_placed := List.insert (pl_client_order_id p) (fg_placed g)\<rparr>"
proof -
  define ref where "ref = (case decimal_or_none (o_average ord) of
            None \<Rightarrow> gs_reference_price spec
          | Some a \<Rightarrow> if ntruth a then float_of_number a else gs_reference_price spec)"
  note run = assms[unfolded place_gap_def ref_def[symmetric] Let_def]
  let ?place = "place_protective_stop (gs_entry_client_order_id spec) (fg_next_sequence g) (ce_attempts env) (ce_last env)"
  show thesis
  proof (cases "stop_trigger (gs_precise spec) (gs_side spec) ref (gs_initial_sl_pct spec)")
    case (Inl e)
    show thesis by (rule raised[of e]) (use run Inl in \<open>simp_all add: prog_simps\<close>)
  next
    case (Inr trigger)
    note t = this
    show thesis
    proof (cases ?place)
      case (Inl e)
      show thesis by (rule raised[of e]) (use run Inl t in \<open>simp_all add: prog_simps\<close>)
    next
      case (Inr pe)
      obtain p events where pe: "pe = (p, events)" by force
      show thesis
      proof (cases "pl_order p")
        case None
        show thesis by (rule failed[OF _ None Inr[unfolded pe], of trigger]) (use run t Inr pe None in \<open>simp_all add: prog_simps\<close>)
      next
        case (Some x)
        then have o: "pl_order p \<noteq> None" by simp
        show thesis by (rule placed[OF _ o Inr[unfolded pe], of trigger]) (use run t Inr pe Some in \<open>simp_all add: prog_simps\<close>)
      qed
    qed
  qed
qed

lemma cover_cases:
  assumes "cover spec ord env g = (r, g')"
  obtains (same) "fg_next_sequence g' = fg_next_sequence g" "fg_log g' = fg_log g" "fg_placed g' = fg_placed g" "fg_failure g' = fg_failure g"
    | (placed) amount trigger p events where "fg_failure g = None"
      "place_protective_stop (gs_entry_client_order_id spec) (fg_next_sequence g) (ce_attempts env) (ce_last env) = Inr (p, events)"
      "fg_next_sequence g' = pl_sequence p + 1" "fg_log g' = fg_log g @ [(amount, trigger, p, events)]"
      "pl_order p = None \<longrightarrow> fg_failure g' \<noteq> None"
proof -
  define u where "u m = g\<lparr>fg_seen_filled := m\<rparr>" for m
  consider (stops) "fg_next_sequence g' = fg_next_sequence g" "fg_log g' = fg_log g" "fg_placed g' = fg_placed g" "fg_failure g' = fg_failure g"
    | (tries) m protecting gap q v rep where "fg_failure g = None" "place_gap spec env ord protecting gap (u m) = (q, v)" "g' = v \<or> g' = v\<lparr>fg_report := rep\<rparr>"
    using assms
    by (auto simp: cover_def Let_def prog_simps u_def split: sum.splits prod.splits if_splits) blast+
  then show thesis
  proof cases
    case stops
    show thesis by (rule same) (use stops in simp_all)
  next
    case tries
    from tries(2) show thesis
    proof (cases rule: place_gap_cases)
      case (raised e)
      show thesis by (rule same) (use raised tries(3) in \<open>auto simp: u_def\<close>)
    next
      case (failed trigger p events)
      show thesis by (rule placed[OF tries(1), of p events]) (use failed tries(3) in \<open>auto simp: u_def\<close>)
    next
      case (placed trigger p events)
      show thesis by (rule that(2)[OF tries(1), of p events]) (use placed tries(3) in \<open>auto simp: u_def\<close>)
    qed
  qed
qed
text \<open>The sequences grow from placement to placement, above every stop taken over.\<close>

definition later_block :: "string \<Rightarrow> placed_stop \<Rightarrow> placed_stop \<Rightarrow> bool" where
  "later_block entry b c \<longleftrightarrow>
     pl_order (block_placement b) \<noteq> None \<and> (\<forall>i \<in> set (block_ids b). \<forall>j \<in> set (block_ids c). seq_of entry i < seq_of entry j)"

definition guard_ok :: "string \<Rightarrow> string set \<Rightarrow> fill_guard \<Rightarrow> bool" where
  "guard_ok entry adopted g \<longleftrightarrow>
     (\<forall>c \<in> adopted. seq_of entry c < fg_next_sequence g) \<and>
     (\<forall>b \<in> set (fg_log g). \<forall>i \<in> set (block_ids b). seq_of entry i < fg_next_sequence g \<and> (\<forall>c \<in> adopted. seq_of entry c < seq_of entry i)) \<and>
     (\<forall>b \<in> set (fg_log g). pl_order (block_placement b) = None \<longrightarrow> fg_failure g \<noteq> None) \<and>
     sorted_wrt (later_block entry) (fg_log g)"

lemma cover_guard_ok: "keeps (guard_ok (gs_entry_client_order_id spec) adopted) (cover spec ord env)"
proof (rule endsI)
  let ?e = "gs_entry_client_order_id spec"
  fix g r g' assume g: "guard_ok ?e adopted g" and run: "cover spec ord env g = (r, g')"
  from run show "guard_ok ?e adopted g'"
  proof (cases rule: cover_cases)
    case same
    then show ?thesis using g by (simp add: guard_ok_def)
  next
    case (placed amount trigger p events)
    note ids = place_protective_stop_ids[OF placed(2)]
    have old: "b \<in> set (fg_log g) \<Longrightarrow> pl_order (block_placement b) \<noteq> None" for b
      using g placed(1) by (auto simp: guard_ok_def)
    have "later_block ?e b (amount, trigger, p, events)" if "b \<in> set (fg_log g)" for b
      using g that old[OF that] ids by (force simp: guard_ok_def later_block_def)
    then have "sorted_wrt (later_block ?e) (fg_log g')" using g placed(4) by (auto simp: guard_ok_def sorted_wrt_append)
    moreover have "seq_of ?e c < fg_next_sequence g'" if "c \<in> adopted" for c
      using g that ids placed(3) by (force simp: guard_ok_def)
    moreover have "seq_of ?e i < fg_next_sequence g' \<and> (\<forall>c \<in> adopted. seq_of ?e c < seq_of ?e i)"
      if "b \<in> set (fg_log g')" "i \<in> set (block_ids b)" for b i
      using g that ids placed(3,4) by (force simp: guard_ok_def)
    moreover have "pl_order (block_placement b) = None \<longrightarrow> fg_failure g' \<noteq> None" if "b \<in> set (fg_log g')" for b
      using old[of b] that placed(4,5) by auto
    ultimately show ?thesis by (simp add: guard_ok_def)
  qed
qed

lemma adopt_stop_ok:
  assumes "g' = foldl (adopt_stop (stop_prefix entry)) g stops"
    and "\<forall>stop \<in> set stops. startswith (case client_order_id stop of None \<Rightarrow> '''' | Some c \<Rightarrow> c) (stop_prefix entry)"
    and "\<forall>c \<in> set (fg_placed g). seq_of entry c < fg_next_sequence g"
  shows "fg_log g' = fg_log g \<and> (\<forall>c \<in> set (fg_placed g'). seq_of entry c < fg_next_sequence g')"
  using assms
proof (induction stops arbitrary: g)
  case (Cons stop stops)
  let ?g = "adopt_stop (stop_prefix entry) g stop"
  have "fg_log ?g = fg_log g \<and> (\<forall>c \<in> set (fg_placed ?g). seq_of entry c < fg_next_sequence ?g)"
    using Cons.prems(2,3)
    by (auto simp: adopt_stop_def Let_def removeprefix_def seq_of_def str_isdigit_def startswith_iff split: option.splits)
  then show ?case using Cons.IH[of ?g] Cons.prems by simp
qed simp

lemma adopt_existing_ok:
  assumes "adopt_existing spec source new_guard = (Inr True, g)"
  shows "guard_ok (gs_entry_client_order_id spec) (set (fg_placed g)) g"
proof -
  let ?e = "gs_entry_client_order_id spec"
  obtain stops where stops: "entry_stops source ?e = Some stops" "g = foldl (adopt_stop (stop_prefix ?e)) new_guard stops"
    using assms by (auto simp: adopt_existing_def prog_simps split: option.splits)
  have "\<forall>stop \<in> set stops. startswith (case client_order_id stop of None \<Rightarrow> '''' | Some c \<Rightarrow> c) (stop_prefix ?e)"
    using stops(1) by (auto simp: entry_stops_def orders_with_prefix_def bindE_eq_Inr split: sum.splits)
  from adopt_stop_ok[OF stops(2) this] show ?thesis by (simp add: new_guard_def guard_ok_def)
qed
subsection \<open>What stays covered\<close>

text \<open>Quantities with at most eight decimals, for which the arithmetic is exact.\<close>

definition lot :: "pyval \<Rightarrow> rat" where
  "lot v = (case decimal_or_none v of Some (Num x) \<Rightarrow> x | _ \<Rightarrow> 0)"

definition is_lot :: "pyval \<Rightarrow> bool" where
  "is_lot v \<longleftrightarrow> decimal_or_none v = Some (Num (lot v)) \<and> on_scale 8 (lot v) \<and> 0 \<le> lot v \<and> lot v \<le> 10 ^ 19"

definition stops_filled :: "order list \<Rightarrow> rat" where
  "stops_filled stops = (\<Sum>stop \<leftarrow> stops. lot (o_filled stop))"

definition open_amount :: "order \<Rightarrow> rat" where
  "open_amount stop = (if is_terminal stop then 0 else max (lot (o_amount stop) - lot (o_filled stop)) 0)"

definition still_resting :: "order list \<Rightarrow> rat" where
  "still_resting stops = (\<Sum>stop \<leftarrow> stops. open_amount stop)"

definition held :: "order \<Rightarrow> order list \<Rightarrow> rat" where
  "held ord stops = max (lot (o_filled ord) - stops_filled stops) 0"

lemma on_scale_diff: "on_scale k x \<Longrightarrow> on_scale k y \<Longrightarrow> on_scale k (x - y)"
  unfolding on_scale_def by (metis diff_divide_distrib of_int_diff)

lemma on_scale_0: "on_scale k 0"
  by (auto simp: on_scale_def intro: exI[of _ 0])

lemma exact_lots:
  assumes "on_scale 8 x" "on_scale 8 y" "0 \<le> x" "0 \<le> y" "x + y \<le> 10 ^ 20"
  shows "dadd x y = x + y" "dsub x y = x - y"
  unfolding dadd_def dsub_def using assms
  by (auto intro!: dec28_on_scale[of 8] on_scale_add on_scale_diff)

lemma nmax_Num: "nmax (Num a) (Num b) = Inr (Num (max a b))"
  by (auto simp: nmax_def)

lemma open_amount_props:
  assumes "is_lot (o_filled stop)" "is_lot (o_amount stop)"
  shows "on_scale 8 (open_amount stop)" "0 \<le> open_amount stop"
  using assms by (auto simp: open_amount_def is_lot_def max_def on_scale_0 on_scale_diff)

lemma sums_nonneg:
  assumes "\<forall>stop \<in> set stops. is_lot (o_filled stop) \<and> is_lot (o_amount stop)"
  shows "0 \<le> stops_filled stops" "0 \<le> still_resting stops" "on_scale 8 (stops_filled stops)" "on_scale 8 (still_resting stops)"
  using assms
  by (induction stops) (auto simp: stops_filled_def still_resting_def on_scale_0 is_lot_def open_amount_props intro!: on_scale_add)

lemma add_stops_exact:
  assumes "\<forall>stop \<in> set stops. is_lot (o_filled stop) \<and> is_lot (o_amount stop)"
    and "on_scale 8 a" "0 \<le> a" "on_scale 8 b" "0 \<le> b" "a + stops_filled stops \<le> 10 ^ 20" "b + still_resting stops \<le> 10 ^ 20"
  shows "add_stops (Num a) (Num b) stops = Inr (Some (Num (a + stops_filled stops), Num (b + still_resting stops)))"
  using assms
proof (induction stops arbitrary: a b)
  case Nil
  then show ?case by (simp add: stops_filled_def still_resting_def)
next
  case (Cons stop stops)
  let ?f = "lot (o_filled stop)" and ?m = "lot (o_amount stop)"
  have stop: "is_lot (o_filled stop)" "is_lot (o_amount stop)" using Cons.prems(1) by auto
  note l = stop[unfolded is_lot_def]
  have sums: "stops_filled (stop # stops) = ?f + stops_filled stops" "still_resting (stop # stops) = open_amount stop + still_resting stops"
    by (simp_all add: stops_filled_def still_resting_def)
  have nn: "0 \<le> stops_filled stops" "0 \<le> still_resting stops" using sums_nonneg[of stops] Cons.prems(1) by auto
  have a: "dadd a ?f = a + ?f" using exact_lots(1)[of a ?f] l Cons.prems nn sums by auto
  have b: "dadd b (open_amount stop) = b + open_amount stop"
    using exact_lots(1)[of b "open_amount stop"] open_amount_props[OF stop] Cons.prems nn sums by auto
  have d: "dsub ?m ?f = ?m - ?f" using exact_lots(2)[of ?m ?f] l by simp
  have ih: "add_stops (Num (a + ?f)) (Num (b + open_amount stop)) stops =
      Inr (Some (Num (a + ?f + stops_filled stops), Num (b + open_amount stop + still_resting stops)))"
    by (rule Cons.IH) (use Cons.prems l open_amount_props[OF stop] sums in \<open>auto intro: on_scale_add\<close>)
  show ?case using ih l b
    by (cases "is_terminal stop") (simp_all add: a d sums nmax_Num open_amount_def add.assoc)
qed
lemma cover_Inr:
  assumes "cover spec ord env g = (Inr (), g')"
  obtains (kept) view left protecting gap where "current_view spec (ce_stops env) g = Inr view"
      "coverage view (fill_of ord) (fg_seen_filled g) = Inr (left, protecting, gap)"
      "nlt (Num 0) gap = Inr False \<or> fg_failure g \<noteq> None" "fg_log g' = fg_log g" "fg_failure g' = fg_failure g"
      "describe (fg_failure g') (fill_of ord) left protecting = Inr (fg_report g')"
    | (placed) view left protecting gap m more v where "current_view spec (ce_stops env) g = Inr view"
      "coverage view (fill_of ord) (fg_seen_filled g) = Inr (left, protecting, gap)"
      "nlt (Num 0) gap = Inr True" "fg_failure g = None"
      "place_gap spec env ord protecting gap (g\<lparr>fg_seen_filled := m\<rparr>) = (Inr more, v)"
      "fg_log g' = fg_log v" "fg_failure g' = fg_failure v"
      "describe (fg_failure g') (fill_of ord) left more = Inr (fg_report g')"
proof -
  obtain view left protecting gap m positive where
      *: "current_view spec (ce_stops env) g = Inr view" "coverage view (fill_of ord) (fg_seen_filled g) = Inr (left, protecting, gap)"
        "nmax (fg_seen_filled g) (fill_of ord) = Inr m" "nlt (Num 0) gap = Inr positive"
    using assms by (auto simp: cover_def Let_def prog_simps split: sum.splits prod.splits)
  let ?u = "g\<lparr>fg_seen_filled := m\<rparr>"
  show thesis
  proof (cases "positive \<and> fg_failure g = None")
    case False
    then have "\<exists>rep. describe (fg_failure g) (fill_of ord) left protecting = Inr rep \<and> g' = ?u\<lparr>fg_report := rep\<rparr>"
      using assms * by (auto simp: cover_def Let_def prog_simps split: sum.splits if_splits)
    then show thesis by (intro kept[OF *(1,2)]) (use *(4) False in auto)
  next
    case True
    obtain q v where q: "place_gap spec env ord protecting gap ?u = (q, v)" by force
    then obtain more rep where more: "q = Inr more" "describe (fg_failure v) (fill_of ord) left more = Inr rep" "g' = v\<lparr>fg_report := rep\<rparr>"
      using assms * True by (auto simp: cover_def Let_def prog_simps split: sum.splits)
    show thesis by (rule placed[OF *(1,2)]) (use *(4) True q more in auto)
  qed
qed

lemma describe_read: "describe failure filled left protecting = Inr rep \<Longrightarrow> rep \<noteq> Stops_unread filled \<Longrightarrow> left \<noteq> None"
  by (cases left) (simp_all add: describe_def)

definition view_listed :: "guard_spec \<Rightarrow> cover_env \<Rightarrow> fill_guard \<Rightarrow> order list option" where
  "view_listed spec env g = (if 1 < fg_next_sequence g then entry_stops (ce_stops env) (gs_entry_client_order_id spec) else Some [])"

lemma current_view_exact:
  assumes "view_listed spec env g = Some stops" "\<forall>stop \<in> set stops. is_lot (o_filled stop) \<and> is_lot (o_amount stop)"
    and "stops_filled stops \<le> 10 ^ 19" "still_resting stops \<le> 10 ^ 19" "current_view spec (ce_stops env) g = Inr (Some view)"
  shows "view = (Num (stops_filled stops), Num (still_resting stops))"
  using assms add_stops_exact[of stops 0 0] on_scale_0[of 8]
  by (auto simp: view_listed_def current_view_def stops_view_def stops_filled_def still_resting_def split: if_splits)

text \<open>
  C19. Coverage: when the guard returns with the stops read and no failure noted, everything of the entry's fill that its stops
  did not already close is covered, by the amounts of the stops still resting or by a new stop, confirmed
  resting, of exactly the missing amount.
\<close>

theorem guard_covers:
  assumes run: "cover spec ord env g = (Inr (), g')" "fg_failure g' = None" "fg_report g' \<noteq> Stops_unread (fill_of ord)"
    and listed: "view_listed spec env g = Some stops" "is_lot (o_filled ord)"
      "\<forall>stop \<in> set stops. is_lot (o_filled stop) \<and> is_lot (o_amount stop)" "stops_filled stops \<le> 10 ^ 19" "still_resting stops \<le> 10 ^ 19"
  shows "held ord stops \<le> still_resting stops \<or>
    (\<exists>trigger p events. pl_order p \<noteq> None \<and>
       fg_log g' = fg_log g @ [(fl (held ord stops - still_resting stops), trigger, p, events)])"
proof -
  let ?h = "held ord stops" and ?y = "still_resting stops"
  have fill: "fill_of ord = Num (lot (o_filled ord))" using listed(2) by (simp add: fill_of_def is_lot_def)
  have cov: "protecting = Num ?y \<and> gap = Num (?h - ?y)"
    if cv: "current_view spec (ce_stops env) g = Inr view"
      and co: "coverage view (fill_of ord) (fg_seen_filled g) = Inr (left, protecting, gap)" and ne: "left \<noteq> None"
    for view left protecting gap
  proof -
    obtain v where v: "view = Some v" using co ne by (auto simp: coverage_def bindE_eq_Inr split: option.splits)
    have view: "view = Some (Num (stops_filled stops), Num ?y)"
      using current_view_exact[OF listed(1,3-5)] cv v by simp
    note sums = sums_nonneg[OF listed(3)]
    have d: "dsub (lot (o_filled ord)) (stops_filled stops) = lot (o_filled ord) - stops_filled stops"
      using exact_lots(2)[of "lot (o_filled ord)" "stops_filled stops"] listed(2,4) sums by (simp add: is_lot_def)
    have "on_scale 8 (lot (o_filled ord))" "0 \<le> lot (o_filled ord)" "lot (o_filled ord) \<le> 10 ^ 19"
      using listed(2) by (simp_all add: is_lot_def)
    then have h: "on_scale 8 ?h" "0 \<le> ?h" "?h \<le> 10 ^ 19"
      unfolding held_def using sums(1,3) by (simp_all add: max_def on_scale_0 on_scale_diff)
    have "dsub ?h ?y = ?h - ?y" using exact_lots(2)[of ?h ?y] h sums listed(5) by simp
    then show ?thesis using co by (auto simp: coverage_def view fill d nmax_Num held_def)
  qed
  from run(1) show ?thesis
  proof (cases rule: cover_Inr)
    case (kept view left protecting gap)
    have "left \<noteq> None" by (rule describe_read[OF kept(6) run(3)])
    then show ?thesis using cov[OF kept(1,2)] kept(3,5) run(2) by auto
  next
    case (placed view left protecting gap m more v)
    have left: "left \<noteq> None" by (rule describe_read[OF placed(8) run(3)])
    from placed(5) show ?thesis
    proof (cases rule: place_gap_cases)
      case (failed trigger p events)
      then show ?thesis using run(2) placed(7) by simp
    next
      case (placed trigger p events)
      then show ?thesis using cov[OF \<open>current_view spec (ce_stops env) g = Inr view\<close>
          \<open>coverage view (fill_of ord) (fg_seen_filled g) = Inr (left, protecting, gap)\<close> left] \<open>fg_log g' = fg_log v\<close>
        by (auto simp: float_of_number_def)
    qed simp
  qed
qed

text \<open>
  C30. Fresh stops: while an active entry is settled under its guard, no stop id is requested by two placements or
  taken from a stop found at the start, and a placement that confirmed no stop is the last one.
\<close>

theorem guard_stops_fresh:
  assumes "adopt_existing spec source new_guard = (Inr True, g0)"
    and "settle_active_entry (\<lambda>_. pureS cancelled) (cover spec) ord env looks g0 = (Inr result, g)"
  shows "sorted_wrt (\<lambda>b c. pl_order (block_placement b) \<noteq> None \<and> set (block_ids b) \<inter> set (block_ids c) = {}) (fg_log g) \<and>
    (\<forall>b \<in> set (fg_log g). set (block_ids b) \<inter> set (fg_placed g0) = {})"
proof -
  let ?e = "gs_entry_client_order_id spec"
  have "keeps (guard_ok ?e (set (fg_placed g0))) (settle_active_entry (\<lambda>_. pureS cancelled) (cover spec) ord env looks)"
    by (intro settle_active_entry_keeps cover_guard_ok keeps_pure)
  from endsD[OF this adopt_existing_ok[OF assms(1)] assms(2)] have ok: "guard_ok ?e (set (fg_placed g0)) g" .
  have apart: "pl_order (block_placement b) \<noteq> None \<and> set (block_ids b) \<inter> set (block_ids c) = {}" if "later_block ?e b c" for b c
    using that unfolding later_block_def by (meson disjoint_iff less_irrefl)
  have "sorted_wrt (later_block ?e) (fg_log g)" using ok unfolding guard_ok_def by (elim conjE)
  then have "sorted_wrt (\<lambda>b c. pl_order (block_placement b) \<noteq> None \<and> set (block_ids b) \<inter> set (block_ids c) = {}) (fg_log g)"
    by (rule sorted_wrt_mono_rel[rotated]) (rule apart)
  moreover have "set (block_ids b) \<inter> set (fg_placed g0) = {}" if b: "b \<in> set (fg_log g)" for b
  proof -
    have "\<forall>i \<in> set (block_ids b). \<forall>c \<in> set (fg_placed g0). seq_of ?e c < seq_of ?e i" using ok b unfolding guard_ok_def by blast
    then show ?thesis by (meson disjoint_iff less_irrefl)
  qed
  ultimately show ?thesis by blast
qed

text \<open>A settled entry was shown ended, else the latest order seen is active.\<close>

lemma settle_result:
  assumes "settle_active_entry cancel on_active ord env looks s = (Inr (final, seen), t)"
  shows "(case final of None \<Rightarrow> \<not> is_terminal seen | Some f \<Rightarrow> seen = f \<and> is_terminal f) \<and>
    (seen = ord \<or> client_order_id seen = client_order_id ord \<and> client_order_id ord \<noteq> None \<and>
      (\<exists>l \<in> set looks. look_up (sl_source l) (the (client_order_id ord)) = Some seen))"
proof (cases "is_terminal ord \<or> client_order_id ord = None")
  case True
  then show ?thesis using assms by (auto simp: settle_active_entry_def prog_simps split: if_splits prod.splits sum.splits)
next
  case False
  then obtain cid where cid: "client_order_id ord = Some cid" by auto
  then obtain u where u: "confirm_cancel on_active cid ord (zip CANCEL_CONFIRM_AT_SECONDS looks) u = (Inr (final, seen), t)"
    using assms False by (auto simp: settle_active_entry_def elim!: bindS_InrE)
  note result = confirm_cancel_result[OF u]
  have mem: "l \<in> set (zip CANCEL_CONFIRM_AT_SECONDS looks) \<Longrightarrow> snd l \<in> set looks" for l
    by (cases l) (auto dest: set_zip_rightD)
  show ?thesis using result mem look_up_id[of _ cid] cid False by (cases final) fastforce+
qed
text \<open>
  Settling an entry returns it as ended only when the exchange showed it ended: the given order, or the
  answer to a look under its client order id; otherwise the latest order seen is still active.
\<close>

theorem settle_ends_confirmed:
  assumes "settle_active_entry cancel on_active ord env looks s = (Inr (final, seen), t)"
  shows "(case final of None \<Rightarrow> \<not> is_terminal seen | Some f \<Rightarrow> seen = f \<and> is_terminal f) \<and>
    (seen = ord \<or> client_order_id seen = client_order_id ord \<and> client_order_id ord \<noteq> None \<and>
      (\<exists>l \<in> set looks. look_up (sl_source l) (the (client_order_id ord)) = Some seen))"
  by (rule settle_result[OF assms])

subsection \<open>Witnesses\<close>

text \<open>An active entry, two lots filled, one of them covered by a stop found at the start; the second gets a stop of its own.\<close>

definition sample_active :: order where
  "sample_active = sample_stop_order\<lparr>o_id := Some ''e'', o_clientOrderId := Some sample_entry, o_filled := PInt 2, o_amount := PInt 3\<rparr>"

definition first_stop :: order where
  "first_stop = sample_stop_order\<lparr>o_amount := PInt 1\<rparr>"

definition second_stop :: order where
  "second_stop = first_stop\<lparr>o_id := Some ''s2'', o_clientOrderId := Some (sample_entry @ ''s2'')\<rparr>"

definition listing_of :: "order list \<Rightarrow> order_source" where
  "listing_of os = nothing_listed\<lparr>fetch_open_orders := (\<lambda>trigger. Inr (if trigger then map Some os else []))\<rparr>"

definition sample_guard_spec :: guard_spec where
  "sample_guard_spec =
     \<lparr>gs_side = ''long'', gs_reference_price = Fin 8, gs_initial_sl_pct = Fin 25, gs_entry_client_order_id = sample_entry, gs_precise = Inr\<rparr>"

definition sample_cover_env :: cover_env where
  "sample_cover_env = \<lparr>ce_stops = listing_of [first_stop],
     ce_attempts = map (\<lambda>a. a\<lparr>sa_reply := \<lambda>_. Stop_order second_stop\<rparr>) sample_attempts, ce_last = nothing_listed\<rparr>"

definition guard_before :: fill_guard where
  "guard_before = new_guard\<lparr>fg_next_sequence := 2, fg_placed := [sample_entry @ ''s1'']\<rparr>"

definition sample_block :: placed_stop where
  "sample_block = (Fin 1, Fin 6,
     \<lparr>pl_order = Some second_stop, pl_client_order_id = sample_entry @ ''s2'', pl_sequence = 2, pl_requests = 1, pl_errors = []\<rparr>,
     [Requested (sample_entry @ ''s2'') (Stop_order second_stop)])"

definition guard_after :: fill_guard where
  "guard_after = guard_before\<lparr>fg_next_sequence := 3, fg_placed := [sample_entry @ ''s2'', sample_entry @ ''s1''], fg_seen_filled := Num 2,
     fg_report := All_covered (Num 2) (Num 2), fg_log := [sample_block]\<rparr>"

lemma sample_adopts: "adopt_existing sample_guard_spec (listing_of [first_stop]) new_guard = (Inr True, guard_before)"
  by code_simp

lemma sample_covers: "cover sample_guard_spec sample_active sample_cover_env guard_before = (Inr (), guard_after)"
  by code_simp

lemma sample_settling:
  "settle_active_entry (\<lambda>_. pureS (Inr ())) (cover sample_guard_spec) sample_active sample_cover_env
     [\<lparr>sl_source = listing_of [sample_active\<lparr>o_status := Some ''canceled''\<rparr>], sl_env = sample_cover_env\<rparr>] guard_before =
   (Inr (Some (sample_active\<lparr>o_status := Some ''canceled''\<rparr>), sample_active\<lparr>o_status := Some ''canceled''\<rparr>), guard_after)"
  by code_simp

lemma PInt_lot: "0 \<le> n \<Longrightarrow> n \<le> 10 ^ 19 \<Longrightarrow> is_lot (PInt n)" "lot (PInt n) = of_int n"
proof -
  show "lot (PInt n) = of_int n" by (simp add: lot_def decimal_or_none_def decimal_of_val_def)
  have "of_int n = of_int (n * 10 ^ 8) / (10 ^ 8 :: rat)" by simp
  then have "on_scale 8 (of_int n)" unfolding on_scale_def by blast
  moreover assume "0 \<le> n" "n \<le> 10 ^ 19"
  moreover from this have "(of_int n :: rat) \<le> of_int (10 ^ 19)" by (simp only: of_int_le_iff)
  ultimately show "is_lot (PInt n)" by (simp add: is_lot_def lot_def decimal_or_none_def decimal_of_val_def)
qed

theorem guard_covers_witness:
  "\<exists>trigger p events. pl_order p \<noteq> None \<and> fg_log guard_after = fg_log guard_before @ [(Fin 1, trigger, p, events)]"
proof -
  have listed: "view_listed sample_guard_spec sample_cover_env guard_before = Some [first_stop]" by code_simp
  have ended: "\<not> is_terminal first_stop" by code_simp
  have lots: "is_lot (o_filled sample_active)" "is_lot (o_filled first_stop)" "is_lot (o_amount first_stop)"
    by (simp_all add: sample_active_def first_stop_def sample_stop_order_def PInt_lot(1))
  have sums: "stops_filled [first_stop] = 0" "still_resting [first_stop] = 1" "held sample_active [first_stop] = 2"
    using ended by (simp_all add: stops_filled_def still_resting_def held_def open_amount_def sample_active_def first_stop_def sample_stop_order_def PInt_lot(2))
  have after: "fg_failure guard_after = None" "fg_report guard_after \<noteq> Stops_unread (fill_of sample_active)" by code_simp+
  from guard_covers[OF sample_covers after listed lots(1)] show ?thesis using lots sums by simp
qed

theorem guard_stops_fresh_witness:
  "set (block_ids sample_block) \<inter> set (fg_placed guard_before) = {}"
  using guard_stops_fresh[OF sample_adopts sample_settling] by (simp add: guard_after_def)

theorem settle_ends_confirmed_witness: "is_terminal (sample_active\<lparr>o_status := Some ''canceled''\<rparr>)"
  using settle_ends_confirmed[OF sample_settling] by simp

end
