(* ===== verification/Order_Attempts.thy ===== *)
theory Order_Attempts
  imports Emergency_Safety
begin

text \<open>
  The durable record of an order, written before the exchange is called (\<open>order_attempts.py\<close>), on the
  attempts table of \<open>Emergency_Store\<close>. The trades table, which these operations only read, is an
  argument. Each operation is one connection; the advisory lock makes the count and the insert of
  \<open>create_attempt\<close> one step, as the body of a connection is here. Leverage, the two JSON columns and the
  texts of errors are left out, as in \<open>Emergency_Store\<close>.
\<close>

record trade_row =
  td_id :: int
  td_status :: string
  td_exchange :: string
  td_symbol :: string
  td_paper :: bool

definition trade_open :: "trade_row list \<Rightarrow> int option \<Rightarrow> bool" where
  "trade_open trades i \<longleftrightarrow> (case i of None \<Rightarrow> False | Some k \<Rightarrow> list_ex (\<lambda>t. td_id t = k \<and> td_status t = ''open'') trades)"

text \<open>A float bound to a numeric column: Postgres converts it with fifteen significant digits.\<close>

definition float_numeric :: "pyfloat \<Rightarrow> number" where
  "float_numeric f =
     (case f of Fin x \<Rightarrow> Num (round_sig 10 15 (- 400) x) | PInf \<Rightarrow> Infinite False | NInf \<Rightarrow> Infinite True | NaN \<Rightarrow> NotANumber)"

subsection \<open>Reserving a portfolio slot\<close>

definition occupies :: "trade_row list \<Rightarrow> attempt_row \<Rightarrow> bool" where
  "occupies trades r \<longleftrightarrow>
     ar_operation r = ''entry'' \<and>
     (ar_status r \<in> {Att_pending, Att_accepted, Att_submission_unknown, Att_manual_required} \<or>
      ar_status r = Att_completed \<and> (ar_trade_id r = None \<or> trade_open trades (ar_trade_id r)))"

definition durable_slots :: "trade_row list \<Rightarrow> attempt_row list \<Rightarrow> (string \<times> string) list" where
  "durable_slots trades rows = remdups (map (\<lambda>r. (ar_exchange r, upper (ar_base r))) (filter (occupies trades) rows))"

definition count_durable_only :: "trade_row list \<Rightarrow> (string \<times> string) list \<Rightarrow> attempt_row list \<Rightarrow> nat" where
  "count_durable_only trades observed rows =
     length (filter (\<lambda>d. \<not> list_ex (\<lambda>ob. fst ob = fst d \<and> upper (snd ob) = snd d) observed) (durable_slots trades rows))"

text \<open>A position of the caller's snapshot: its exchange and base, as far as present.\<close>

type_synonym open_position = "string option \<times> string option"

fun observed_pair :: "open_position \<Rightarrow> (string \<times> string) list" where
  "observed_pair (Some (e # es), Some (b # bs)) = [(e # es, upper (b # bs))]"
| "observed_pair _ = []"

definition observed_pairs :: "open_position list \<Rightarrow> (string \<times> string) list" where
  "observed_pairs positions = remdups (concat (map observed_pair positions))"

record entry_intent =
  en_client_order_id :: string
  en_exchange :: string
  en_base :: string
  en_symbol :: string
  en_native_market_id :: "string option"
  en_market_type :: "string option"
  en_side :: string
  en_size_usd :: pyfloat
  en_requested_amount :: "pyfloat option"
  en_contract_size :: "pyfloat option"

definition entry_row :: "entry_intent \<Rightarrow> int \<Rightarrow> attempt_row" where
  "entry_row e now =
     \<lparr>ar_id = 0, ar_operation = ''entry'', ar_client_order_id = en_client_order_id e, ar_exchange = en_exchange e,
      ar_base = upper (en_base e), ar_symbol = en_symbol e, ar_native_market_id = en_native_market_id e,
      ar_market_type = en_market_type e, ar_side = en_side e, ar_size_usd = float_numeric (en_size_usd e),
      ar_requested_amount = map_option float_numeric (en_requested_amount e),
      ar_contract_size = map_option float_numeric (en_contract_size e), ar_status = Att_pending, ar_order_id = None,
      ar_filled_amount = None, ar_trade_id = None, ar_task_id = None, ar_created_at = now\<rparr>"

datatype create_result = Created int | Portfolio_capacity_reached int int | Create_failed

definition create_attempt :: "trade_row list \<Rightarrow> entry_intent \<Rightarrow> open_position list \<Rightarrow> int \<Rightarrow> (db, create_result) prog" where
  "create_attempt trades e positions max_positions =
     tryS (with_db (\<lambda>now.
       bindS (readS (\<lambda>d. int (length positions) + int (count_durable_only trades (observed_pairs positions) (db_attempts d)))) (\<lambda>occupied.
       if max_positions \<le> occupied then ret (Portfolio_capacity_reached occupied max_positions)
       else bindS (insert_attempt (entry_row e now)) (\<lambda>i. ret (Created i)))))
     (\<lambda>_. ret Create_failed)"

subsection \<open>Close intents\<close>

record close_intent =
  cl_client_order_id :: string
  cl_exchange :: string
  cl_base :: string
  cl_symbol :: string
  cl_native_market_id :: "string option"
  cl_market_type :: "string option"
  cl_side :: string
  cl_size_usd :: pyfloat
  cl_requested_amount :: pyfloat
  cl_contract_size :: pyfloat
  cl_trade_id :: "int option"

definition close_row :: "close_intent \<Rightarrow> int \<Rightarrow> attempt_row" where
  "close_row c now =
     \<lparr>ar_id = 0, ar_operation = ''close'', ar_client_order_id = cl_client_order_id c, ar_exchange = cl_exchange c,
      ar_base = upper (cl_base c), ar_symbol = cl_symbol c, ar_native_market_id = cl_native_market_id c,
      ar_market_type = cl_market_type c, ar_side = cl_side c, ar_size_usd = float_numeric (cl_size_usd c),
      ar_requested_amount = Some (float_numeric (cl_requested_amount c)),
      ar_contract_size = Some (float_numeric (cl_contract_size c)), ar_status = Att_pending, ar_order_id = None,
      ar_filled_amount = None, ar_trade_id = cl_trade_id c, ar_task_id = None, ar_created_at = now\<rparr>"

definition create_close_attempt :: "close_intent \<Rightarrow> (db, int option) prog" where
  "create_close_attempt c =
     tryS (with_db (\<lambda>now. bindS (insert_attempt (close_row c now)) (\<lambda>i. ret (Some i)))) (\<lambda>_. ret None)"

record close_attempt =
  ca_id :: int
  ca_client_order_id :: string
  ca_exchange :: string
  ca_base :: string
  ca_symbol :: string
  ca_side :: string
  ca_status :: attempt_status
  ca_order_id :: "string option"
  ca_requested_amount :: pyfloat
  ca_filled_amount :: "pyfloat option"
  ca_trade_id :: "int option"
  ca_created_at :: int

definition recoverable :: "trade_row list \<Rightarrow> attempt_row \<Rightarrow> bool" where
  "recoverable trades r \<longleftrightarrow>
     ar_operation r = ''close'' \<and> ar_task_id r = None \<and>
     (ar_status r \<in> {Att_pending, Att_accepted, Att_submission_unknown} \<or>
      ar_status r = Att_completed \<and> trade_open trades (ar_trade_id r))"

text \<open>\<open>float(None)\<close> raises for a row without a requested amount.\<close>

definition close_attempt_of :: "attempt_row \<Rightarrow> close_attempt res" where
  "close_attempt_of r =
     (case ar_requested_amount r of
        None \<Rightarrow> Inl TypeError
      | Some amount \<Rightarrow>
          Inr \<lparr>ca_id = ar_id r, ca_client_order_id = ar_client_order_id r, ca_exchange = ar_exchange r, ca_base = ar_base r,
               ca_symbol = ar_symbol r, ca_side = ar_side r, ca_status = ar_status r, ca_order_id = ar_order_id r,
               ca_requested_amount = float_of_number amount, ca_filled_amount = map_option float_of_number (ar_filled_amount r),
               ca_trade_id = ar_trade_id r, ca_created_at = ar_created_at r\<rparr>)"

fun close_attempts_of :: "attempt_row list \<Rightarrow> close_attempt list res" where
  "close_attempts_of [] = Inr []"
| "close_attempts_of (r # rs) = bindE (close_attempt_of r) (\<lambda>c. bindE (close_attempts_of rs) (\<lambda>cs. Inr (c # cs)))"

definition load_recoverable_close_attempts :: "trade_row list \<Rightarrow> (db, close_attempt list) prog" where
  "load_recoverable_close_attempts trades =
     tryS (bindS (with_db (\<lambda>_. readS (\<lambda>d. sort_key ar_created_at (filter (recoverable trades) (db_attempts d))))) (\<lambda>rows.
       pureS (close_attempts_of rows)))
     (\<lambda>_. ret [])"

subsection \<open>Recording what became of an order\<close>

text \<open>An update of the rows a condition selects; whether any row was hit.\<close>

definition update_rows :: "(attempt_row \<Rightarrow> bool) \<Rightarrow> (attempt_row \<Rightarrow> attempt_row) \<Rightarrow> (db, bool) prog" where
  "update_rows hit f = (\<lambda>d. (Inr (list_ex hit (db_attempts d)),
     d\<lparr>db_attempts := map (\<lambda>r. if hit r then f r else r) (db_attempts d)\<rparr>))"

text \<open>The value stored for a float, checked only when a row is written.\<close>

definition stored_float :: "(attempt_row \<Rightarrow> bool) \<Rightarrow> pyfloat option \<Rightarrow> (db, number option) prog" where
  "stored_float hit v = (\<lambda>d. (if list_ex hit (db_attempts d) then numeric_or_null 8 (map_option float_numeric v) else Inr None, d))"

definition has_id :: "int \<Rightarrow> attempt_row \<Rightarrow> bool" where
  "has_id i r \<longleftrightarrow> ar_id r = i"

definition mark_accepted :: "int \<Rightarrow> string \<Rightarrow> (db, unit) prog" where
  "mark_accepted i order_id =
     tryS (with_db (\<lambda>_. bindS (update_rows (has_id i) (\<lambda>r. r\<lparr>ar_status := Att_accepted, ar_order_id := Some order_id\<rparr>)) (\<lambda>_. ret ())))
       (\<lambda>_. ret ())"

definition mark_completed :: "int \<Rightarrow> int option \<Rightarrow> pyfloat option \<Rightarrow> (db, unit) prog" where
  "mark_completed i trade_id filled_amount =
     tryS (with_db (\<lambda>_. bindS (stored_float (has_id i) filled_amount) (\<lambda>f.
       bindS (update_rows (has_id i) (\<lambda>r. r\<lparr>ar_status := Att_completed, ar_trade_id := trade_id,
                ar_filled_amount := coalesce f (ar_filled_amount r)\<rparr>)) (\<lambda>_. ret ()))))
       (\<lambda>_. ret ())"

definition mark_partial :: "int \<Rightarrow> int \<Rightarrow> pyfloat \<Rightarrow> (db, bool) prog" where
  "mark_partial i trade_id filled_amount =
     tryS (with_db (\<lambda>_. bindS (stored_float (has_id i) (Some filled_amount)) (\<lambda>f.
       update_rows (has_id i) (\<lambda>r. r\<lparr>ar_status := Att_partial, ar_trade_id := Some trade_id, ar_filled_amount := f\<rparr>))))
       (\<lambda>_. ret False)"

definition mark_failed :: "int \<Rightarrow> (db, unit) prog" where
  "mark_failed i =
     tryS (with_db (\<lambda>_. bindS (update_rows (has_id i) (\<lambda>r. r\<lparr>ar_status := Att_failed\<rparr>)) (\<lambda>_. ret ()))) (\<lambda>_. ret ())"

definition mark_submission_unknown :: "int \<Rightarrow> (db, unit) prog" where
  "mark_submission_unknown i =
     tryS (with_db (\<lambda>_. bindS (update_rows (has_id i) (\<lambda>r. r\<lparr>ar_status := Att_submission_unknown\<rparr>)) (\<lambda>_. ret ()))) (\<lambda>_. ret ())"

definition link_target :: "string \<Rightarrow> string \<Rightarrow> attempt_row \<Rightarrow> bool" where
  "link_target exch order_id r \<longleftrightarrow>
     ar_exchange r = exch \<and> ar_order_id r = Some order_id \<and> ar_operation r = ''entry'' \<and>
     ar_status r \<in> {Att_accepted, Att_completed, Att_submission_unknown}"

definition link_completed_trade :: "string \<Rightarrow> string \<Rightarrow> int \<Rightarrow> pyfloat option \<Rightarrow> (db, bool) prog" where
  "link_completed_trade exch order_id trade_id filled_amount =
     tryS (with_db (\<lambda>_. bindS (stored_float (link_target exch order_id) filled_amount) (\<lambda>f.
       bindS (update_rows (link_target exch order_id) (\<lambda>r. r\<lparr>ar_status := Att_completed, ar_trade_id := Some trade_id,
                ar_filled_amount := coalesce f (ar_filled_amount r)\<rparr>)) (\<lambda>_. ret True))))
       (\<lambda>_. ret False)"
subsection \<open>The reservation\<close>

lemma observed_pair_upper: "ob \<in> set (observed_pair p) \<Longrightarrow> upper (snd ob) = snd ob"
  by (induction p rule: observed_pair.induct) auto

lemma observed_pairs_upper: "ob \<in> set (observed_pairs positions) \<Longrightarrow> upper (snd ob) = snd ob"
  by (auto simp: observed_pairs_def dest: observed_pair_upper)

lemma card_observed: "card (set (observed_pairs positions)) \<le> length positions"
proof -
  have one: "length (observed_pair p) \<le> 1" for p by (induction p rule: observed_pair.induct) auto
  have "length (concat (map observed_pair positions)) \<le> length positions"
  proof (induction positions)
    case (Cons p ps)
    then show ?case using one[of p] by simp
  qed simp
  then show ?thesis unfolding observed_pairs_def set_remdups using card_length le_trans by blast
qed

lemma count_durable_card: "count_durable_only trades (observed_pairs ps) rows = card (set (durable_slots trades rows) - set (observed_pairs ps))"
proof -
  have "list_ex (\<lambda>ob. fst ob = fst s \<and> upper (snd ob) = snd s) (observed_pairs ps) \<longleftrightarrow> s \<in> set (observed_pairs ps)" for s
    by (auto simp: list_ex_iff observed_pairs_upper prod_eq_iff intro!: bexI[of _ s])
  then have "count_durable_only trades (observed_pairs ps) rows = length (filter (\<lambda>s. s \<notin> set (observed_pairs ps)) (durable_slots trades rows))"
    by (simp add: count_durable_only_def)
  also have "\<dots> = card (set (filter (\<lambda>s. s \<notin> set (observed_pairs ps)) (durable_slots trades rows)))"
    by (rule distinct_card[symmetric]) (simp add: durable_slots_def)
  also have "set (filter (\<lambda>s. s \<notin> set (observed_pairs ps)) (durable_slots trades rows)) = set (durable_slots trades rows) - set (observed_pairs ps)"
    by auto
  finally show ?thesis .
qed

lemma durable_slots_snoc: "set (durable_slots trades (rows @ [r])) \<subseteq> insert (ar_exchange r, upper (ar_base r)) (set (durable_slots trades rows))"
  by (auto simp: durable_slots_def)

lemma create_attempt_cases:
  assumes "create_attempt trades e positions max_positions d = (r, t)"
  obtains (denied) cs result where "r = Inr result" "result = Create_failed \<or> (\<exists>n. result = Portfolio_capacity_reached n max_positions \<and> max_positions \<le> n)"
      "t = d\<lparr>db_conns := cs\<rparr>"
    | (created) i now cs where "r = Inr (Created i)" "insert_attempt (entry_row e now) (d\<lparr>db_conns := cs\<rparr>) = (Inr i, t)"
      "int (length positions) + int (count_durable_only trades (observed_pairs positions) (db_attempts d)) < max_positions"
proof -
  let ?occ = "int (length positions) + int (count_durable_only trades (observed_pairs positions) (db_attempts d))"
  define body where "body = (\<lambda>now. bindS (readS (\<lambda>d. int (length positions) + int (count_durable_only trades (observed_pairs positions) (db_attempts d)))) (\<lambda>occupied.
       if max_positions \<le> occupied then ret (Portfolio_capacity_reached occupied max_positions)
       else bindS (insert_attempt (entry_row e now)) (\<lambda>i. ret (Created i))))"
  obtain q u where q: "with_db body d = (q, u)" by force
  have run: "r = (case q of Inl _ \<Rightarrow> Inr Create_failed | Inr x \<Rightarrow> Inr x) \<and> t = u"
    using assms q by (auto simp: create_attempt_def body_def tryS_def prog_simps split: sum.splits)
  from q show thesis
  proof (cases rule: with_db_cases)
    case (fails e cs)
    show thesis by (rule denied[of Create_failed cs]) (use run fails in auto)
  next
    case (commits x now cs)
    show thesis
    proof (cases "max_positions \<le> ?occ")
      case True
      show thesis by (rule denied[of x cs]) (use run commits True in \<open>auto simp: body_def prog_simps\<close>)
    next
      case False
      then obtain i where "insert_attempt (entry_row e now) (d\<lparr>db_conns := cs\<rparr>) = (Inr i, u)" "x = Created i"
        using commits(3) by (auto simp: body_def prog_simps split: sum.splits prod.splits)
      then show thesis by (intro created[of i now cs]) (use run commits False in auto)
    qed
  qed
qed

lemma create_attempt_capacity:
  assumes "create_attempt trades e positions max_positions d = (Inr (Created i), t)"
  shows "int (card (set (observed_pairs positions) \<union> set (durable_slots trades (db_attempts t)))) \<le> max_positions"
  using assms
proof (cases rule: create_attempt_cases)
  case (created j now cs)
  let ?ob = "set (observed_pairs positions)" and ?du = "set (durable_slots trades (db_attempts d))"
  from created(2) obtain row where "db_attempts t = db_attempts d @ [row]" by (rule insert_attempt_Inr) simp
  then have "?ob \<union> set (durable_slots trades (db_attempts t)) \<subseteq> insert (ar_exchange row, upper (ar_base row)) (?ob \<union> (?du - ?ob))"
    using durable_slots_snoc[of trades "db_attempts d" row] by auto
  then have "card (?ob \<union> set (durable_slots trades (db_attempts t))) \<le> card (insert (ar_exchange row, upper (ar_base row)) (?ob \<union> (?du - ?ob)))"
    by (intro card_mono) auto
  also have "\<dots> \<le> Suc (card ?ob + card (?du - ?ob))" using card_Un_le[of ?ob "?du - ?ob"] by (simp add: card_insert_if)
  finally show ?thesis using created(3) card_observed[of positions] by (simp add: count_durable_card)
qed auto

text \<open>The reservations that competing callers make, each with its own snapshot of the positions.\<close>

fun reserve_all :: "trade_row list \<Rightarrow> int \<Rightarrow> (entry_intent \<times> open_position list) list \<Rightarrow> db \<Rightarrow> db" where
  "reserve_all trades max_positions [] d = d"
| "reserve_all trades max_positions ((e, positions) # rest) d =
     reserve_all trades max_positions rest (snd (create_attempt trades e positions max_positions d))"

lemma create_attempt_slots:
  assumes "int (card (set (durable_slots trades (db_attempts d)))) \<le> max_positions"
  shows "int (card (set (durable_slots trades (db_attempts (snd (create_attempt trades e positions max_positions d)))))) \<le> max_positions"
proof -
  obtain r t where rt: "create_attempt trades e positions max_positions d = (r, t)" by force
  then show ?thesis
  proof (cases rule: create_attempt_cases)
    case (denied cs result)
    then show ?thesis using assms rt by simp
  next
    case (created i now cs)
    have "card (set (durable_slots trades (db_attempts t))) \<le> card (set (observed_pairs positions) \<union> set (durable_slots trades (db_attempts t)))"
      by (intro card_mono) auto
    then show ?thesis using create_attempt_capacity[of trades e positions max_positions d i t] rt created(1) by simp
  qed
qed
subsection \<open>Consistency of the shared table\<close>

lemma insert_free_ok:
  assumes "insert_attempt row d = (Inr i, t)" "db_ok d" "ar_task_id row = None"
  shows "db_ok t"
  using assms(1)
proof (rule insert_attempt_Inr)
  fix r assume *: "i = db_next_attempt d" "t = d\<lparr>db_attempts := db_attempts d @ [r], db_next_attempt := i + 1\<rparr>"
    "ar_id r = i" "ar_client_order_id r = ar_client_order_id row" "ar_task_id r = ar_task_id row" "ar_operation r = ar_operation row"
    "\<forall>q \<in> set (db_attempts d). ar_client_order_id q \<noteq> ar_client_order_id row"
  have "attempts_ok t" using * assms(2,3)
    by (fastforce simp: db_ok_def attempts_ok_def sorted_wrt_append task_ids_def image_iff)
  then show ?thesis using *(2) assms(2) by (auto simp: db_ok_def tasks_ok_def incidents_ok_def task_ids_def)
qed

definition consistent :: "db \<Rightarrow> bool" where
  "consistent d \<longleftrightarrow> db_ok d \<and> tables_typed d"

lemma consistent_conns [simp]: "consistent (d\<lparr>db_conns := cs\<rparr>) = consistent d"
  by (simp add: consistent_def)

lemma create_attempt_consistent: "keeps consistent (create_attempt trades e positions max_positions)"
proof (rule endsI)
  fix d r t assume d: "consistent d" and "create_attempt trades e positions max_positions d = (r, t)"
  from this(2) show "consistent t"
  proof (cases rule: create_attempt_cases)
    case (denied cs result)
    then show ?thesis using d by simp
  next
    case (created i now cs)
    then show ?thesis using d insert_free_ok[OF created(2)] insert_attempt_typed[OF created(2)]
      by (simp add: consistent_def entry_row_def)
  qed
qed

lemma create_close_consistent: "keeps consistent (create_close_attempt c)"
  unfolding create_close_attempt_def
proof (intro keeps_try with_db_keeps keeps_ret)
  fix now d x t assume d: "consistent d" "bindS (insert_attempt (close_row c now)) (\<lambda>i. ret (Some i)) d = (Inr x, t)"
  then obtain i where "insert_attempt (close_row c now) d = (Inr i, t)" by (auto simp: ret_apply elim!: bindS_InrE)
  then show "consistent t" using d insert_free_ok insert_attempt_typed by (simp add: consistent_def close_row_def)
qed simp

text \<open>An update of status, order id, fill and trade of some rows.\<close>

lemma update_rows_consistent:
  assumes "consistent d" "update_rows hit f d = (Inr b, t)"
    and "\<And>r. ar_id (f r) = ar_id r \<and> ar_client_order_id (f r) = ar_client_order_id r \<and> ar_operation (f r) = ar_operation r \<and> ar_task_id (f r) = ar_task_id r"
    and "\<And>r. row_typed r \<Longrightarrow> row_typed (f r)"
  shows "consistent t"
proof -
  have t: "t = d\<lparr>db_attempts := map (\<lambda>r. if hit r then f r else r) (db_attempts d)\<rparr>" using assms(2) by (simp add: update_rows_def)
  have "db_ok t" unfolding t by (rule attempts_ok_map) (use assms(1,3) in \<open>auto simp: consistent_def split: if_splits\<close>)
  moreover have "tables_typed t" unfolding t using assms(1,4) by (auto simp: consistent_def tables_typed_def list_all_iff)
  ultimately show ?thesis by (simp add: consistent_def)
qed

lemma stored_float_Inr: "stored_float hit v d = (Inr f, t) \<Longrightarrow> t = d \<and> pred_option (fits 8) f"
  by (auto simp: stored_float_def dest: numeric_or_null_fits split: if_splits)

lemma coalesce_typed: "row_typed r \<Longrightarrow> pred_option (fits 8) f \<Longrightarrow> pred_option (fits 8) (coalesce f (ar_filled_amount r))"
  by (cases f) (simp_all add: row_typed_def coalesce_def)

lemma update_with_float_consistent:
  assumes "\<And>g r. ar_id (f g r) = ar_id r \<and> ar_client_order_id (f g r) = ar_client_order_id r \<and> ar_operation (f g r) = ar_operation r \<and>
      ar_task_id (f g r) = ar_task_id r"
    and "\<And>g r. pred_option (fits 8) g \<Longrightarrow> row_typed r \<Longrightarrow> row_typed (f g r)"
  shows "keeps consistent (tryS (with_db (\<lambda>_. bindS (stored_float hit v) (\<lambda>g. bindS (update_rows hit (f g)) (\<lambda>b. ret (h b))))) (\<lambda>_. ret z))"
proof (intro keeps_try with_db_keeps keeps_ret)
  fix now d x t assume d: "consistent d" "bindS (stored_float hit v) (\<lambda>g. bindS (update_rows hit (f g)) (\<lambda>b. ret (h b))) d = (Inr x, t)"
  then obtain g b where "pred_option (fits 8) g" "update_rows hit (f g) d = (Inr b, t)"
    by (auto simp: ret_apply elim!: bindS_InrE dest!: stored_float_Inr)
  then show "consistent t" using update_rows_consistent[OF d(1)] assms by blast
qed simp

lemma update_only_consistent:
  assumes "\<And>r. ar_id (f r) = ar_id r \<and> ar_client_order_id (f r) = ar_client_order_id r \<and> ar_operation (f r) = ar_operation r \<and> ar_task_id (f r) = ar_task_id r"
    and "\<And>r. row_typed r \<Longrightarrow> row_typed (f r)"
  shows "keeps consistent (tryS (with_db (\<lambda>_. bindS (update_rows hit f) (\<lambda>_. ret ()))) (\<lambda>_. ret ()))"
proof (intro keeps_try with_db_keeps keeps_ret)
  fix now d x t assume d: "consistent d" "bindS (update_rows hit f) (\<lambda>_. ret ()) d = (Inr x, t)"
  then obtain b where "update_rows hit f d = (Inr b, t)" by (auto simp: ret_apply elim!: bindS_InrE)
  then show "consistent t" using update_rows_consistent[OF d(1)] assms by blast
qed simp

lemma marks_consistent:
  "keeps consistent (mark_accepted i oid)" "keeps consistent (mark_completed i trade v)" "keeps consistent (mark_partial i k w)"
  "keeps consistent (mark_failed i)" "keeps consistent (mark_submission_unknown i)" "keeps consistent (link_completed_trade exch o' k v)"
proof -
  show "keeps consistent (mark_accepted i oid)" unfolding mark_accepted_def by (rule update_only_consistent) (simp_all add: row_typed_def)
  show "keeps consistent (mark_failed i)" unfolding mark_failed_def by (rule update_only_consistent) (simp_all add: row_typed_def)
  show "keeps consistent (mark_submission_unknown i)" unfolding mark_submission_unknown_def
    by (rule update_only_consistent) (simp_all add: row_typed_def)
  show "keeps consistent (mark_completed i trade v)" unfolding mark_completed_def
    by (rule update_with_float_consistent) (use coalesce_typed in \<open>auto simp: row_typed_def\<close>)
  show "keeps consistent (link_completed_trade exch o' k v)" unfolding link_completed_trade_def
    by (rule update_with_float_consistent) (use coalesce_typed in \<open>auto simp: row_typed_def\<close>)
  have "keeps consistent (tryS (with_db (\<lambda>_. bindS (stored_float (has_id i) (Some w)) (\<lambda>g. bindS (update_rows (has_id i)
      (\<lambda>r. r\<lparr>ar_status := Att_partial, ar_trade_id := Some k, ar_filled_amount := g\<rparr>)) (\<lambda>b. ret b)))) (\<lambda>_. ret False))"
    by (rule update_with_float_consistent) (auto simp: row_typed_def)
  then show "keeps consistent (mark_partial i k w)" by (simp add: mark_partial_def bind_ret)
qed

subsection \<open>Properties\<close>

text \<open>
  C9. A reservation respects the portfolio limit: when an entry is recorded, the instruments of the caller's
  snapshot and all those that some durable entry may hold, the new one included, are at most
  \<open>max_positions\<close>, and the entry is stored as pending under its client order id.
\<close>

theorem reservation_within_capacity:
  assumes "create_attempt trades e positions max_positions d = (Inr (Created i), t)"
  shows "int (card (set (observed_pairs positions) \<union> set (durable_slots trades (db_attempts t)))) \<le> max_positions \<and>
    (\<exists>r \<in> set (db_attempts t). ar_id r = i \<and> ar_operation r = ''entry'' \<and> ar_status r = Att_pending \<and>
      ar_client_order_id r = en_client_order_id e)"
proof
  from assms show "\<exists>r \<in> set (db_attempts t). ar_id r = i \<and> ar_operation r = ''entry'' \<and> ar_status r = Att_pending \<and>
      ar_client_order_id r = en_client_order_id e"
  proof (cases rule: create_attempt_cases)
    case (created j now cs)
    from created(2) show ?thesis by (rule insert_attempt_Inr) (use created(1) in \<open>auto simp: entry_row_def\<close>)
  qed auto
qed (rule create_attempt_capacity[OF assms])


datatype attempt_call =
    Create_entry entry_intent "open_position list" int
  | Create_close close_intent
  | Load_recoverable
  | Accept int string
  | Complete int "int option" "pyfloat option"
  | Partially int int pyfloat
  | Fail int
  | Submission_unknown int
  | Link_trade string string int "pyfloat option"

fun perform_attempt :: "trade_row list \<Rightarrow> attempt_call \<Rightarrow> db \<Rightarrow> db" where
  "perform_attempt trades (Create_entry e positions m) d = snd (create_attempt trades e positions m d)"
| "perform_attempt trades (Create_close c) d = snd (create_close_attempt c d)"
| "perform_attempt trades Load_recoverable d = snd (load_recoverable_close_attempts trades d)"
| "perform_attempt trades (Accept i oid) d = snd (mark_accepted i oid d)"
| "perform_attempt trades (Complete i k f) d = snd (mark_completed i k f d)"
| "perform_attempt trades (Partially i k f) d = snd (mark_partial i k f d)"
| "perform_attempt trades (Fail i) d = snd (mark_failed i d)"
| "perform_attempt trades (Submission_unknown i) d = snd (mark_submission_unknown i d)"
| "perform_attempt trades (Link_trade x oid k f) d = snd (link_completed_trade x oid k f d)"

lemma load_consistent: "keeps consistent (load_recoverable_close_attempts trades)"
  unfolding load_recoverable_close_attempts_def by (intro keeps_try keeps_bind with_db_read keeps_pure keeps_ret) simp

lemma perform_attempt_consistent: "consistent d \<Longrightarrow> consistent (perform_attempt trades c d)"
  by (cases c) (auto intro!: keeps_snd[of consistent] create_attempt_consistent create_close_consistent load_consistent marks_consistent)

text \<open>The entry path, the monitor and the emergency executor write the same table; the trades change in between.\<close>

fun shared_history :: "(store_call + trade_row list \<times> attempt_call) list \<Rightarrow> db \<Rightarrow> db" where
  "shared_history [] d = d"
| "shared_history (Inl c # cs) d = shared_history cs (perform postgres_store c d)"
| "shared_history (Inr (trades, c) # cs) d = shared_history cs (perform_attempt trades c d)"


subsection \<open>Witnesses\<close>

definition sample_intent :: "string \<Rightarrow> entry_intent" where
  "sample_intent b = \<lparr>en_client_order_id = replicate 32 (hd b), en_exchange = ''bybit'', en_base = b, en_symbol = b,
     en_native_market_id = None, en_market_type = None, en_side = ''long'', en_size_usd = Fin 10, en_requested_amount = None,
     en_contract_size = Some (Fin 1)\<rparr>"

definition empty_db :: db where
  "empty_db = \<lparr>db_attempts = [], db_tasks = [], db_incidents = [], db_next_attempt = 1, db_next_task = 1,
     db_conns = [(True, 5), (True, 6)]\<rparr>"

lemma sample_reserves: "fst (create_attempt [] (sample_intent ''a'') [(Some ''bybit'', Some ''x'')] 2 empty_db) = Inr (Created 1)"
  by code_simp

theorem reservation_within_capacity_witness:
  "int (card (set (observed_pairs [(Some ''bybit'', Some ''x'')]) \<union>
     set (durable_slots [] (db_attempts (snd (create_attempt [] (sample_intent ''a'') [(Some ''bybit'', Some ''x'')] 2 empty_db)))))) \<le> 2"
  using reservation_within_capacity[of "[]" "sample_intent ''a''" "[(Some ''bybit'', Some ''x'')]" 2 empty_db 1
      "snd (create_attempt [] (sample_intent ''a'') [(Some ''bybit'', Some ''x'')] 2 empty_db)"] sample_reserves
  by (simp add: prod_eq_iff)


lemma empty_consistent: "consistent empty_db"
  by (simp add: consistent_def empty_db_def db_ok_def attempts_ok_def tasks_ok_def incidents_ok_def active_unique_def task_ids_def tables_typed_def)


end
