(* ===== verification/Late_Fill.thy ===== *)
theory Late_Fill
  imports Entry_Recovery Order_Attempts Reconciliation Exit_Policy
begin

text \<open>
  An entry fill that reconciliation finds after the entry path gave up on it (\<open>late_fill.py\<close>): under
  the order lock the attempt is read again, the entry looked up, an active one protected and cancelled,
  and a fill flattened by an emergency close task. It composes the guard of \<open>Entry_Recovery\<close>, the
  store of \<open>Emergency_Store\<close> and the attempts table. What one call meets (the lock, the exchange, the
  JSON column of the row, the open trades) is a record; alerts are best effort and kept as a list.
\<close>

definition candidate_status :: "attempt_status \<Rightarrow> bool" where
  "candidate_status st \<longleftrightarrow> st \<in> {Att_pending, Att_accepted, Att_submission_unknown}"

subsection \<open>Reading under the lock\<close>

record locked =
  lk_status :: attempt_status
  lk_trade_id :: "int option"
  lk_initial_sl_pct :: pyfloat
  lk_competitor :: "string option"

definition open_trade :: "trade_row list \<Rightarrow> full_identity \<Rightarrow> bool" where
  "open_trade trades i \<longleftrightarrow>
     list_ex (\<lambda>t. td_status t = ''open'' \<and> td_exchange t = fi_exchange i \<and> td_symbol t = fi_symbol i \<and> \<not> td_paper t) trades"

definition other_unresolved_attempt :: "order_attempt \<Rightarrow> db \<Rightarrow> bool" where
  "other_unresolved_attempt a d \<longleftrightarrow>
     list_ex (\<lambda>r. ar_exchange r = fi_exchange (at_identity a) \<and> upper (ar_base r) = upper (at_base a) \<and> ar_id r \<noteq> at_attempt_id a \<and>
       ar_status r \<in> {Att_pending, Att_accepted, Att_submission_unknown, Att_manual_required} \<and>
       (case ar_task_id r of
          None \<Rightarrow> True
        | Some k \<Rightarrow> \<not> list_ex (\<lambda>t. tk_id (tr_task t) = k \<and> tk_source_attempt_id (tr_task t) = at_attempt_id a) (db_tasks d)))
       (db_attempts d)"

definition other_active_task :: "order_attempt \<Rightarrow> db \<Rightarrow> bool" where
  "other_active_task a d \<longleftrightarrow>
     list_ex (\<lambda>t. tk_exchange (tr_task t) = fi_exchange (at_identity a) \<and> tk_base (tr_task t) = upper (at_base a) \<and>
       tk_source_attempt_id (tr_task t) \<noteq> at_attempt_id a \<and>
       tk_status (tr_task t) \<in> {STATUS_REQUESTED, STATUS_SENDING, STATUS_UNKNOWN, STATUS_MANUAL_REQUIRED}) (db_tasks d)"

definition competitor :: "trade_row list \<Rightarrow> order_attempt \<Rightarrow> db \<Rightarrow> string option" where
  "competitor trades a d =
     (if open_trade trades (at_identity a) then Some ''an open trade holds the instrument''
      else if other_unresolved_attempt a d then Some ''another unresolved attempt holds the instrument''
      else if other_active_task a d then Some ''another emergency close task holds the instrument''
      else None)"

text \<open>\<open>exit_params\<close> is the JSON column of the row.\<close>

definition initial_sl :: "pyval \<Rightarrow> pyfloat res" where
  "initial_sl params =
     (case (case params of PDict kvs \<Rightarrow> py_get kvs ''initial_sl_pct'' | _ \<Rightarrow> PNone) of
        PNone \<Rightarrow> Inr (initial_sl_pct (exit_params_for None))
      | v \<Rightarrow> py_float v)"

definition entry_attempt :: "int \<Rightarrow> db \<Rightarrow> attempt_row option" where
  "entry_attempt i d = find (\<lambda>r. ar_id r = i \<and> ar_operation r = ''entry'') (db_attempts d)"

definition read_locked :: "trade_row list \<Rightarrow> pyval \<Rightarrow> order_attempt \<Rightarrow> (db, locked option) prog" where
  "read_locked trades params a =
     bindS (with_db (\<lambda>_. readS (\<lambda>d. map_option (\<lambda>r. (r, competitor trades a d)) (entry_attempt (at_attempt_id a) d)))) (\<lambda>found.
     case found of
       None \<Rightarrow> ret None
     | Some (r, other) \<Rightarrow>
         bindS (pureS (initial_sl params)) (\<lambda>sl.
         ret (Some \<lparr>lk_status = ar_status r, lk_trade_id = ar_trade_id r, lk_initial_sl_pct = sl, lk_competitor = other\<rparr>)))"

subsection \<open>Recording what the exchange shows\<close>

text \<open>The reconciliation worker's \<open>_update_attempt_from_order\<close>, on this store.\<close>

definition record_attempt :: "order_attempt \<Rightarrow> order \<Rightarrow> (db, order_attempt) prog" where
  "record_attempt a ord =
     bindS (pureS (attempt_state_from_order ord)) (\<lambda>(st, filled, err).
     let oid = coalesce (o_id ord) (at_order_id a) in
     bindS (with_db (\<lambda>_ d.
       case (if list_ex (has_id (at_attempt_id a)) (db_attempts d) then numeric_or_null 8 filled else Inr None) of
         Inl e \<Rightarrow> (Inl e, d)
       | Inr f \<Rightarrow> update_rows (has_id (at_attempt_id a)) (\<lambda>r. r\<lparr>ar_status := st, ar_order_id := coalesce oid (ar_order_id r),
             ar_filled_amount := coalesce f (ar_filled_amount r)\<rparr>) d)) (\<lambda>_.
     ret (a\<lparr>at_status := st, at_order_id := oid, at_filled_amount := filled\<rparr>)))"

subsection \<open>Resolving\<close>

datatype late_alert = Late_fill_flattened int | Cancel_unconfirmed int guard_report

record late_world =
  lw_db :: db
  lw_alerted :: "int list"
  lw_alerts :: "late_alert list"
  lw_guards :: "fill_guard list"

record late_env =
  lf_exchange_known :: bool
  lf_lock :: "bool res"
  lf_trades :: "trade_row list"
  lf_exit_params :: pyval
  lf_lookup :: order_source
  lf_ticker_last :: "pyval res"
  lf_stops :: order_source
  lf_first_cover :: cover_env
  lf_cancel :: "unit res"
  lf_looks :: "cover_env settle_look list"
  lf_precise :: "pyfloat \<Rightarrow> pyfloat res"
  lf_closes :: order_source
  lf_exit :: "unit res"

definition on_db :: "(db, 'a) prog \<Rightarrow> (late_world, 'a) prog" where
  "on_db m = (\<lambda>w. case m (lw_db w) of (r, d) \<Rightarrow> (r, w\<lparr>lw_db := d\<rparr>))"

definition alert :: "late_alert \<Rightarrow> (late_world, unit) prog" where
  "alert x = modifyS (\<lambda>w. w\<lparr>lw_alerts := lw_alerts w @ [x]\<rparr>)"

definition truthy_price :: "number option \<Rightarrow> number option" where
  "truthy_price p = (case p of None \<Rightarrow> None | Some x \<Rightarrow> if ntruth x then Some x else None)"

definition reference_price :: "late_env \<Rightarrow> order \<Rightarrow> number option res" where
  "reference_price env ord =
     (let price = (case truthy_price (decimal_or_none (o_average ord)) of
            Some a \<Rightarrow> Some a
          | None \<Rightarrow> truthy_price (decimal_or_none (o_price ord)))
      in case price of
           Some p \<Rightarrow> Inr (Some p)
         | None \<Rightarrow> bindE (lf_ticker_last env) (\<lambda>v. Inr (truthy_price (decimal_or_none v))))"

definition guard_for :: "late_env \<Rightarrow> order_attempt \<Rightarrow> locked \<Rightarrow> number \<Rightarrow> guard_spec" where
  "guard_for env a lk price =
     \<lparr>gs_side = fi_side (at_identity a), gs_reference_price = float_of_number price, gs_initial_sl_pct = lk_initial_sl_pct lk,
      gs_entry_client_order_id = at_client_order_id a, gs_precise = lf_precise env\<rparr>"

text \<open>The guard is local to the call; what it did is kept in \<open>lw_guards\<close>.\<close>

definition guarded :: "(fill_guard, 'a) prog \<Rightarrow> (late_world, 'a \<times> guard_report) prog" where
  "guarded m = (\<lambda>w. case m new_guard of
       (Inl e, g) \<Rightarrow> (Inl e, w\<lparr>lw_guards := lw_guards w @ [g]\<rparr>)
     | (Inr x, g) \<Rightarrow> (Inr (x, fg_report g), w\<lparr>lw_guards := lw_guards w @ [g]\<rparr>))"

definition settle_late :: "late_env \<Rightarrow> order_attempt \<Rightarrow> order \<Rightarrow> locked \<Rightarrow> (late_world, (order \<times> bool) option) prog" where
  "settle_late env a ord lk =
     bindS (pureS (reference_price env ord)) (\<lambda>price.
     case price of
       None \<Rightarrow> ret None
     | Some p \<Rightarrow>
         (let spec = guard_for env a lk p in
          bindS (guarded (bindS (adopt_existing spec (lf_stops env)) (\<lambda>adopted.
            if \<not> adopted then ret None
            else bindS (settle_active_entry (\<lambda>_. pureS (lf_cancel env)) (cover spec) ord (lf_first_cover env) (lf_looks env))
                   (\<lambda>result. ret (Some result))))) (\<lambda>(result, report).
          case result of
            None \<Rightarrow> ret None
          | Some (Some final, _) \<Rightarrow> ret (Some (final, False))
          | Some (None, latest) \<Rightarrow>
              bindS (readS lw_alerted) (\<lambda>alerted.
              bindS (if at_attempt_id a \<in> set alerted then ret ()
                     else bindS (modifyS (\<lambda>w. w\<lparr>lw_alerted := at_attempt_id a # lw_alerted w\<rparr>)) (\<lambda>_.
                          alert (Cancel_unconfirmed (at_attempt_id a) report))) (\<lambda>_.
              ret (Some (latest, True)))))))"

definition late_spec :: "order_attempt \<Rightarrow> number \<Rightarrow> task_spec" where
  "late_spec a filled =
     \<lparr>ts_source_attempt_id = at_attempt_id a, ts_entry_client_order_id = at_client_order_id a,
      ts_exchange = fi_exchange (at_identity a), ts_base = at_base a, ts_symbol = fi_symbol (at_identity a),
      ts_native_market_id = fi_native_market_id (at_identity a), ts_market_type = fi_market_type (at_identity a),
      ts_side = fi_side (at_identity a), ts_owned_quantity = filled, ts_reason = ''late_fill_flattened'', ts_trade_id = None\<rparr>"

definition adopt_all :: "order list \<Rightarrow> adopted_close list res" where
  "adopt_all closes = foldE (\<lambda>acc ord. bindE (adopted_close_of ord) (\<lambda>c. Inr (acc @ [c]))) [] closes"

definition flatten_late :: "late_env \<Rightarrow> order_attempt \<Rightarrow> order \<Rightarrow> number \<Rightarrow> (late_world, order_attempt) prog" where
  "flatten_late env a ord filled =
     bindS (pureS (orders_with_prefix (lf_closes env) (close_prefix (at_client_order_id a)))) (\<lambda>closes.
     bindS (pureS (adopt_all closes)) (\<lambda>adopted.
     bindS (on_db (create_task (late_spec a filled) adopted)) (\<lambda>(task_id, created).
     bindS (on_db (record_attempt a ord)) (\<lambda>recorded.
     bindS (if created then alert (Late_fill_flattened task_id) else ret ()) (\<lambda>_.
     ret recorded)))))"

definition finish_late :: "late_env \<Rightarrow> order_attempt \<Rightarrow> locked \<Rightarrow> order \<Rightarrow> (late_world, order_attempt) prog" where
  "finish_late env a lk ord =
     bindS (pureS (attempt_state_from_order ord)) (\<lambda>(st, filled, err).
     bindS (pureS (if st \<noteq> Att_completed then Inr None
                   else case filled of
                          None \<Rightarrow> Inr None
                        | Some f \<Rightarrow> bindE (nle f (Num 0)) (\<lambda>none. Inr (if none then None else Some f)))) (\<lambda>owned.
     case owned of
       None \<Rightarrow> on_db (record_attempt a ord)
     | Some f \<Rightarrow> if lk_competitor lk \<noteq> None then on_db (record_attempt a ord) else flatten_late env a ord f))"

definition resolve_locked :: "late_env \<Rightarrow> order_attempt \<Rightarrow> (late_world, order_attempt option) prog" where
  "resolve_locked env a =
     bindS (on_db (read_locked (lf_trades env) (lf_exit_params env) a)) (\<lambda>lk_opt.
     case lk_opt of
       None \<Rightarrow> ret None
     | Some lk \<Rightarrow>
         if \<not> candidate_status (lk_status lk) \<or> (case lk_trade_id lk of None \<Rightarrow> False | Some k \<Rightarrow> k \<noteq> 0) then ret None
         else case look_up (lf_lookup env) (at_client_order_id a) of
                None \<Rightarrow> ret None
              | Some ord \<Rightarrow>
                  if is_terminal ord then bindS (finish_late env a lk ord) (\<lambda>x. ret (Some x))
                  else bindS (settle_late env a ord lk) (\<lambda>settled.
                    case settled of
                      None \<Rightarrow> ret None
                    | Some (latest, unconfirmed) \<Rightarrow>
                        if unconfirmed then bindS (on_db (record_attempt a latest)) (\<lambda>x. ret (Some x))
                        else bindS (finish_late env a lk latest) (\<lambda>x. ret (Some x))))"

definition resolve :: "late_env \<Rightarrow> order_attempt \<Rightarrow> (late_world, order_attempt option) prog" where
  "resolve env a =
     (if \<not> lf_exchange_known env then ret None
      else bindS (pureS (lf_lock env)) (\<lambda>got.
        if \<not> got then ret None
        else tryS (bindS (resolve_locked env a) (\<lambda>x. bindS (pureS (lf_exit env)) (\<lambda>_. ret x))) (\<lambda>_. ret None)))"
subsection \<open>What a call can do\<close>

text \<open>The tables apart from the connections still to come.\<close>

definition same_tables :: "db \<Rightarrow> db \<Rightarrow> bool" where
  "same_tables d t \<longleftrightarrow> (\<exists>cs. t = d\<lparr>db_conns := cs\<rparr>)"

lemma same_tables_refl [simp]: "same_tables d d"
  unfolding same_tables_def by (rule exI[of _ "db_conns d"]) simp

lemma same_tables_conns [simp]: "same_tables d (d\<lparr>db_conns := cs\<rparr>)"
  by (auto simp: same_tables_def)

lemma competitor_conns [simp]:
  "competitor trades a (d\<lparr>db_conns := cs\<rparr>) = competitor trades a d" "entry_attempt i (d\<lparr>db_conns := cs\<rparr>) = entry_attempt i d"
  by (simp_all add: competitor_def other_unresolved_attempt_def other_active_task_def entry_attempt_def cong: option.case_cong)

lemma on_db_run: "on_db m w = (r, w') \<Longrightarrow> m (lw_db w) = (r, lw_db w')"
  by (auto simp: on_db_def split: prod.splits)

lemma on_db_keeps: "keeps I m \<Longrightarrow> keeps (\<lambda>w. I (lw_db w)) (on_db m)"
  by (rule endsI) (auto dest!: on_db_run endsD)

lemma read_locked_run:
  assumes "read_locked trades params a d = (r, t)"
  shows "same_tables d t" "r = Inr (Some lk) \<Longrightarrow> lk_competitor lk = competitor trades a d \<and>
    (\<exists>row. entry_attempt (at_attempt_id a) d = Some row \<and> lk_status lk = ar_status row \<and> lk_trade_id lk = ar_trade_id row)"
proof -
  obtain q u where q: "with_db (\<lambda>_. readS (\<lambda>d. map_option (\<lambda>r. (r, competitor trades a d)) (entry_attempt (at_attempt_id a) d))) d = (q, u)" by force
  from q have qu: "same_tables d u \<and> (\<forall>x. q = Inr x \<longrightarrow> x = map_option (\<lambda>r. (r, competitor trades a d)) (entry_attempt (at_attempt_id a) d))"
  proof (cases rule: with_db_cases)
    case (commits x now cs)
    then show ?thesis by (auto simp: readS_apply)
  qed auto
  have "t = u" using assms q by (auto simp: read_locked_def prog_simps split: sum.splits option.splits prod.splits)
  then show "same_tables d t" using qu by simp
  show "lk_competitor lk = competitor trades a d \<and>
    (\<exists>row. entry_attempt (at_attempt_id a) d = Some row \<and> lk_status lk = ar_status row \<and> lk_trade_id lk = ar_trade_id row)" if "r = Inr (Some lk)"
    using assms q qu that by (auto simp: read_locked_def prog_simps split: sum.splits option.splits prod.splits)
qed

lemma guarded_db: "guarded m w = (r, w') \<Longrightarrow> lw_db w' = lw_db w \<and> (\<forall>x rep. r = Inr (x, rep) \<longrightarrow> (\<exists>g. m new_guard = (Inr x, g)))"
  by (auto simp: guarded_def split: sum.splits prod.splits)

text \<open>An order seen under the entry's id, at the first look or while it was settled.\<close>

definition entry_seen :: "late_env \<Rightarrow> order_attempt \<Rightarrow> order \<Rightarrow> bool" where
  "entry_seen env a ord \<longleftrightarrow>
     (\<exists>source \<in> insert (lf_lookup env) (sl_source ` set (lf_looks env)). look_up source (at_client_order_id a) = Some ord)"

lemma settle_late_run:
  assumes "settle_late env a ord lk w = (r, w')" "look_up (lf_lookup env) (at_client_order_id a) = Some ord"
  shows "lw_db w' = lw_db w" "r = Inr (Some (latest, unconfirmed)) \<Longrightarrow> (unconfirmed \<longleftrightarrow> \<not> is_terminal latest) \<and> entry_seen env a latest"
proof -
  have cid: "client_order_id ord = Some (at_client_order_id a)" by (rule look_up_id[OF assms(2)])
  have first: "entry_seen env a ord" using assms(2) by (auto simp: entry_seen_def)
  have *: "lw_db w' = lw_db w \<and> (r = Inr (Some (latest, unconfirmed)) \<longrightarrow> (unconfirmed \<longleftrightarrow> \<not> is_terminal latest) \<and> entry_seen env a latest)"
  proof (cases "reference_price env ord")
    case (Inl e)
    then show ?thesis using assms(1) by (auto simp: settle_late_def prog_simps)
  next
    case (Inr price)
    show ?thesis
    proof (cases price)
      case None
      then show ?thesis using assms(1) Inr by (auto simp: settle_late_def prog_simps)
    next
      case (Some p)
      let ?spec = "guard_for env a lk p"
      let ?m = "bindS (adopt_existing ?spec (lf_stops env)) (\<lambda>adopted.
            if \<not> adopted then ret None
            else bindS (settle_active_entry (\<lambda>_. pureS (lf_cancel env)) (cover ?spec) ord (lf_first_cover env) (lf_looks env))
                   (\<lambda>result. ret (Some result)))"
      obtain q u where q: "guarded ?m w = (q, u)" by force
      note g = guarded_db[OF q]
      show ?thesis
      proof (cases q)
        case (Inl e)
        then show ?thesis using assms(1) Inr Some q g by (auto simp: settle_late_def prog_simps Let_def)
      next
        case q': (Inr xr)
        obtain x rep where xr: "xr = (x, rep)" by force
        obtain h where h: "?m new_guard = (Inr x, h)" using g q' xr by blast
        show ?thesis
        proof (cases x)
          case None
          then show ?thesis using assms(1) Inr Some q g q' xr by (auto simp: settle_late_def prog_simps Let_def)
        next
          case x: (Some fs)
          obtain final seen where fs: "fs = (final, seen)" by force
          obtain g0 where "settle_active_entry (\<lambda>_. pureS (lf_cancel env)) (cover ?spec) ord (lf_first_cover env) (lf_looks env) g0 = (Inr (final, seen), h)"
            using h x fs by (auto simp: ret_apply elim!: bindS_InrE split: if_splits)
          from settle_result[OF this] have seen: "(case final of None \<Rightarrow> \<not> is_terminal seen | Some f \<Rightarrow> seen = f \<and> is_terminal f)" "entry_seen env a seen"
            using cid first by (auto simp: entry_seen_def)
          have db: "lw_db w' = lw_db w" and res: "r = Inr (Some (seen, final = None))"
            using assms(1) Inr Some q g q' xr x fs seen(1)
            by (auto simp: settle_late_def prog_simps Let_def alert_def split: option.splits if_splits)
          then show ?thesis using seen by (auto split: option.splits)
        qed
      qed
    qed
  qed
  then show "lw_db w' = lw_db w" "r = Inr (Some (latest, unconfirmed)) \<Longrightarrow> (unconfirmed \<longleftrightarrow> \<not> is_terminal latest) \<and> entry_seen env a latest"
    by blast+
qed
lemma attempt_state_completed:
  assumes "attempt_state_from_order ord = Inr (Att_completed, filled, e)"
  shows "is_terminal ord \<and> (\<exists>f. filled = Some f \<and> nlt (Num 0) f = Inr True)"
proof (cases "decimal_or_none (o_filled ord)")
  case None
  then show ?thesis using assms by (simp add: attempt_state_from_order_def Let_def split: if_splits)
next
  case (Some f)
  then show ?thesis using assms
    by (cases "nlt (Num 0) f") (simp_all add: attempt_state_from_order_def Let_def is_terminal_def split: if_splits, metis)
qed

lemma record_attempt_cases:
  assumes "record_attempt a ord d = (r, t)"
  obtains (same) "same_tables d t"
    | (written) st filled e f cs where "attempt_state_from_order ord = Inr (st, filled, e)" "pred_option (fits 8) f"
      "t = d\<lparr>db_conns := cs, db_attempts := map (\<lambda>r. if has_id (at_attempt_id a) r then r\<lparr>ar_status := st,
          ar_order_id := coalesce (coalesce (o_id ord) (at_order_id a)) (ar_order_id r),
          ar_filled_amount := coalesce f (ar_filled_amount r)\<rparr> else r) (db_attempts d)\<rparr>"
proof (cases "attempt_state_from_order ord")
  case (Inl e)
  show thesis by (rule same) (use assms Inl in \<open>simp add: record_attempt_def prog_simps\<close>)
next
  case (Inr x)
  obtain st filled e where x: "x = (st, filled, e)" by (cases x) auto
  let ?body = "\<lambda>_ d. case (if list_ex (has_id (at_attempt_id a)) (db_attempts d) then numeric_or_null 8 filled else Inr None) of
         Inl e \<Rightarrow> (Inl e, d)
       | Inr f \<Rightarrow> update_rows (has_id (at_attempt_id a)) (\<lambda>r. r\<lparr>ar_status := st, ar_order_id := coalesce (coalesce (o_id ord) (at_order_id a)) (ar_order_id r),
             ar_filled_amount := coalesce f (ar_filled_amount r)\<rparr>) d"
  obtain q u where q: "with_db ?body d = (q, u)" by force
  have t: "t = u" using assms Inr x q by (auto simp: record_attempt_def prog_simps Let_def split: sum.splits)
  from q show thesis
  proof (cases rule: with_db_cases)
    case (fails e cs)
    show thesis by (rule same) (use fails t in simp)
  next
    case (commits b now cs)
    then obtain f where f: "(if list_ex (has_id (at_attempt_id a)) (db_attempts d) then numeric_or_null 8 filled else Inr None) = Inr f"
        "u = d\<lparr>db_conns := cs, db_attempts := map (\<lambda>r. if has_id (at_attempt_id a) r then r\<lparr>ar_status := st,
          ar_order_id := coalesce (coalesce (o_id ord) (at_order_id a)) (ar_order_id r),
          ar_filled_amount := coalesce f (ar_filled_amount r)\<rparr> else r) (db_attempts d)\<rparr>"
      by (auto simp: update_rows_def split: sum.splits)
    then have "pred_option (fits 8) f" by (auto dest: numeric_or_null_fits split: if_splits)
    then show thesis by (rule written[OF Inr[unfolded x]]) (use f t in simp)
  qed
qed

lemma record_attempt_consistent: "keeps consistent (record_attempt a ord)"
proof (rule endsI)
  fix d r t assume d: "consistent d" and "record_attempt a ord d = (r, t)"
  from this(2) show "consistent t"
  proof (cases rule: record_attempt_cases)
    case same
    then show ?thesis using d by (auto simp: same_tables_def)
  next
    case (written st filled e f cs)
    let ?f = "\<lambda>r. r\<lparr>ar_status := st, ar_order_id := coalesce (coalesce (o_id ord) (at_order_id a)) (ar_order_id r),
          ar_filled_amount := coalesce f (ar_filled_amount r)\<rparr>"
    show ?thesis
    proof (rule update_rows_consistent[of "d\<lparr>db_conns := cs\<rparr>" "has_id (at_attempt_id a)" ?f])
      show "row_typed (?f r)" if "row_typed r" for r using coalesce_typed[OF that written(2)] that by (simp add: row_typed_def)
    qed (use d written(3) in \<open>auto simp: update_rows_def\<close>)
  qed
qed

lemma create_task_run:
  assumes "create_task spec adopted d = (r, t)"
  shows "(\<forall>e. r = Inl e \<longrightarrow> same_tables d t) \<and>
    (\<forall>i created. r = Inr (i, created) \<longrightarrow>
       (\<exists>x \<in> set (db_tasks t). tk_source_attempt_id (tr_task x) = ts_source_attempt_id spec) \<and>
       (db_tasks t = db_tasks d \<or> (\<exists>row q. db_tasks t = db_tasks d @ [row] \<and> numeric 8 (ts_owned_quantity spec) = Inr q \<and> tr_task row = new_task spec i q)))"
proof -
  obtain q u where q: "with_db (\<lambda>now. create_task_in now spec adopted False) d = (q, u)" by force
  have t: "t = u" and r: "(\<exists>e. r = Inl e \<and> (\<exists>e'. q = Inl e')) \<or> (\<exists>x. r = Inr x \<and> q = Inr x)"
    using assms q by (auto simp: create_task_def tryS_def prog_simps split: sum.splits)
  from q show ?thesis
  proof (cases rule: with_db_cases)
    case (fails e cs)
    then show ?thesis using t r by auto
  next
    case (commits x now cs)
    obtain i created where x: "x = (i, created)" by force
    let ?d = "d\<lparr>db_conns := cs\<rparr>"
    obtain res v where v: "insert_task now spec ?d = (Inr res, v)"
      and rest: "(case res of
         None \<Rightarrow> (\<exists>y. find (\<lambda>r. tk_source_attempt_id (tr_task r) = ts_source_attempt_id spec) (db_tasks v) = Some y) \<and> u = v
       | Some k \<Rightarrow> k = i \<and> (\<exists>y. insert_incident i spec v = (Inr (), y) \<and> adopt_each now i spec adopted y = (Inr (), u)))"
      using commits(3) x unfolding create_task_in_def
      by (elim bindS_InrE) (auto simp: pureS_apply readS_apply ret_apply split: option.splits elim!: bindS_InrE)
    show ?thesis
    proof (cases res)
      case None
      then have "db_tasks u = db_tasks d" "\<exists>y \<in> set (db_tasks u). tk_source_attempt_id (tr_task y) = ts_source_attempt_id spec"
        using v rest by (auto simp: find_Some_iff elim!: insert_task_cases)
      then show ?thesis using t r commits(1) by auto
    next
      case (Some k)
      then obtain y where y: "k = i" "insert_incident i spec v = (Inr (), y)" "adopt_each now i spec adopted y = (Inr (), u)" using rest by auto
      obtain n where n: "numeric 8 (ts_owned_quantity spec) = Inr n" "db_tasks v = db_tasks d @ [\<lparr>tr_task = new_task spec i n, tr_claim_owner = None,
            tr_claim_expires_at = None, tr_created_at = now\<rparr>]"
        using v Some y(1) by (auto simp: insert_task_def Let_def bindE_eq_Inr split: sum.splits if_splits)
      have "db_tasks u = db_tasks v" using insert_incident_Inr[OF y(2)] adopt_each_tasks[OF y(3)] by simp
      then show ?thesis using t r commits(1) x n by auto
    qed
  qed
qed
lemma create_task_consistent: "keeps consistent (create_task spec adopted)"
proof (rule endsI)
  fix d r t assume "consistent d" "create_task spec adopted d = (r, t)"
  then show "consistent t" using perform_ok[of d "Create_task spec adopted"] perform_typed[of d "Create_task spec adopted"]
    by (simp add: consistent_def postgres_store_def)
qed

lemma finish_late_cases:
  assumes "finish_late env a lk ord w = (r, w')"
  obtains (same) "same_tables (lw_db w) (lw_db w')"
    | (recorded) st filled e r' where "attempt_state_from_order ord = Inr (st, filled, e)" "st \<noteq> Att_completed \<or> lk_competitor lk \<noteq> None"
      "record_attempt a ord (lw_db w) = (r', lw_db w')"
    | (flattened) f e where "attempt_state_from_order ord = Inr (Att_completed, Some f, e)" "lk_competitor lk = None"
      "flatten_late env a ord f w = (r, w')"
proof (cases "attempt_state_from_order ord")
  case (Inl e)
  show thesis by (rule same) (use assms Inl in \<open>simp add: finish_late_def prog_simps\<close>)
next
  case (Inr x)
  obtain st filled e where x: "x = (st, filled, e)" by (cases x) auto
  show thesis
  proof (cases "st = Att_completed")
    case False
    then have "on_db (record_attempt a ord) w = (r, w')" using assms Inr x by (simp add: finish_late_def prog_simps)
    then show thesis using recorded[OF Inr[unfolded x]] False on_db_run by blast
  next
    case True
    then obtain f where f: "filled = Some f" "nlt (Num 0) f = Inr True" using attempt_state_completed Inr x by blast
    then have "nle f (Num 0) = Inr False" by (simp add: nle_def)
    then have run: "(if lk_competitor lk \<noteq> None then on_db (record_attempt a ord) else flatten_late env a ord f) w = (r, w')"
      using assms Inr x True f by (simp add: finish_late_def prog_simps split: if_splits)
    show thesis
    proof (cases "lk_competitor lk")
      case None
      then show thesis using flattened[of f e] run Inr x True f by simp
    next
      case (Some c)
      then have "on_db (record_attempt a ord) w = (r, w')" using run by simp
      then show thesis using recorded[OF Inr[unfolded x]] Some on_db_run by blast
    qed
  qed
qed

lemma same_tables_trans: "same_tables d u \<Longrightarrow> same_tables u t \<Longrightarrow> same_tables d t"
  by (auto simp: same_tables_def)

lemma bind_some_run:
  assumes "bindS m (\<lambda>x. ret (Some x)) w = (r, w')"
  obtains q where "m w = (q, w')"
  using assms by (auto simp: bindS_apply ret_apply split: prod.splits sum.splits)

text \<open>Everything a call may do to the tables.\<close>

definition may_flatten :: "late_env \<Rightarrow> order_attempt \<Rightarrow> db \<Rightarrow> bool" where
  "may_flatten env a d \<longleftrightarrow> competitor (lf_trades env) a d = None \<and>
     (\<exists>row. entry_attempt (at_attempt_id a) d = Some row \<and> candidate_status (ar_status row))"

lemma resolve_locked_cases:
  assumes "resolve_locked env a w = (r, w')"
  obtains (same) "same_tables (lw_db w) (lw_db w')"
    | (recorded) ord st filled e d r' where "attempt_state_from_order ord = Inr (st, filled, e)"
      "st \<noteq> Att_completed \<or> competitor (lf_trades env) a (lw_db w) \<noteq> None" "same_tables (lw_db w) d"
      "record_attempt a ord d = (r', lw_db w')"
    | (flattened) ord f e v r' where "may_flatten env a (lw_db w)" "entry_seen env a ord"
      "attempt_state_from_order ord = Inr (Att_completed, Some f, e)" "same_tables (lw_db w) (lw_db v)" "flatten_late env a ord f v = (r', w')"
proof -
  obtain q u where q: "on_db (read_locked (lf_trades env) (lf_exit_params env) a) w = (q, u)" by force
  note read = read_locked_run[OF on_db_run[OF q]]
  consider (stop) "same_tables (lw_db w) (lw_db w')"
    | (go) lk ord where "q = Inr (Some lk)" "candidate_status (lk_status lk)" "look_up (lf_lookup env) (at_client_order_id a) = Some ord"
      "(if is_terminal ord then bindS (finish_late env a lk ord) (\<lambda>x. ret (Some x))
        else bindS (settle_late env a ord lk) (\<lambda>result.
                    case result of
                      None \<Rightarrow> ret None
                    | Some (latest, unconfirmed) \<Rightarrow>
                        if unconfirmed then bindS (on_db (record_attempt a latest)) (\<lambda>x. ret (Some x))
                        else bindS (finish_late env a lk latest) (\<lambda>x. ret (Some x)))) u = (r, w')"
  proof (cases "\<exists>lk ord. q = Inr (Some lk) \<and> candidate_status (lk_status lk) \<and> \<not> (case lk_trade_id lk of None \<Rightarrow> False | Some k \<Rightarrow> k \<noteq> 0) \<and>
      look_up (lf_lookup env) (at_client_order_id a) = Some ord")
    case True
    then obtain lk ord where "q = Inr (Some lk)" "candidate_status (lk_status lk)" "\<not> (case lk_trade_id lk of None \<Rightarrow> False | Some k \<Rightarrow> k \<noteq> 0)"
      "look_up (lf_lookup env) (at_client_order_id a) = Some ord" by blast
    then show thesis using assms q by (intro go[of lk ord]) (simp_all add: resolve_locked_def bindS_apply)
  next
    case False
    then have "w' = u" using assms q
      by (auto simp: resolve_locked_def bindS_apply ret_apply split: sum.splits option.splits if_splits)
    then show thesis using read(1) stop by simp
  qed
  then show thesis
  proof cases
    case stop
    then show thesis by (rule same)
  next
    case (go lk ord)
    note quiet = same and recording = recorded and flattening = flattened
    obtain row where row: "lk_competitor lk = competitor (lf_trades env) a (lw_db w)"
        "entry_attempt (at_attempt_id a) (lw_db w) = Some row" "lk_status lk = ar_status row"
      using read(2)[OF go(1)] by blast
    have may: "may_flatten env a (lw_db w)" if "lk_competitor lk = None"
      unfolding may_flatten_def using that row go(2) by simp
    have finish: thesis if run: "finish_late env a lk o' v = (q', w')" and st': "same_tables (lw_db w) (lw_db v)" and seen: "entry_seen env a o'" for o' v q'
      using run
    proof (cases rule: finish_late_cases)
      case same
      then show thesis using st' same_tables_trans quiet by blast
    next
      case (recorded st filled e r')
      then have "st \<noteq> Att_completed \<or> competitor (lf_trades env) a (lw_db w) \<noteq> None" using row(1) by simp
      then show thesis by (rule recording[OF recorded(1) _ st' recorded(3)])
    next
      case (flattened f e)
      show thesis by (rule flattening[OF may[OF flattened(2)] seen flattened(1) st' flattened(3)])
    qed
    show thesis
    proof (cases "is_terminal ord")
      case True
      then have "bindS (finish_late env a lk ord) (\<lambda>x. ret (Some x)) u = (r, w')" using go(4) by simp
      then obtain q' where fin: "finish_late env a lk ord u = (q', w')" by (rule bind_some_run)
      show thesis by (rule finish[OF fin read(1)]) (use go(3) in \<open>auto simp: entry_seen_def\<close>)
    next
      case False
      obtain q2 v where q2: "settle_late env a ord lk u = (q2, v)" by force
      note settle = settle_late_run[OF q2 go(3)]
      have stv: "same_tables (lw_db w) (lw_db v)" using read(1) settle(1) by simp
      show thesis
      proof (cases "\<exists>latest unconfirmed. q2 = Inr (Some (latest, unconfirmed))")
        case False
        then have "w' = v" using go(4) \<open>\<not> is_terminal ord\<close> q2 by (auto simp: bindS_apply ret_apply split: sum.splits option.splits)
        then show thesis using same stv by simp
      next
        case True
        then obtain latest unconfirmed where l: "q2 = Inr (Some (latest, unconfirmed))" by blast
        note seen = settle(2)[OF l]
        show thesis
        proof (cases unconfirmed)
          case True
          then have "bindS (on_db (record_attempt a latest)) (\<lambda>x. ret (Some x)) v = (r, w')"
            using go(4) \<open>\<not> is_terminal ord\<close> q2 l by (simp add: bindS_apply[of "settle_late env a ord lk"])
          then obtain q3 where "on_db (record_attempt a latest) v = (q3, w')" by (rule bind_some_run)
          then have rec: "record_attempt a latest (lw_db v) = (q3, lw_db w')" by (rule on_db_run)
          show thesis
          proof (cases "attempt_state_from_order latest")
            case (Inl e)
            then have "lw_db w' = lw_db v" using rec by (simp add: record_attempt_def prog_simps)
            then show thesis using same stv by simp
          next
            case (Inr x)
            obtain st filled e where x: "x = (st, filled, e)" by (cases x) auto
            have "st \<noteq> Att_completed" using attempt_state_completed[of latest filled e] Inr x seen True by auto
            then show thesis using recorded[OF Inr[unfolded x] _ stv rec] by blast
          qed
        next
          case False
          then have "bindS (finish_late env a lk latest) (\<lambda>x. ret (Some x)) v = (r, w')"
            using go(4) \<open>\<not> is_terminal ord\<close> q2 l by (simp add: bindS_apply[of "settle_late env a ord lk"])
          then obtain q3 where fin: "finish_late env a lk latest v = (q3, w')" by (rule bind_some_run)
          show thesis by (rule finish[OF fin stv]) (use seen in blast)
        qed
      qed
    qed
  qed
qed
lemma resolve_run:
  assumes "resolve env a w = (r, w')"
  obtains (same) "same_tables (lw_db w) (lw_db w')" | (locked) q where "resolve_locked env a w = (q, w')"
proof (cases "lf_exchange_known env \<and> lf_lock env = Inr True")
  case False
  then have "w' = w" using assms by (cases "lf_lock env") (auto simp: resolve_def prog_simps split: if_splits)
  then show thesis using same by simp
next
  case True
  obtain q u where q: "resolve_locked env a w = (q, u)" by force
  have "w' = u" using assms True q
    by (auto simp: resolve_def prog_simps tryS_def split: sum.splits prod.splits)
  then show thesis using locked q by simp
qed

text \<open>What flattening leaves, wherever it stops.\<close>

lemma flatten_late_run:
  assumes "flatten_late env a ord f w = (r, w')"
  shows "same_tables (lw_db w) (lw_db w') \<or>
    (\<exists>x \<in> set (db_tasks (lw_db w')). tk_source_attempt_id (tr_task x) = at_attempt_id a) \<and>
    (db_tasks (lw_db w') = db_tasks (lw_db w) \<or>
     (\<exists>row i q. db_tasks (lw_db w') = db_tasks (lw_db w) @ [row] \<and> numeric 8 f = Inr q \<and> tr_task row = new_task (late_spec a f) i q))"
proof (cases "bindE (orders_with_prefix (lf_closes env) (close_prefix (at_client_order_id a))) adopt_all")
  case (Inl e)
  then have "w' = w" using assms
    by (auto simp: flatten_late_def prog_simps bindE_eq_Inl)
  then show ?thesis by simp
next
  case (Inr adopted)
  obtain q u where q: "on_db (create_task (late_spec a f) adopted) w = (q, u)" by force
  note task = create_task_run[OF on_db_run[OF q]]
  have spec: "ts_source_attempt_id (late_spec a f) = at_attempt_id a" "ts_owned_quantity (late_spec a f) = f" by (simp_all add: late_spec_def)
  show ?thesis
  proof (cases q)
    case (Inl e)
    then have "w' = u" using assms Inr q by (auto simp: flatten_late_def bindE_eq_Inr pureS_apply bindS_apply)
    then show ?thesis using task Inl by blast
  next
    case q': (Inr x)
    obtain i created where x: "x = (i, created)" by force
    obtain q2 v where q2: "on_db (record_attempt a ord) u = (q2, v)" by force
    have w': "lw_db w' = lw_db v" using assms Inr q q' x q2
      by (auto simp: flatten_late_def bindE_eq_Inr pureS_apply bindS_apply ret_apply alert_def modifyS_apply split: sum.splits if_splits)
    have "db_tasks (lw_db v) = db_tasks (lw_db u)"
      using on_db_run[OF q2] by (rule record_attempt_cases) (auto simp: same_tables_def)
    then show ?thesis using task q' x w' spec by auto
  qed
qed

lemma resolve_consistent:
  assumes "resolve env a w = (r, w')" "consistent (lw_db w)"
  shows "consistent (lw_db w')"
proof -
  let ?C = "\<lambda>w. consistent (lw_db w)"
  have st: "same_tables d t \<Longrightarrow> consistent d \<Longrightarrow> consistent t" for d t by (auto simp: same_tables_def)
  have alerts: "keeps ?C (alert x)" for x by (simp add: ends_def alert_def modifyS_apply)
  have flat: "keeps ?C (flatten_late env a ord f)" for ord f
    unfolding flatten_late_def
    by (auto intro!: keeps_bind keeps_pure keeps_ret on_db_keeps create_task_consistent record_attempt_consistent alerts)
  from assms(1) show ?thesis
  proof (cases rule: resolve_run)
    case same
    then show ?thesis using st assms(2) by blast
  next
    case (locked q)
    then show ?thesis
    proof (cases rule: resolve_locked_cases)
      case same
      then show ?thesis using st assms(2) by blast
    next
      case (recorded ord st' filled e d r')
      then show ?thesis using endsD[OF record_attempt_consistent] st assms(2) by blast
    next
      case (flattened ord f e v r')
      then show ?thesis using endsD[OF flat _ flattened(5)] st assms(2) by blast
    qed
  qed
qed

subsection \<open>Properties\<close>

text \<open>
  C11. Reconciliation flattens only what it has proof for: a call that adds a task found the attempt still unresolved
  and nothing else holding the instrument, saw the entry ended with a fill under its own client order id,
  and the one new task owns exactly that fill, to the eight decimals of the column.
\<close>

theorem late_task_justified:
  assumes "resolve env a w = (r, w')" "db_tasks (lw_db w') \<noteq> db_tasks (lw_db w)"
  shows "may_flatten env a (lw_db w) \<and>
    (\<exists>ord f e row i q. entry_seen env a ord \<and> attempt_state_from_order ord = Inr (Att_completed, Some f, e) \<and> numeric 8 f = Inr q \<and>
       db_tasks (lw_db w') = db_tasks (lw_db w) @ [row] \<and> tr_task row = new_task (late_spec a f) i q)"
  using assms(1)
proof (cases rule: resolve_run)
  case (locked q)
  then show ?thesis
  proof (cases rule: resolve_locked_cases)
    case (recorded ord st filled e d r')
    then show ?thesis using assms(2) by (elim record_attempt_cases) (auto simp: same_tables_def)
  next
    case (flattened ord f e v r')
    have "db_tasks (lw_db v) = db_tasks (lw_db w)" using flattened(4) by (auto simp: same_tables_def)
    then have "\<exists>row i q. db_tasks (lw_db w') = db_tasks (lw_db w) @ [row] \<and> numeric 8 f = Inr q \<and> tr_task row = new_task (late_spec a f) i q"
      using flatten_late_run[OF flattened(5)] assms(2) by (auto simp: same_tables_def)
    then show ?thesis using flattened(1-3) by blast
  qed (use assms(2) in \<open>auto simp: same_tables_def\<close>)
qed (use assms(2) in \<open>auto simp: same_tables_def\<close>)

text \<open>
  C20. A late fill is not forgotten by a crash: whenever a call ends, even by an exception between two writes, the
  attempt is recorded as completed only if a task for it is stored, unless something else held the
  instrument, which leaves it to the operator.
\<close>

theorem late_fill_has_task:
  assumes "resolve env a w = (r, w')" "\<forall>x \<in> set (db_attempts (lw_db w)). ar_id x = at_attempt_id a \<longrightarrow> ar_status x \<noteq> Att_completed"
    and "\<exists>x \<in> set (db_attempts (lw_db w')). ar_id x = at_attempt_id a \<and> ar_status x = Att_completed"
  shows "competitor (lf_trades env) a (lw_db w) \<noteq> None \<or> (\<exists>x \<in> set (db_tasks (lw_db w')). tk_source_attempt_id (tr_task x) = at_attempt_id a)"
proof -
  have quiet: "\<not> same_tables (lw_db w) (lw_db w')" using assms(2,3) by (auto simp: same_tables_def)
  from assms(1) show ?thesis
  proof (cases rule: resolve_run)
    case (locked q)
    then show ?thesis
    proof (cases rule: resolve_locked_cases)
      case (recorded ord st filled e d r')
      have rows: "db_attempts d = db_attempts (lw_db w)" using recorded(3) by (auto simp: same_tables_def)
      from recorded(4) have "st = Att_completed"
      proof (cases rule: record_attempt_cases)
        case same
        then show ?thesis using rows assms(2,3) by (auto simp: same_tables_def)
      next
        case (written st' filled' e' f cs)
        then show ?thesis using recorded(1) rows assms(2,3) by (auto simp: has_id_def split: if_splits)
      qed
      then show ?thesis using recorded(2) by blast
    next
      case (flattened ord f e v r')
      have "same_tables (lw_db w) (lw_db w')" if "same_tables (lw_db v) (lw_db w')" by (rule same_tables_trans[OF flattened(4) that])
      then show ?thesis using flatten_late_run[OF flattened(5)] quiet by blast
    qed (use quiet in blast)
  qed (use quiet in blast)
qed
subsection \<open>Witnesses\<close>

text \<open>An attempt whose submission result stayed unknown; the exchange shows its entry closed with two lots filled.\<close>

definition late_entry :: order where
  "late_entry = sample_active\<lparr>o_status := Some ''closed'', o_amount := PInt 2\<rparr>"

definition late_attempt :: order_attempt where
  "late_attempt =
     \<lparr>at_identity = FullIdentity ''bybit'' ''X/USDT'' ''XUSDT'' ''linear'' ''long'', at_attempt_id = 1, at_base = ''X'',
      at_client_order_id = sample_entry, at_order_id = None, at_status = Att_submission_unknown,
      at_requested_amount = None, at_filled_amount = None, at_trade_id = None\<rparr>"

definition late_row :: attempt_row where
  "late_row = (entry_row (sample_intent ''X'') 1)\<lparr>ar_id := 1, ar_client_order_id := sample_entry, ar_status := Att_submission_unknown\<rparr>"

definition late_start :: late_world where
  "late_start = \<lparr>lw_db = empty_db\<lparr>db_attempts := [late_row], db_next_attempt := 2, db_conns := [(True, 5), (True, 6), (True, 7)]\<rparr>,
     lw_alerted = [], lw_alerts = [], lw_guards = []\<rparr>"

definition late_sample_env :: late_env where
  "late_sample_env =
     \<lparr>lf_exchange_known = True, lf_lock = Inr True, lf_trades = [], lf_exit_params = PNone, lf_lookup = listing_of [late_entry],
      lf_ticker_last = Inr PNone, lf_stops = nothing_listed, lf_first_cover = sample_cover_env, lf_cancel = Inr (), lf_looks = [],
      lf_precise = Inr, lf_closes = nothing_listed, lf_exit = Inr ()\<rparr>"

definition late_end :: late_world where
  "late_end = snd (resolve late_sample_env late_attempt late_start)"

lemma late_runs: "resolve late_sample_env late_attempt late_start = (fst (resolve late_sample_env late_attempt late_start), late_end)"
  by (simp add: late_end_def)

lemma late_end_tasks: "length (db_tasks (lw_db late_end)) = 1 \<and> list_ex (\<lambda>x. ar_id x = 1 \<and> ar_status x = Att_completed) (db_attempts (lw_db late_end))"
  by code_simp

theorem late_task_justified_witness: "may_flatten late_sample_env late_attempt (lw_db late_start)"
proof -
  have "db_tasks (lw_db late_start) = []" by (simp add: late_start_def empty_db_def)
  then have "db_tasks (lw_db late_end) \<noteq> db_tasks (lw_db late_start)" using late_end_tasks by force
  from late_task_justified[OF late_runs this] show ?thesis by blast
qed

theorem late_fill_has_task_witness:
  "\<exists>x \<in> set (db_tasks (lw_db late_end)). tk_source_attempt_id (tr_task x) = 1"
proof -
  have before: "\<forall>x \<in> set (db_attempts (lw_db late_start)). ar_id x = at_attempt_id late_attempt \<longrightarrow> ar_status x \<noteq> Att_completed"
    by (simp add: late_start_def late_row_def)
  have after: "\<exists>x \<in> set (db_attempts (lw_db late_end)). ar_id x = at_attempt_id late_attempt \<and> ar_status x = Att_completed"
    using late_end_tasks by (auto simp: list_ex_iff late_attempt_def)
  have "competitor (lf_trades late_sample_env) late_attempt (lw_db late_start) = None" by code_simp
  then show ?thesis using late_fill_has_task[OF late_runs before after] by (auto simp: late_attempt_def)
qed

end
