(* ===== verification/Stop_Failure.thy ===== *)
theory Stop_Failure
  imports Late_Fill Reconciliation_Worker
begin

text \<open>
  The response when no stop protects a filled entry (\<open>protective_stop.py\<close>, \<open>StopFailureContext\<close> and
  \<open>flatten_after_stop_failure\<close>): entries are blocked, the fill of the exact entry is confirmed, and the
  position is flattened by an emergency close task whose first passes run at once, or by one
  reduce-only close when the database takes no task. It composes the readiness gate, the attempts
  table, the store of emergency close tasks and its executor. The wording of the alert and of the
  returned reason is a value of \<open>flatten_outcome\<close>; delivering an alert never raises.
\<close>

definition INLINE_PASSES :: nat where
  "INLINE_PASSES = 2"

record stop_failure =
  sf_exchange :: string
  sf_base :: string
  sf_symbol :: string
  sf_native_market_id :: "string option"
  sf_market_type :: "string option"
  sf_side :: string
  sf_entry_client_order_id :: string
  sf_attempt_id :: "int option"
  sf_filled_amount :: "pyfloat option"
  sf_task_reason :: string

text \<open>What the call meets: the database setting, the lookups, the replies of the exchange, Redis.\<close>

record failure_env =
  fe_db_url :: bool
  fe_entry_lookup :: order_source
  fe_passes :: "nat \<Rightarrow> pass_env"
  fe_create :: "string \<Rightarrow> pyfloat \<Rightarrow> string option \<Rightarrow> order res"
  fe_close_lookup :: order_source
  fe_delete :: "unit res"

datatype inline_status = Pass pass_result | Pass_failed

datatype flatten_outcome =
    Fill_not_confirmed
  | Another_task_holds
  | Task_is int "inline_status option"
  | Close_also_failed
  | One_close_sent "string option" "string option" bool

text \<open>
  The readiness gate, the emergency close store with the log of the executor, the closes requested
  without a task (side, amount, client order id), the alerts and the \<open>position:opened_at\<close> keys.
\<close>

record failure_world =
  fw_gate :: gate
  fw_close :: "db world"
  fw_direct :: "(string \<times> pyfloat \<times> string option) list"
  fw_alerts :: "(flatten_outcome \<times> bool) list"
  fw_opened_at :: "(string \<times> string) set"

datatype flatten_reason = Force_closed | Close_not_confirmed | No_close_sent

record flatten_reply =
  fr_allowed :: bool
  fr_reason :: flatten_reason
  fr_outcome :: flatten_outcome
  fr_force_closed :: bool
  fr_close_sent :: bool
  fr_task_id :: "int option"

definition on_close :: "(db world, 'a) prog \<Rightarrow> (failure_world, 'a) prog" where
  "on_close m = (\<lambda>w. case m (fw_close w) of (r, c) \<Rightarrow> (r, w\<lparr>fw_close := c\<rparr>))"

subsection \<open>What the entry filled\<close>

definition entry_fill :: "failure_env \<Rightarrow> stop_failure \<Rightarrow> number option res" where
  "entry_fill env ctx =
     (let known = (case sf_filled_amount ctx of None \<Rightarrow> None | Some f \<Rightarrow> if flt (Fin 0) f then Some f else None) in
      case known of
        Some f \<Rightarrow> bindE (decimal_of_val (PFloat f)) (\<lambda>d. Inr (Some d))
      | None \<Rightarrow>
          (case look_up (fe_entry_lookup env) (sf_entry_client_order_id ctx) of
             None \<Rightarrow> Inr None
           | Some entry \<Rightarrow>
               if \<not> is_terminal entry then Inr None
               else case decimal_or_none (o_filled entry) of
                      None \<Rightarrow> Inr None
                    | Some filled \<Rightarrow> bindE (nlt (Num 0) filled) (\<lambda>positive. Inr (if positive then Some filled else None))))"

subsection \<open>Through a durable task\<close>

text \<open>The task to create, when the context and the settings allow one.\<close>

definition task_request :: "failure_env \<Rightarrow> stop_failure \<Rightarrow> number \<Rightarrow> task_spec option" where
  "task_request env ctx owned =
     (case (sf_attempt_id ctx, sf_native_market_id ctx, sf_market_type ctx) of
        (Some a, Some native, Some mtype) \<Rightarrow>
          if fe_db_url env \<and> native \<noteq> [] \<and> mtype \<noteq> [] \<and> is_entry_client_order_id (sf_entry_client_order_id ctx)
          then Some \<lparr>ts_source_attempt_id = a, ts_entry_client_order_id = sf_entry_client_order_id ctx,
                     ts_exchange = sf_exchange ctx, ts_base = sf_base ctx, ts_symbol = sf_symbol ctx,
                     ts_native_market_id = native, ts_market_type = mtype, ts_side = sf_side ctx,
                     ts_owned_quantity = owned, ts_reason = sf_task_reason ctx, ts_trade_id = None\<rparr>
          else None
      | _ \<Rightarrow> None)"

text \<open>The inline passes, under the entry's order lock: a pass that raises ends them, and so does a final status.\<close>

fun inline_passes :: "executor \<Rightarrow> int \<Rightarrow> pass_env list \<Rightarrow> inline_status option \<Rightarrow> (db world, inline_status option) prog" where
  "inline_passes ex i [] st = ret st"
| "inline_passes ex i (env # envs) st =
     bindS (tryS (bindS (run_pass postgres_store ex env i True) (\<lambda>r. ret (Some r))) (\<lambda>_. ret None)) (\<lambda>r.
     case r of
       None \<Rightarrow> ret (Some (case st of None \<Rightarrow> Pass_failed | Some earlier \<Rightarrow> earlier))
     | Some p \<Rightarrow>
         if p \<in> {Ran STATUS_SENDING, Ran STATUS_UNKNOWN} then inline_passes ex i envs (Some (Pass p))
         else ret (Some (Pass p)))"

text \<open>The triples the code returns: a task with its status, a conflicting task, or no task at all.\<close>

datatype task_answer = Through_task int "inline_status option" | Task_conflict | No_task

definition flatten_through_task :: "failure_env \<Rightarrow> executor \<Rightarrow> stop_failure \<Rightarrow> number \<Rightarrow> (db world, task_answer) prog" where
  "flatten_through_task env ex ctx owned =
     (case task_request env ctx owned of
        None \<Rightarrow> ret No_task
      | Some wanted \<Rightarrow>
          bindS (tryS (bindS (in_store (create_task wanted [])) (\<lambda>(i, created). ret (Inr i))) (\<lambda>e. ret (Inl e))) (\<lambda>made.
          case made of
            Inl e \<Rightarrow> ret (if e = RuntimeError ''TaskConflictError'' then Task_conflict else No_task)
          | Inr i \<Rightarrow>
              bindS (inline_passes ex i (map (fe_passes env) [0..<INLINE_PASSES]) None) (\<lambda>st. ret (Through_task i st))))"

subsection \<open>One close without a database\<close>

definition once_id :: "stop_failure \<Rightarrow> string option res" where
  "once_id ctx =
     (if is_entry_client_order_id (sf_entry_client_order_id ctx)
      then bindE (close_client_order_id (sf_entry_client_order_id ctx) 1) (\<lambda>i. Inr (Some i)) else Inr None)"

text \<open>The order as it is known in the end: looked up once when the reply is not terminal.\<close>

definition order_seen :: "failure_env \<Rightarrow> string option \<Rightarrow> order \<Rightarrow> order" where
  "order_seen env cid ord =
     (case cid of
        None \<Rightarrow> ord
      | Some i \<Rightarrow>
          if is_terminal ord then ord
          else case look_up (fe_close_lookup env) i of None \<Rightarrow> ord | Some found \<Rightarrow> found)"

definition filled_whole :: "number \<Rightarrow> order \<Rightarrow> bool res" where
  "filled_whole owned ord =
     bindE (attempt_state_from_order ord) (\<lambda>(st, filled, err).
       if st \<noteq> Att_completed then Inr False
       else case filled of None \<Rightarrow> Inr False | Some f \<Rightarrow> nle owned f)"

definition close_once_without_database ::
  "failure_env \<Rightarrow> stop_failure \<Rightarrow> number \<Rightarrow> (failure_world, bool \<times> bool \<times> flatten_outcome) prog" where
  "close_once_without_database env ctx owned =
     bindS (pureS (once_id ctx)) (\<lambda>cid.
     let side = close_side (sf_side ctx); amount = float_of_number owned in
     bindS (modifyS (\<lambda>w. w\<lparr>fw_direct := fw_direct w @ [(side, amount, cid)]\<rparr>)) (\<lambda>_.
     case fe_create env side amount cid of
       Inl e \<Rightarrow> ret (False, False, Close_also_failed)
     | Inr ord \<Rightarrow>
         let seen = order_seen env cid ord in
         bindS (pureS (filled_whole owned seen)) (\<lambda>confirmed.
         ret (True, confirmed, One_close_sent cid (o_id seen) confirmed))))"

subsection \<open>The whole response\<close>

definition flatten_position ::
  "failure_env \<Rightarrow> executor \<Rightarrow> stop_failure \<Rightarrow> number option \<Rightarrow> (failure_world, int option \<times> bool \<times> bool \<times> flatten_outcome) prog" where
  "flatten_position env ex ctx owned =
     (case owned of
        None \<Rightarrow> ret (None, False, False, Fill_not_confirmed)
      | Some q \<Rightarrow>
          bindS (on_close (flatten_through_task env ex ctx q)) (\<lambda>answer.
          case answer of
            Through_task i st \<Rightarrow>
              ret (Some i, st \<in> {Some (Pass (Ran STATUS_SENDING)), Some (Pass (Ran STATUS_CONFIRMED_FLAT))},
                   st = Some (Pass (Ran STATUS_CONFIRMED_FLAT)), Task_is i st)
          | Task_conflict \<Rightarrow> ret (None, False, False, Another_task_holds)
          | No_task \<Rightarrow>
              bindS (close_once_without_database env ctx q) (\<lambda>(close_sent, force_closed, outcome).
              ret (None, close_sent, force_closed, outcome))))"

definition record_fill :: "failure_env \<Rightarrow> stop_failure \<Rightarrow> number option \<Rightarrow> (db, unit) prog" where
  "record_fill env ctx owned =
     (case (sf_attempt_id ctx, owned) of
        (Some a, Some q) \<Rightarrow> if fe_db_url env then mark_completed a None (Some (float_of_number q)) else ret ()
      | _ \<Rightarrow> ret ())"

definition forget_opened_at :: "failure_env \<Rightarrow> stop_failure \<Rightarrow> (failure_world, unit) prog" where
  "forget_opened_at env ctx =
     bindS (pureS (fe_delete env)) (\<lambda>_.
     modifyS (\<lambda>w. w\<lparr>fw_opened_at := fw_opened_at w - {(sf_exchange ctx, upper (sf_base ctx))}\<rparr>))"

definition flatten_after_stop_failure :: "failure_env \<Rightarrow> executor \<Rightarrow> stop_failure \<Rightarrow> (failure_world, flatten_reply) prog" where
  "flatten_after_stop_failure env ex ctx =
     bindS (modifyS (\<lambda>w. w\<lparr>fw_gate := set_safety_blocker INCIDENT_BLOCKER (fw_gate w)\<rparr>)) (\<lambda>_.
     bindS (pureS (entry_fill env ctx)) (\<lambda>owned.
     bindS (on_close (in_store (record_fill env ctx owned))) (\<lambda>_.
     bindS (flatten_position env ex ctx owned) (\<lambda>(task_id, close_sent, force_closed, outcome).
     bindS (modifyS (\<lambda>w. w\<lparr>fw_alerts := fw_alerts w @ [(outcome, force_closed)]\<rparr>)) (\<lambda>_.
     bindS (if force_closed then forget_opened_at env ctx else ret ()) (\<lambda>_.
     ret \<lparr>fr_allowed = False,
          fr_reason = (if force_closed then Force_closed else if close_sent then Close_not_confirmed else No_close_sent),
          fr_outcome = outcome, fr_force_closed = force_closed, fr_close_sent = close_sent, fr_task_id = task_id\<rparr>))))))"
subsection \<open>Passes over a store\<close>

text \<open>What every operation of the store keeps, a pass keeps.\<close>

lemma in_store_keeps: "keeps I m \<Longrightarrow> keeps (\<lambda>w. I (w_store w)) (in_store m)"
  by (rule endsI) (auto simp: in_store_apply dest: endsD)

lemma act_keeps: "keeps (\<lambda>w. I (w_store w)) (act e)"
  by (rule endsI) (auto simp: act_apply)

lemma run_pass_keeps:
  fixes ops :: "'s store_ops"
  assumes claim: "\<And>i owner secs. keeps I (so_claim ops i owner secs)"
    and load: "\<And>i. keeps I (so_load_closes ops i)" and link: "\<And>task. keeps I (so_link_late_closes ops task)"
    and mark: "\<And>a st oid f. keeps I (so_mark_close ops a st oid f)"
    and intent: "\<And>task cid amount usd csize. keeps I (so_record_close_intent ops task cid amount usd csize)"
    and update: "\<And>task owner st rest k rel. keeps I (so_update_task ops task owner st rest k rel)"
  shows "keeps (\<lambda>w. I (w_store w)) (run_pass ops ex env i lease)"
proof -
  let ?J = "\<lambda>w. I (w_store w)"
  note store = in_store_keeps[OF claim] in_store_keeps[OF load] in_store_keeps[OF link] in_store_keeps[OF mark]
    in_store_keeps[OF intent] in_store_keeps[OF update]
  have set: "keeps ?J (set_status ops ex task st rel)" for task st rel
    unfolding set_status_def by (intro keeps_bind store keeps_ret)
  have manual: "keeps ?J (manual ops ex task)" for task
    unfolding manual_def by (intro keeps_bind set act_keeps keeps_ret)
  have cancel: "keeps ?J (cancel_each env os)" for os
    by (induction os) (auto intro!: keeps_bind act_keeps)
  have after: "keeps ?J (after_send ops ex task a reply)" for task a reply
    by (auto simp: after_send_def send_unknown_def Let_def split: create_reply.splits prod.splits
        intro!: keeps_bind store set manual)
  have send: "keeps ?J (send_close ops ex env task cs pos)" for task cs pos
    by (auto simp: send_close_def intro!: keeps_bind store set manual act_keeps after)
  have position: "keeps ?J (decide_position ops ex env task cs os pos)" for task cs os pos
    by (auto simp: decide_position_def intro!: keeps_bind set manual act_keeps cancel send)
  have stops: "keeps ?J (decide_stops ops ex env task cs os)" for task cs os
    by (auto simp: decide_stops_def Let_def intro!: keeps_bind set position)
  have closes: "keeps ?J (decide_closes ops ex env task cs)" for task cs
    by (auto simp: decide_closes_def split: list.splits intro!: keeps_bind set manual stops)
  have follow: "keeps ?J (follow_close ops env c)" for c
    by (auto simp: follow_close_def split: option.splits prod.splits intro!: keeps_bind store)
  have each: "keeps ?J (follow_each ops env cs)" for cs
    by (induction cs) (auto intro!: keeps_bind follow)
  have pass: "keeps ?J (close_pass ops ex env task)" for task
    by (auto simp: close_pass_def follow_closes_def intro!: keeps_bind store manual each closes)
  show ?thesis
    by (auto simp: run_pass_def split: option.splits intro!: keeps_bind store set pass)
qed

text \<open>The row of a task belongs to one source attempt, whatever is done to it later.\<close>

definition belongs :: "int \<Rightarrow> int \<Rightarrow> db \<Rightarrow> bool" where
  "belongs i a d \<longleftrightarrow> (\<forall>r \<in> set (db_tasks d). tk_id (tr_task r) = i \<longrightarrow> tk_source_attempt_id (tr_task r) = a)"

lemma belongs_conns [simp]: "belongs i a (d\<lparr>db_conns := cs\<rparr>) = belongs i a d"
  by (simp add: belongs_def)

lemma belongs_tasks: "db_tasks t = db_tasks d \<Longrightarrow> belongs i a d \<Longrightarrow> belongs i a t"
  by (simp add: belongs_def)

lemma belongs_claim: "keeps (belongs i a) (claim j owner secs)"
  unfolding claim_def by (rule with_db_keeps) (auto simp: belongs_def split: option.splits if_splits)

lemma belongs_update: "keeps (belongs i a) (update_task k0 owner st rest k rel)"
  unfolding update_task_def
  by (rule with_db_keeps)
    (auto simp: belongs_def updated_row_def Let_def find_Some_iff split: option.splits sum.splits if_splits)

lemma belongs_link: "keeps (belongs i a) (link_late_closes k0)"
  unfolding link_late_closes_def
  by (rule with_db_keeps) (auto intro: belongs_tasks dest: link_closes_in_tasks)

lemma belongs_intent: "keeps (belongs i a) (record_close_intent k0 cid amount usd csize)"
  unfolding record_close_intent_def
  by (rule with_db_keeps) (auto intro: belongs_tasks dest: insert_attempt_tasks)

lemma belongs_mark: "keeps (belongs i a) (mark_close j st oid f)"
  unfolding mark_close_def
  by (rule with_db_keeps) (auto simp: belongs_def Let_def split: sum.splits)

lemma belongs_pass: "keeps (\<lambda>w. belongs i a (w_store w)) (run_pass postgres_store ex env j lease)"
  by (rule run_pass_keeps) (simp_all add: postgres_store_def belongs_claim belongs_update belongs_link belongs_intent
      belongs_mark load_closes_def with_db_read)

lemma belongs_created:
  assumes "db_ok d" "create_task wanted [] d = (Inr (i, created), t)"
  shows "belongs i (ts_source_attempt_id wanted) t"
proof -
  have "with_db (\<lambda>now. create_task_in now wanted [] False) d = (Inr (i, created), t)"
    using assms(2) by (auto simp: create_task_def tryS_def pureS_def split: prod.splits sum.splits)
  then show ?thesis
  proof (cases rule: with_db_cases)
    case (commits x now cs)
    let ?d = "d\<lparr>db_conns := cs\<rparr>"
    have x: "x = (i, created)" using commits(1) by simp
    obtain res u where u: "insert_task now wanted ?d = (Inr res, u)"
      and rest: "(case res of
          None \<Rightarrow> t = u \<and> (\<exists>r. find (\<lambda>r. tk_source_attempt_id (tr_task r) = ts_source_attempt_id wanted) (db_tasks u) = Some r \<and> tk_id (tr_task r) = i)
        | Some k \<Rightarrow> k = i \<and> insert_incident i wanted u = (Inr (), t))"
      using commits(3) x unfolding create_task_in_def
      by (elim bindS_InrE) (auto simp: pureS_apply readS_apply ret_apply split: option.splits elim!: bindS_InrE)
    have ok: "tasks_ok d" using assms(1) by (simp add: db_ok_def)
    show ?thesis
    proof (cases res)
      case None
      then obtain r where f: "find (\<lambda>r. tk_source_attempt_id (tr_task r) = ts_source_attempt_id wanted) (db_tasks d) = Some r"
          "tk_id (tr_task r) = i" and t: "db_tasks t = db_tasks d"
        using u rest by (auto elim!: insert_task_cases)
      then have r: "r \<in> set (db_tasks d)" "tk_source_attempt_id (tr_task r) = ts_source_attempt_id wanted" "tk_id (tr_task r) = i"
        by (auto simp: find_Some_iff)
      show ?thesis unfolding belongs_def t
      proof (intro ballI impI)
        fix q assume q: "q \<in> set (db_tasks d)" "tk_id (tr_task q) = i"
        show "tk_source_attempt_id (tr_task q) = ts_source_attempt_id wanted"
          using task_by_id_unique[OF ok q] task_by_id_unique[OF ok r(1,3)] r(2) by simp
      qed
    next
      case (Some k)
      obtain n where n: "db_next_task d = i" "db_tasks u = db_tasks d @ [\<lparr>tr_task = new_task wanted i n, tr_claim_owner = None,
            tr_claim_expires_at = None, tr_created_at = now\<rparr>]"
        using u Some rest by (auto simp: insert_task_def Let_def bindE_eq_Inr split: sum.splits if_splits)
      have "db_tasks t = db_tasks u" using insert_incident_Inr rest Some by auto
      moreover have "\<forall>q \<in> set (db_tasks d). tk_id (tr_task q) < i" using ok n(1) by (auto simp: tasks_ok_def task_ids_def)
      ultimately show ?thesis using n(2) by (auto simp: belongs_def new_task_def)
    qed
  qed simp
qed

subsection \<open>The inline passes\<close>

text \<open>An order of a pass over the task \<open>i\<close> of attempt \<open>a\<close>, and a position that such a pass proved flat.\<close>

definition task_send :: "executor \<Rightarrow> pass_env set \<Rightarrow> int \<Rightarrow> int \<Rightarrow> effect \<times> db \<Rightarrow> bool" where
  "task_send ex envs i a x \<longleftrightarrow>
     (\<exists>env \<in> envs. \<exists>t. tk_id t = i \<and> tk_source_attempt_id t = a \<and> justified closes_of task_state held_by (ex_owner ex) env t x)"

definition task_flat :: "pass_env set \<Rightarrow> int \<Rightarrow> int \<Rightarrow> db \<Rightarrow> bool" where
  "task_flat envs i a d \<longleftrightarrow>
     (\<exists>env \<in> envs. \<exists>t. tk_id t = i \<and> tk_source_attempt_id t = a \<and> flat_proven closes_of task_state env t d)"

lemma task_send_mono: "task_send ex E i a x \<Longrightarrow> E \<subseteq> E' \<Longrightarrow> task_send ex E' i a x"
  unfolding task_send_def by blast

lemma task_flat_mono: "task_flat E i a d \<Longrightarrow> E \<subseteq> E' \<Longrightarrow> task_flat E' i a d"
  unfolding task_flat_def by blast

lemma claim_belongs:
  assumes "claim i owner secs d = (Inr (Some t), d')" "belongs i a d"
  shows "tk_source_attempt_id t = a"
  using assms(1) unfolding claim_def
proof (cases rule: with_db_cases)
  case (commits x now cs)
  then show ?thesis using assms(2) by (auto simp: belongs_def find_Some_iff split: option.splits)
qed simp

lemma one_pass:
  assumes "db_ok (w_store w)" "belongs i a (w_store w)" "run_pass postgres_store ex env i True w = (r, w')"
  shows "db_ok (w_store w') \<and> belongs i a (w_store w') \<and>
    (\<exists>xs. sent w' = sent w @ xs \<and> length xs \<le> 1 \<and> (\<forall>x \<in> set xs. task_send ex {env} i a x)) \<and>
    (r = Inr (Ran STATUS_CONFIRMED_FLAT) \<longrightarrow> task_flat {env} i a (w_store w'))"
proof (intro conjI)
  note sends = pg.run_pass_sends[OF assms(1,3)]
  have src: "tk_source_attempt_id t = a" if "so_claim postgres_store i (ex_owner ex) (ex_claim_seconds ex) (w_store w) = (Inr (Some t), d)" for t d
    using claim_belongs[OF _ assms(2)] that by (simp add: postgres_store_def)
  show "db_ok (w_store w')" using sends by blast
  show "belongs i a (w_store w')" using endsD[OF belongs_pass assms(2,3)] .
  show "\<exists>xs. sent w' = sent w @ xs \<and> length xs \<le> 1 \<and> (\<forall>x \<in> set xs. task_send ex {env} i a x)"
    using sends
  proof (elim conjE disjE exE)
    fix t d x assume "so_claim postgres_store i (ex_owner ex) (ex_claim_seconds ex) (w_store w) = (Inr (Some t), d)" "tk_id t = i"
      "sent w' = sent w @ [x]" "justified closes_of task_state held_by (ex_owner ex) env t x"
    then show ?thesis using src by (intro exI[of _ "[x]"]) (auto simp: task_send_def)
  qed simp
  show "r = Inr (Ran STATUS_CONFIRMED_FLAT) \<longrightarrow> task_flat {env} i a (w_store w')"
  proof
    assume "r = Inr (Ran STATUS_CONFIRMED_FLAT)"
    from pg.run_pass_flat[OF assms(1) assms(3)[unfolded this]] src show "task_flat {env} i a (w_store w')"
      by (auto simp: task_flat_def)
  qed
qed

lemma inline_passes_run:
  assumes "db_ok (w_store w)" "belongs i a (w_store w)" "inline_passes ex i envs st w = (r, w')"
  shows "\<exists>st'. r = Inr st' \<and> db_ok (w_store w') \<and>
    (\<exists>xs. sent w' = sent w @ xs \<and> length xs \<le> length envs \<and> (\<forall>x \<in> set xs. task_send ex (set envs) i a x)) \<and>
    (st' = Some (Pass (Ran STATUS_CONFIRMED_FLAT)) \<longrightarrow> st = st' \<or> task_flat (set envs) i a (w_store w'))"
  using assms
proof (induction envs arbitrary: st w)
  case Nil
  then show ?case by (auto simp: ret_apply)
next
  case (Cons env envs)
  obtain q u where q: "run_pass postgres_store ex env i True w = (q, u)" by force
  note one = one_pass[OF Cons.prems(1,2) q]
  obtain xs where xs: "sent u = sent w @ xs" "length xs \<le> 1" "\<forall>x \<in> set xs. task_send ex {env} i a x" using one by blast
  have mono: "\<forall>x \<in> set xs. task_send ex (set (env # envs)) i a x" using xs(3) by (auto intro: task_send_mono)
  show ?case
  proof (cases "q = Inr (Ran STATUS_SENDING) \<or> q = Inr (Ran STATUS_UNKNOWN)")
    case True
    then obtain p where p: "q = Inr p" "p \<in> {Ran STATUS_SENDING, Ran STATUS_UNKNOWN}" by auto
    have run: "inline_passes ex i envs (Some (Pass p)) u = (r, w')"
      using Cons.prems(3) q p by (auto simp: prog_simps tryS_def)
    from Cons.IH[OF _ _ run] one obtain st' ys where ih: "r = Inr st'" "db_ok (w_store w')" "sent w' = sent u @ ys"
      "length ys \<le> length envs" "\<forall>x \<in> set ys. task_send ex (set envs) i a x"
      "st' = Some (Pass (Ran STATUS_CONFIRMED_FLAT)) \<longrightarrow> Some (Pass p) = st' \<or> task_flat (set envs) i a (w_store w')" by blast
    have "\<forall>x \<in> set ys. task_send ex (set (env # envs)) i a x" using ih(5) by (auto intro: task_send_mono)
    then have "\<exists>zs. sent w' = sent w @ zs \<and> length zs \<le> length (env # envs) \<and> (\<forall>x \<in> set zs. task_send ex (set (env # envs)) i a x)"
      using xs ih(3,4) mono by (intro exI[of _ "xs @ ys"]) auto
    moreover have "task_flat (set (env # envs)) i a (w_store w')" if "st' = Some (Pass (Ran STATUS_CONFIRMED_FLAT))"
      using ih(6) that p(2) by (auto intro: task_flat_mono)
    ultimately show ?thesis using ih(1,2) by blast
  next
    case False
    have w': "w' = u" and r: "r = Inr (Some (case q of Inl _ \<Rightarrow> (case st of None \<Rightarrow> Pass_failed | Some e \<Rightarrow> e) | Inr p \<Rightarrow> Pass p))"
      using Cons.prems(3) q False by (auto simp: prog_simps tryS_def split: sum.splits)
    have "task_flat (set (env # envs)) i a (w_store w')" if "q = Inr (Ran STATUS_CONFIRMED_FLAT)"
      using one that w' by (auto intro: task_flat_mono)
    then have "st = Some (Pass (Ran STATUS_CONFIRMED_FLAT)) \<or> task_flat (set (env # envs)) i a (w_store w')"
      if "r = Inr (Some (Pass (Ran STATUS_CONFIRMED_FLAT)))" using r that by (auto split: sum.splits option.splits)
    moreover have "\<exists>zs. sent w' = sent w @ zs \<and> length zs \<le> length (env # envs) \<and> (\<forall>x \<in> set zs. task_send ex (set (env # envs)) i a x)"
      using xs mono w' by (intro exI[of _ xs]) auto
    ultimately show ?thesis using r w' one by auto
  qed
qed

subsection \<open>What the response may send and report\<close>

definition inline_envs :: "failure_env \<Rightarrow> pass_env set" where
  "inline_envs env = fe_passes env ` {0..<INLINE_PASSES}"

lemma on_close_apply: "on_close m w = (r, w') \<longleftrightarrow> (\<exists>c. m (fw_close w) = (r, c) \<and> w' = w\<lparr>fw_close := c\<rparr>)"
  by (auto simp: on_close_def split: prod.splits)

lemma task_request_attempt: "task_request env ctx q = Some wanted \<Longrightarrow> sf_attempt_id ctx = Some (ts_source_attempt_id wanted)"
  by (auto simp: task_request_def split: option.splits if_splits)

lemma through_task_run:
  assumes ok: "consistent (w_store w)" and run: "flatten_through_task env ex ctx q w = (r, w')"
  obtains (task) i st a xs where "r = Inr (Through_task i st)" "sf_attempt_id ctx = Some a" "sent w' = sent w @ xs"
      "length xs \<le> INLINE_PASSES" "\<forall>x \<in> set xs. task_send ex (inline_envs env) i a x"
      "st = Some (Pass (Ran STATUS_CONFIRMED_FLAT)) \<Longrightarrow> task_flat (inline_envs env) i a (w_store w')"
    | (none) ans where "r = Inr ans" "ans \<in> {Task_conflict, No_task}" "sent w' = sent w" "db_tasks (w_store w') = db_tasks (w_store w)"
proof (cases "task_request env ctx q")
  case None
  then show thesis using run none[of No_task] by (auto simp: flatten_through_task_def ret_apply)
next
  case (Some wanted)
  obtain c t where c: "create_task wanted [] (w_store w) = (c, t)" by force
  show thesis
  proof (cases c)
    case (Inl e)
    have "db_tasks t = db_tasks (w_store w)" using create_task_run[OF c] Inl by (auto simp: same_tables_def)
    then show thesis using run none Some c Inl
      by (auto simp: flatten_through_task_def prog_simps tryS_def in_store_def split: if_splits)
  next
    case (Inr ic)
    obtain i created where ic: "ic = (i, created)" by force
    let ?w = "w\<lparr>w_store := t\<rparr>" and ?envs = "map (fe_passes env) [0..<INLINE_PASSES]"
    obtain p u where p: "inline_passes ex i ?envs None ?w = (p, u)" by force
    have db: "db_ok (w_store ?w)" using endsD[OF create_task_consistent ok c] by (simp add: consistent_def)
    have bel: "belongs i (ts_source_attempt_id wanted) (w_store ?w)"
      using belongs_created[of "w_store w" wanted i created t] c ok Inr ic by (simp add: consistent_def)
    from inline_passes_run[OF db bel p] obtain st xs where *: "p = Inr st" "sent u = sent w @ xs" "length xs \<le> INLINE_PASSES"
      "\<forall>x \<in> set xs. task_send ex (inline_envs env) i (ts_source_attempt_id wanted) x"
      "st = Some (Pass (Ran STATUS_CONFIRMED_FLAT)) \<longrightarrow> task_flat (inline_envs env) i (ts_source_attempt_id wanted) (w_store u)"
      by (auto simp: inline_envs_def)
    have "r = Inr (Through_task i st)" "w' = u" using run Some c Inr ic p *(1)
      by (auto simp: flatten_through_task_def prog_simps tryS_def in_store_def)
    then show thesis using task[of i st "ts_source_attempt_id wanted" xs] * task_request_attempt[OF Some] by blast
  qed
qed

text \<open>
  What confirms the fill of the entry: the positive amount the entry path already knows, or the entry
  itself, found under its own id, ended and with a positive fill.
\<close>

definition fill_confirmed :: "failure_env \<Rightarrow> stop_failure \<Rightarrow> number \<Rightarrow> bool" where
  "fill_confirmed env ctx q \<longleftrightarrow>
     (\<exists>f. sf_filled_amount ctx = Some f \<and> flt (Fin 0) f \<and> decimal_of_val (PFloat f) = Inr q) \<or>
     (\<exists>entry. look_up (fe_entry_lookup env) (sf_entry_client_order_id ctx) = Some entry \<and> is_terminal entry \<and>
        client_order_id entry = Some (sf_entry_client_order_id ctx) \<and>
        decimal_or_none (o_filled entry) = Some q \<and> nlt (Num 0) q = Inr True)"

lemma entry_fill_confirmed: "entry_fill env ctx = Inr (Some q) \<Longrightarrow> fill_confirmed env ctx q"
  using look_up_id[of "fe_entry_lookup env" "sf_entry_client_order_id ctx"]
  by (auto simp: entry_fill_def fill_confirmed_def Let_def bindE_eq_Inr split: option.splits if_splits)

text \<open>The one close that is allowed without a task, and what proves that it closed the position.\<close>

definition once_send :: "failure_env \<Rightarrow> stop_failure \<Rightarrow> string \<times> pyfloat \<times> string option \<Rightarrow> bool" where
  "once_send env ctx x \<longleftrightarrow>
     (\<exists>q cid. fill_confirmed env ctx q \<and> once_id ctx = Inr cid \<and> x = (close_side (sf_side ctx), float_of_number q, cid))"

definition once_flat :: "failure_env \<Rightarrow> stop_failure \<Rightarrow> bool" where
  "once_flat env ctx \<longleftrightarrow>
     (\<exists>q cid ord f err. fill_confirmed env ctx q \<and> once_id ctx = Inr cid \<and>
        fe_create env (close_side (sf_side ctx)) (float_of_number q) cid = Inr ord \<and>
        attempt_state_from_order (order_seen env cid ord) = Inr (Att_completed, Some f, err) \<and> nle q f = Inr True)"

lemma filled_whole_True:
  "filled_whole q ord = Inr True \<Longrightarrow> \<exists>f err. attempt_state_from_order ord = Inr (Att_completed, Some f, err) \<and> nle q f = Inr True"
  by (auto simp: filled_whole_def bindE_eq_Inr split: if_splits option.splits)

lemma close_once_run:
  assumes "close_once_without_database env ctx q w = (r, w')" "fill_confirmed env ctx q"
  shows "fw_gate w' = fw_gate w \<and> fw_close w' = fw_close w \<and> fw_opened_at w' = fw_opened_at w \<and>
    (\<exists>ds. fw_direct w' = fw_direct w @ ds \<and> length ds \<le> 1 \<and> (\<forall>x \<in> set ds. once_send env ctx x)) \<and>
    (\<forall>sent_one forced outcome. r = Inr (sent_one, forced, outcome) \<and> forced \<longrightarrow> sent_one \<and> once_flat env ctx)"
  using assms
  by (auto simp: close_once_without_database_def prog_simps Let_def once_send_def once_flat_def split: sum.splits dest!: filled_whole_True) blast

text \<open>The orders that a run adds: those of a task or the single close, never both.\<close>

definition adds_owned :: "failure_env \<Rightarrow> executor \<Rightarrow> stop_failure \<Rightarrow> failure_world \<Rightarrow> failure_world \<Rightarrow> bool" where
  "adds_owned env ex ctx w w' \<longleftrightarrow>
     (\<exists>xs ds. sent (fw_close w') = sent (fw_close w) @ xs \<and> fw_direct w' = fw_direct w @ ds \<and>
        (xs = [] \<or> ds = []) \<and> length xs \<le> INLINE_PASSES \<and> length ds \<le> 1 \<and>
        (xs \<noteq> [] \<longrightarrow> (\<exists>i a q. sf_attempt_id ctx = Some a \<and> fill_confirmed env ctx q \<and>
           (\<forall>x \<in> set xs. task_send ex (inline_envs env) i a x))) \<and>
        (ds \<noteq> [] \<longrightarrow> db_tasks (w_store (fw_close w')) = db_tasks (w_store (fw_close w)) \<and> (\<forall>x \<in> set ds. once_send env ctx x)))"

definition flat_shown :: "failure_env \<Rightarrow> stop_failure \<Rightarrow> int option \<Rightarrow> db \<Rightarrow> bool" where
  "flat_shown env ctx task_id d \<longleftrightarrow>
     (case task_id of
        Some i \<Rightarrow> (\<exists>a. sf_attempt_id ctx = Some a \<and> task_flat (inline_envs env) i a d)
      | None \<Rightarrow> once_flat env ctx)"

lemma adds_nothing: "sent (fw_close w') = sent (fw_close w) \<Longrightarrow> fw_direct w' = fw_direct w \<Longrightarrow> adds_owned env ex ctx w w'"
  by (simp add: adds_owned_def)

lemma flatten_position_run:
  assumes ok: "consistent (w_store (fw_close w))" and fill: "entry_fill env ctx = Inr owned"
    and run: "flatten_position env ex ctx owned w = (r, w')"
  shows "fw_gate w' = fw_gate w \<and> fw_opened_at w' = fw_opened_at w \<and> adds_owned env ex ctx w w' \<and>
    (\<forall>i sent_one forced outcome. r = Inr (i, sent_one, forced, outcome) \<and> forced \<longrightarrow> sent_one \<and> flat_shown env ctx i (w_store (fw_close w')))"
proof (cases owned)
  case None
  then show ?thesis using run by (auto simp: flatten_position_def ret_apply adds_nothing)
next
  case (Some q)
  have conf: "fill_confirmed env ctx q" using entry_fill_confirmed fill Some by simp
  obtain p c where p: "flatten_through_task env ex ctx q (fw_close w) = (p, c)" by force
  let ?w = "w\<lparr>fw_close := c\<rparr>"
  from ok p show ?thesis
  proof (cases rule: through_task_run)
    case (task i st a xs)
    have "w' = ?w" and r: "r = Inr (Some i, st \<in> {Some (Pass (Ran STATUS_SENDING)), Some (Pass (Ran STATUS_CONFIRMED_FLAT))},
        st = Some (Pass (Ran STATUS_CONFIRMED_FLAT)), Task_is i st)"
      using run Some p task(1) by (auto simp: flatten_position_def prog_simps on_close_def)
    then show ?thesis using task conf by (auto simp: adds_owned_def flat_shown_def)
  next
    case (none ans)
    show ?thesis
    proof (cases ans)
      case Task_conflict
      then show ?thesis using run Some p none by (auto simp: flatten_position_def prog_simps on_close_def adds_nothing)
    next
      case No_task
      obtain o' v where o': "close_once_without_database env ctx q ?w = (o', v)" by force
      have w': "w' = v" and r: "r = (case o' of Inl e \<Rightarrow> Inl e | Inr (s, f, out) \<Rightarrow> Inr (None, s, f, out))"
        using run Some p none(1) No_task o' by (auto simp: flatten_position_def prog_simps on_close_def split: sum.splits prod.splits)
      note once = close_once_run[OF o' conf]
      from once none(3,4) show ?thesis using w' r
        by (auto simp: adds_owned_def flat_shown_def split: sum.splits)
    qed (use none in auto)
  qed
qed

lemma record_fill_run:
  assumes "record_fill env ctx owned d = (r, d')"
  shows "(\<exists>u. r = Inr u) \<and> db_tasks d' = db_tasks d \<and> (consistent d \<longrightarrow> consistent d')"
proof (cases "\<exists>a q. sf_attempt_id ctx = Some a \<and> owned = Some q \<and> fe_db_url env")
  case True
  then obtain a q where "mark_completed a None (Some (float_of_number q)) d = (r, d')"
    using assms by (auto simp: record_fill_def)
  moreover from this have "(\<exists>u. r = Inr u) \<and> db_tasks d' = db_tasks d"
    by (auto simp: mark_completed_def tryS_def ret_apply stored_float_def update_rows_def
        split: sum.splits prod.splits elim!: with_db_cases bindS_InrE)
  ultimately show ?thesis using endsD[OF marks_consistent(2)] by blast
next
  case False
  then show ?thesis using assms by (auto simp: record_fill_def ret_apply split: option.splits if_splits)
qed

text \<open>After the first step nothing touches the gate.\<close>

lemma flatten_gate:
  assumes "flatten_after_stop_failure env ex ctx w = (r, w')"
  shows "fw_gate w' = set_safety_blocker INCIDENT_BLOCKER (fw_gate w)"
proof -
  let ?g = "set_safety_blocker INCIDENT_BLOCKER (fw_gate w)"
  let ?G = "\<lambda>u. fw_gate u = ?g"
  have close: "keeps ?G (on_close m)" for m :: "(db world, 'x) prog"
    by (rule endsI) (auto simp: on_close_apply)
  have change: "keeps ?G (modifyS h)" if "\<And>u. fw_gate (h u) = fw_gate u" for h
    using that by (auto simp: ends_def modifyS_def)
  have once: "keeps ?G (close_once_without_database env ctx q)" for q
    unfolding close_once_without_database_def Let_def
    by (auto intro!: keeps_bind change split: sum.splits)
  have position: "keeps ?G (flatten_position env ex ctx owned)" for owned
    unfolding flatten_position_def
    by (auto intro!: keeps_bind close once split: option.splits task_answer.splits)
  have rest: "keeps ?G (bindS (pureS (entry_fill env ctx)) (\<lambda>owned.
     bindS (on_close (in_store (record_fill env ctx owned))) (\<lambda>_.
     bindS (flatten_position env ex ctx owned) (\<lambda>(task_id, close_sent, force_closed, outcome).
     bindS (modifyS (\<lambda>w. w\<lparr>fw_alerts := fw_alerts w @ [(outcome, force_closed)]\<rparr>)) (\<lambda>_.
     bindS (if force_closed then forget_opened_at env ctx else ret ()) (\<lambda>_.
     ret \<lparr>fr_allowed = False,
          fr_reason = (if force_closed then Force_closed else if close_sent then Close_not_confirmed else No_close_sent),
          fr_outcome = outcome, fr_force_closed = force_closed, fr_close_sent = close_sent, fr_task_id = task_id\<rparr>))))))"
    by (auto simp: forget_opened_at_def intro!: keeps_bind close position change split: prod.splits)
  show ?thesis
    using endsD[OF rest, of "w\<lparr>fw_gate := ?g\<rparr>"] assms by (simp add: flatten_after_stop_failure_def bindS_def[of "modifyS _"] modifyS_apply)
qed

lemma flatten_run:
  assumes ok: "consistent (w_store (fw_close w))" and run: "flatten_after_stop_failure env ex ctx w = (r, w')"
  shows "adds_owned env ex ctx w w' \<and>
    (\<forall>reply. r = Inr reply \<longrightarrow> \<not> fr_allowed reply \<and>
       (fr_force_closed reply \<longrightarrow> fr_close_sent reply \<and> flat_shown env ctx (fr_task_id reply) (w_store (fw_close w'))) \<and>
       fw_opened_at w' = (if fr_force_closed reply then fw_opened_at w - {(sf_exchange ctx, upper (sf_base ctx))} else fw_opened_at w))"
proof (cases "entry_fill env ctx")
  case (Inl e)
  then show ?thesis using run by (auto simp: flatten_after_stop_failure_def prog_simps adds_owned_def)
next
  case (Inr owned)
  let ?w1 = "w\<lparr>fw_gate := set_safety_blocker INCIDENT_BLOCKER (fw_gate w)\<rparr>"
  obtain u d where d: "record_fill env ctx owned (w_store (fw_close w)) = (u, d)" by force
  obtain v where u: "u = Inr v" and tasks: "db_tasks d = db_tasks (w_store (fw_close w))" and cons: "consistent d"
    using record_fill_run[OF d] ok by blast
  let ?w2 = "?w1\<lparr>fw_close := (fw_close w)\<lparr>w_store := d\<rparr>\<rparr>"
  obtain p w3 where p: "flatten_position env ex ctx owned ?w2 = (p, w3)" by force
  have pos: "fw_gate w3 = fw_gate ?w2 \<and> fw_opened_at w3 = fw_opened_at w \<and> adds_owned env ex ctx ?w2 w3 \<and>
    (\<forall>i sent_one forced outcome. p = Inr (i, sent_one, forced, outcome) \<and> forced \<longrightarrow> sent_one \<and> flat_shown env ctx i (w_store (fw_close w3)))"
    using flatten_position_run[OF _ Inr p] cons by (simp del: split_paired_All; blast)
  have adds: "adds_owned env ex ctx w w'" if "fw_close w' = fw_close w3" "fw_direct w' = fw_direct w3"
    using pos that tasks by (simp add: adds_owned_def)
  show ?thesis
  proof (cases p)
    case (Inl e)
    then have "w' = w3" "r = Inl e" using run Inr d u p
      by (auto simp: flatten_after_stop_failure_def prog_simps on_close_def in_store_def)
    then show ?thesis using pos adds by simp
  next
    case (Inr x)
    obtain i s f out where x: "x = (i, s, f, out)" by (cases x)
    note run = run[unfolded flatten_after_stop_failure_def]
    have w': "fw_close w' = fw_close w3" "fw_direct w' = fw_direct w3" "fw_gate w' = fw_gate w3"
      and r: "\<forall>reply. r = Inr reply \<longrightarrow> \<not> fr_allowed reply \<and> fr_force_closed reply = f \<and> fr_close_sent reply = s \<and> fr_task_id reply = i \<and>
        fw_opened_at w' = (if f then fw_opened_at w3 - {(sf_exchange ctx, upper (sf_base ctx))} else fw_opened_at w3)"
      using run \<open>entry_fill env ctx = Inr owned\<close> d u p Inr x
      by (auto simp: prog_simps on_close_def in_store_def forget_opened_at_def split: if_splits sum.splits)
    show ?thesis using pos adds[OF w'(1,2)] w' r Inr x by auto
  qed
qed

subsection \<open>Properties\<close>

text \<open>
  C12. Whatever the response to a stop failure meets, and also when it raises, entries are blocked
  afterwards: the gate is closed and names the incident blocker.
\<close>

theorem flatten_blocks_entries:
  assumes "gate_inv (fw_gate w)" "flatten_after_stop_failure env ex ctx w = (r, w')"
  shows "\<not> gate_open (fw_gate w') \<and> INCIDENT_BLOCKER \<in> safety_blockers (fw_gate w') \<and> gate_inv (fw_gate w')"
  using flatten_gate[OF assms(2)] gate_inv_step[OF assms(1), of "SetBlocker INCIDENT_BLOCKER"]
  by (auto simp: gate_inv_def should_be_open_def set_safety_blocker_def)

text \<open>
  C8. The response to a stop failure sends only what the entry owns: at most two orders of one
  emergency close task of the entry's attempt, each justified for that task, or, with no task
  created, at most one close of the confirmed fill under the entry's first close id. It never sends
  both, and it sends nothing when the fill of the entry is not confirmed.
\<close>

theorem flatten_sends_owned:
  assumes "consistent (w_store (fw_close w))" "flatten_after_stop_failure env ex ctx w = (r, w')"
  shows "adds_owned env ex ctx w w'"
  using flatten_run[OF assms] by blast

text \<open>
  C10. The response to a stop failure never allows the entry, and reports the position closed only on
  proof: an inline pass over the task of the attempt proved it flat, or the single close is terminal
  and filled the whole confirmed quantity. Only then is the position's opening time forgotten.
\<close>

theorem force_closed_proven:
  assumes "consistent (w_store (fw_close w))" "flatten_after_stop_failure env ex ctx w = (Inr reply, w')"
  shows "\<not> fr_allowed reply \<and>
    (fr_force_closed reply \<longrightarrow> fr_close_sent reply \<and> flat_shown env ctx (fr_task_id reply) (w_store (fw_close w'))) \<and>
    fw_opened_at w' = (if fr_force_closed reply then fw_opened_at w - {(sf_exchange ctx, upper (sf_base ctx))} else fw_opened_at w)"
  using flatten_run[OF assms] by blast

subsection \<open>Witnesses\<close>

text \<open>An entry of two contracts without a stop: the first inline pass sends the close, the second finds the position flat.\<close>

definition failure_sample :: stop_failure where
  "failure_sample =
     \<lparr>sf_exchange = ''bybit'', sf_base = ''x'', sf_symbol = ''X/USDT'', sf_native_market_id = Some ''XUSDT'',
      sf_market_type = Some ''swap'', sf_side = ''long'', sf_entry_client_order_id = sample_entry, sf_attempt_id = Some 1,
      sf_filled_amount = Some (Fin 2), sf_task_reason = ''stop_placement_failed''\<rparr>"

definition failure_sample_env :: failure_env where
  "failure_sample_env =
     \<lparr>fe_db_url = True, fe_entry_lookup = no_orders, fe_passes = (\<lambda>n. Emergency_Safety.sample_env (if n = 0 then [Emergency_Safety.sample_position] else [])),
      fe_create = (\<lambda>_ _ _. Inr sample_close_order), fe_close_lookup = no_orders, fe_delete = Inr ()\<rparr>"

definition failure_start :: failure_world where
  "failure_start =
     \<lparr>fw_gate = gate_init {}, fw_close = \<lparr>w_store = sample_empty_db, w_log = [], w_runs = 0\<rparr>, fw_direct = [], fw_alerts = [],
      fw_opened_at = {(''bybit'', ''X'')}\<rparr>"

definition failure_end :: failure_world where
  "failure_end = snd (flatten_after_stop_failure failure_sample_env sample_executor failure_sample failure_start)"

definition failure_reply :: flatten_reply where
  "failure_reply =
     \<lparr>fr_allowed = False, fr_reason = Force_closed, fr_outcome = Task_is 1 (Some (Pass (Ran STATUS_CONFIRMED_FLAT))),
      fr_force_closed = True, fr_close_sent = True, fr_task_id = Some 1\<rparr>"

lemma failure_runs: "flatten_after_stop_failure failure_sample_env sample_executor failure_sample failure_start = (Inr failure_reply, failure_end)"
proof -
  have "fst (flatten_after_stop_failure failure_sample_env sample_executor failure_sample failure_start) = Inr failure_reply" by code_simp
  then show ?thesis by (simp add: failure_end_def prod_eq_iff)
qed

lemma failure_sends: "length (sent (fw_close failure_end)) = 1" "fw_direct failure_end = []"
  by code_simp+

lemma failure_start_consistent: "consistent (w_store (fw_close failure_start))"
proof -
  have "fits 4 (Num 20)" "fits 8 (Num 2)"
    by (auto simp: fits_def intro!: exI[of _ 200000] exI[of _ 200000000])
  then show ?thesis
    by (simp add: consistent_def failure_start_def sample_empty_db_def sample_entry_row_def db_ok_def attempts_ok_def tasks_ok_def
        incidents_ok_def active_unique_def task_ids_def tables_typed_def row_typed_def)
qed

theorem flatten_blocks_entries_witness:
  "gate_open (fw_gate failure_start) \<and> \<not> gate_open (fw_gate failure_end) \<and> INCIDENT_BLOCKER \<in> safety_blockers (fw_gate failure_end)"
  using flatten_blocks_entries[OF _ failure_runs] gate_inv_init[of "{}"]
  by (simp add: failure_start_def gate_init_def)

theorem flatten_sends_owned_witness:
  "\<exists>x i a. sent (fw_close failure_end) = [x] \<and> task_send sample_executor (inline_envs failure_sample_env) i a x"
proof -
  have none: "sent (fw_close failure_start) = []" by (simp add: failure_start_def sent_def)
  obtain x where x: "sent (fw_close failure_end) = [x]" using failure_sends(1) by (auto simp: length_Suc_conv simp del: split_paired_Ex)
  from flatten_sends_owned[OF failure_start_consistent failure_runs] none x
  obtain i a where "task_send sample_executor (inline_envs failure_sample_env) i a x"
    by (auto simp: adds_owned_def simp del: split_paired_Ex split_paired_All)
  then show ?thesis using x by blast
qed

theorem force_closed_proven_witness:
  "flat_shown failure_sample_env failure_sample (Some 1) (w_store (fw_close failure_end)) \<and> fw_opened_at failure_end = {}"
proof -
  have "(sf_exchange failure_sample, upper (sf_base failure_sample)) = (''bybit'', ''X'')" by code_simp
  then show ?thesis using force_closed_proven[OF failure_start_consistent failure_runs]
    by (simp add: failure_reply_def failure_start_def)
qed

end
