(* ===== verification/Fill_Incidents.thy ===== *)
theory Fill_Incidents
  imports Order_Attempts
begin

text \<open>
  Durable incidents for orders whose fill price is not confirmed (\<open>incidents.py\<close>), over the table
  \<open>fill_resolution_incidents\<close> with the unique index and the check constraints of the journal's models.
  Each operation is one connection; every exception of a connection is caught by the operation, and a
  connection that raises leaves the table as it was. Error texts and the attempt's time are left out.
\<close>

datatype incident_status = Inc_pending | Inc_resolving | Inc_resolved | Inc_manual_required

definition OPEN_STATUSES :: "incident_status list" where
  "OPEN_STATUSES = [Inc_pending, Inc_resolving]"

record fill_incident =
  fi_id :: int
  fi_exchange :: string
  fi_base :: string
  fi_operation :: string
  fi_order_id :: string
  fi_trade_id :: "int option"
  fi_status :: incident_status
  fi_attempt_count :: int
  fi_context :: pyval
  fi_resolved_price :: "number option"
  fi_resolved_source :: "string option"
  fi_resolved_at :: "int option"
  fi_notified_at :: "int option"
  fi_recovery_notified_at :: "int option"
  fi_created_at :: int

record incident_table =
  it_rows :: "fill_incident list"
  it_next :: int
  it_conns :: "(bool \<times> int) list"

text \<open>\<open>async with\<close> on one connection, with the clock it reads.\<close>

definition with_table :: "(int \<Rightarrow> (incident_table, 'a) prog) \<Rightarrow> (incident_table, 'a) prog" where
  "with_table body = (\<lambda>d.
     case it_conns d of
       [] \<Rightarrow> (Inl (db_error ''OperationalError''), d)
     | (up, now) # conns \<Rightarrow>
         (let d' = d\<lparr>it_conns := conns\<rparr> in
          if \<not> up then (Inl (db_error ''OperationalError''), d')
          else case body now d' of
                 (Inl e, _) \<Rightarrow> (Inl e, d')
               | (Inr x, t) \<Rightarrow> (Inr x, t)))"

text \<open>A \<open>Numeric(30, 14)\<close> column.\<close>

definition numeric_30_14 :: "number \<Rightarrow> number res" where
  "numeric_30_14 n =
     (case n of
        Num x \<Rightarrow>
          (let u = x * 10 ^ 14; k = (if 0 \<le> u then \<lfloor>u + 1 / 2\<rfloor> else - \<lfloor>- u + 1 / 2\<rfloor>)
           in if 10 ^ 30 \<le> \<bar>k\<bar> then Inl (db_error ''NumericValueOutOfRange'') else Inr (Num (of_int k / 10 ^ 14)))
      | NotANumber \<Rightarrow> Inr NotANumber
      | Infinite s \<Rightarrow> Inl (db_error ''NumericValueOutOfRange''))"

text \<open>The check constraints of a row.\<close>

definition incident_checks :: "fill_incident \<Rightarrow> bool" where
  "incident_checks r \<longleftrightarrow>
     fi_operation r \<in> {''open'', ''close''} \<and> 0 \<le> fi_attempt_count r \<and>
     (if fi_status r = Inc_resolved
      then fi_resolved_at r \<noteq> None \<and> fi_resolved_price r \<noteq> None \<and> fi_resolved_source r \<noteq> None
      else fi_resolved_at r = None \<and> fi_resolved_price r = None \<and> fi_resolved_source r = None)"

definition same_order :: "string \<Rightarrow> string \<Rightarrow> fill_incident \<Rightarrow> bool" where
  "same_order exch order_id r \<longleftrightarrow> fi_exchange r = exch \<and> fi_order_id r = order_id"

text \<open>An update of the rows that match: the number of rows, or the violated constraint.\<close>

definition update_incidents :: "(fill_incident \<Rightarrow> bool) \<Rightarrow> (fill_incident \<Rightarrow> fill_incident) \<Rightarrow> (incident_table, nat) prog" where
  "update_incidents hit f = (\<lambda>d.
     if list_ex (\<lambda>r. hit r \<and> \<not> incident_checks (f r)) (it_rows d) then (Inl (db_error ''CheckViolation''), d)
     else (Inr (length (filter hit (it_rows d))), d\<lparr>it_rows := map (\<lambda>r. if hit r then f r else r) (it_rows d)\<rparr>))"

subsection \<open>The operations\<close>

definition insert_fill_incident ::
  "int \<Rightarrow> string \<Rightarrow> string \<Rightarrow> string \<Rightarrow> string \<Rightarrow> int option \<Rightarrow> pyval \<Rightarrow> (incident_table, int option) prog" where
  "insert_fill_incident now exch base operation order_id trade_id context = (\<lambda>d.
     let row = \<lparr>fi_id = it_next d, fi_exchange = exch, fi_base = upper base, fi_operation = operation, fi_order_id = order_id,
                fi_trade_id = trade_id, fi_status = Inc_pending, fi_attempt_count = 0, fi_context = context,
                fi_resolved_price = None, fi_resolved_source = None, fi_resolved_at = None, fi_notified_at = None,
                fi_recovery_notified_at = None, fi_created_at = now\<rparr> in
     if \<not> incident_checks row then (Inl (db_error ''CheckViolation''), d)
     else if list_ex (same_order exch order_id) (it_rows d) then (Inr None, d)
     else (Inr (Some (it_next d)), d\<lparr>it_rows := it_rows d @ [row], it_next := it_next d + 1\<rparr>))"

definition create_incident ::
  "string \<Rightarrow> string \<Rightarrow> string \<Rightarrow> string \<Rightarrow> int option \<Rightarrow> pyval \<Rightarrow> (incident_table, int option) prog" where
  "create_incident exch base operation order_id trade_id context =
     tryS (with_table (\<lambda>now.
       bindS (insert_fill_incident now exch base operation order_id trade_id context) (\<lambda>inserted.
       case inserted of
         Some i \<Rightarrow> ret (Some i)
       | None \<Rightarrow> readS (\<lambda>d. map_option fi_id (find (same_order exch order_id) (it_rows d))))))
     (\<lambda>_. ret None)"

definition load_open_incidents :: "(incident_table, fill_incident list) prog" where
  "load_open_incidents =
     tryS (with_table (\<lambda>_. readS (\<lambda>d. sort_key fi_created_at (filter (\<lambda>r. fi_status r \<in> set OPEN_STATUSES) (it_rows d)))))
       (\<lambda>_. ret [])"

definition mark_attempt :: "int \<Rightarrow> incident_status \<Rightarrow> (incident_table, unit) prog" where
  "mark_attempt i st =
     tryS (with_table (\<lambda>_.
       bindS (update_incidents (\<lambda>r. fi_id r = i) (\<lambda>r. r\<lparr>fi_status := st, fi_attempt_count := fi_attempt_count r + 1\<rparr>))
         (\<lambda>_. ret ())))
     (\<lambda>_. ret ())"

definition mark_resolved :: "int \<Rightarrow> pyfloat \<Rightarrow> string \<Rightarrow> (incident_table, bool) prog" where
  "mark_resolved i price source =
     tryS (with_table (\<lambda>now d.
       let hit = (\<lambda>r. fi_id r = i \<and> fi_status r \<in> {Inc_pending, Inc_resolving, Inc_manual_required}) in
       if \<not> list_ex hit (it_rows d) then (Inr False, d)
       else bindS (pureS (numeric_30_14 (float_numeric price))) (\<lambda>p.
            bindS (update_incidents hit (\<lambda>r. r\<lparr>fi_status := Inc_resolved, fi_resolved_price := Some p,
                     fi_resolved_source := Some source, fi_resolved_at := Some now\<rparr>)) (\<lambda>n. ret (0 < n))) d))
     (\<lambda>_. ret False)"

definition claim_creation_notification :: "int \<Rightarrow> (incident_table, bool) prog" where
  "claim_creation_notification i =
     tryS (with_table (\<lambda>now.
       bindS (update_incidents (\<lambda>r. fi_id r = i \<and> fi_notified_at r = None) (\<lambda>r. r\<lparr>fi_notified_at := Some now\<rparr>))
         (\<lambda>n. ret (0 < n))))
     (\<lambda>_. ret False)"

definition claim_recovery_notification :: "int \<Rightarrow> (incident_table, bool) prog" where
  "claim_recovery_notification i =
     tryS (with_table (\<lambda>now.
       bindS (update_incidents (\<lambda>r. fi_id r = i \<and> fi_recovery_notified_at r = None \<and> fi_notified_at r \<noteq> None)
                (\<lambda>r. r\<lparr>fi_recovery_notified_at := Some now\<rparr>)) (\<lambda>n. ret (0 < n))))
     (\<lambda>_. ret False)"

text \<open>Unknown reads as pending.\<close>

definition has_pending_open :: "string \<Rightarrow> string \<Rightarrow> (incident_table, bool) prog" where
  "has_pending_open exch base =
     tryS (with_table (\<lambda>_. readS (\<lambda>d. list_ex (\<lambda>r. fi_operation r = ''open'' \<and> fi_exchange r = exch \<and> fi_base r = upper base \<and>
              fi_status r \<in> set OPEN_STATUSES) (it_rows d))))
     (\<lambda>_. ret True)"
subsection \<open>The table over time\<close>

definition incidents_wf :: "incident_table \<Rightarrow> bool" where
  "incidents_wf d \<longleftrightarrow>
     distinct (map fi_id (it_rows d)) \<and> (\<forall>r \<in> set (it_rows d). fi_id r < it_next d \<and> incident_checks r) \<and>
     distinct (map (\<lambda>r. (fi_exchange r, fi_order_id r)) (it_rows d))"

text \<open>A later version of a row: the same order, and what is resolved or notified stays as it is.\<close>

definition later :: "fill_incident \<Rightarrow> fill_incident \<Rightarrow> bool" where
  "later r r' \<longleftrightarrow>
     fi_id r' = fi_id r \<and> fi_exchange r' = fi_exchange r \<and> fi_order_id r' = fi_order_id r \<and>
     (fi_status r = Inc_resolved \<longrightarrow> fi_status r' = Inc_resolved \<and> fi_resolved_price r' = fi_resolved_price r \<and>
        fi_resolved_source r' = fi_resolved_source r) \<and>
     (fi_notified_at r \<noteq> None \<longrightarrow> fi_notified_at r' = fi_notified_at r) \<and>
     (fi_recovery_notified_at r \<noteq> None \<longrightarrow> fi_recovery_notified_at r' = fi_recovery_notified_at r)"

definition table_later :: "incident_table \<Rightarrow> incident_table \<Rightarrow> bool" where
  "table_later d t \<longleftrightarrow> (\<forall>r \<in> set (it_rows d). \<exists>r' \<in> set (it_rows t). later r r')"

lemma later_refl [simp]: "later r r"
  by (simp add: later_def)

lemma later_trans: "later r r' \<Longrightarrow> later r' r'' \<Longrightarrow> later r r''"
  by (auto simp: later_def)

lemma table_later_trans: "table_later d t \<Longrightarrow> table_later t u \<Longrightarrow> table_later d u"
  unfolding table_later_def by (meson later_trans)

lemma table_later_refl [simp]: "table_later d d" "table_later d (d\<lparr>it_conns := cs\<rparr>)"
  unfolding table_later_def by (auto intro: later_refl)

definition evolves :: "incident_table \<Rightarrow> incident_table \<Rightarrow> bool" where
  "evolves d t \<longleftrightarrow> incidents_wf t \<and> table_later d t"

lemma with_table_evolves:
  assumes "\<And>now d x t. incidents_wf d \<Longrightarrow> body now d = (Inr x, t) \<Longrightarrow> evolves d t"
    and "incidents_wf d" "with_table body d = (r, t)"
  shows "evolves d t"
proof (cases "it_conns d")
  case Nil
  then show ?thesis using assms(2,3) by (auto simp: with_table_def evolves_def)
next
  case (Cons c cs)
  let ?d = "d\<lparr>it_conns := cs\<rparr>"
  have wf: "incidents_wf ?d" using assms(2) by (simp add: incidents_wf_def)
  obtain q u where q: "body (snd c) ?d = (q, u)" by force
  have "t = ?d \<or> (\<exists>x. q = Inr x \<and> t = u)" using assms(3) Cons q
    by (cases c; cases q) (auto simp: with_table_def Let_def split: if_splits)
  then show ?thesis
  proof
    assume "t = ?d" then show ?thesis using wf by (simp add: evolves_def)
  next
    assume "\<exists>x. q = Inr x \<and> t = u"
    then obtain x where "q = Inr x" "t = u" by blast
    then have "evolves ?d t" using assms(1)[OF wf] q by simp
    then show ?thesis by (auto simp: evolves_def table_later_def)
  qed
qed

lemma op_evolves:
  assumes "tryS (with_table body) (\<lambda>_. ret x0) d = (r, t)" "incidents_wf d"
    and "\<And>now d x t. incidents_wf d \<Longrightarrow> body now d = (Inr x, t) \<Longrightarrow> evolves d t"
  shows "evolves d t"
proof -
  obtain q u where q: "with_table body d = (q, u)" by force
  have "t = u" using assms(1) q by (cases q) (auto simp: tryS_def ret_apply)
  then show ?thesis using with_table_evolves[OF assms(3,2) q] by simp
qed

lemma update_evolves:
  assumes wf: "incidents_wf d" and run: "update_incidents hit f d = (Inr n, t)"
    and f: "\<And>r. incident_checks r \<Longrightarrow> hit r \<Longrightarrow> incident_checks (f r) \<Longrightarrow> later r (f r)"
  shows "evolves d t"
proof -
  let ?g = "\<lambda>r. if hit r then f r else r"
  have t: "t = d\<lparr>it_rows := map ?g (it_rows d)\<rparr>" and ok: "\<forall>r \<in> set (it_rows d). hit r \<longrightarrow> incident_checks (f r)"
    using run by (auto simp: update_incidents_def list_ex_iff split: if_splits)
  have g: "later r (?g r)" "incident_checks (?g r)" if "r \<in> set (it_rows d)" for r
    using that wf ok f[of r] by (auto simp: incidents_wf_def)
  have key: "fi_id (?g r) = fi_id r" "fi_exchange (?g r) = fi_exchange r" "fi_order_id (?g r) = fi_order_id r"
    if "r \<in> set (it_rows d)" for r using g(1)[OF that] by (simp_all add: later_def)
  have rows: "it_rows t = map ?g (it_rows d)" "it_next t = it_next d" using t by simp_all
  have "map fi_id (it_rows t) = map fi_id (it_rows d)"
    "map (\<lambda>r. (fi_exchange r, fi_order_id r)) (it_rows t) = map (\<lambda>r. (fi_exchange r, fi_order_id r)) (it_rows d)"
    unfolding rows map_map by (rule map_cong[OF refl]; simp only: comp_def key)+
  moreover have "\<forall>r \<in> set (it_rows t). fi_id r < it_next t \<and> incident_checks r"
  proof
    fix r assume "r \<in> set (it_rows t)"
    then obtain q where q: "q \<in> set (it_rows d)" "r = ?g q" unfolding rows by force
    have "fi_id r = fi_id q" "incident_checks r" using key(1)[OF q(1)] g(2)[OF q(1)] q(2) by blast+
    moreover have "fi_id q < it_next d" using wf q(1) by (simp add: incidents_wf_def)
    ultimately show "fi_id r < it_next t \<and> incident_checks r" using rows(2) by simp
  qed
  ultimately have "incidents_wf t" using wf by (simp only: incidents_wf_def simp_thms)
  moreover have "table_later d t" unfolding table_later_def t using g(1) by fastforce
  ultimately show ?thesis by (simp add: evolves_def)
qed

text \<open>A row that satisfies the constraints is resolved exactly when it has a price.\<close>

lemma mark_attempt_later:
  assumes "incident_checks r" "incident_checks (r\<lparr>fi_status := st, fi_attempt_count := n\<rparr>)"
  shows "later r (r\<lparr>fi_status := st, fi_attempt_count := n\<rparr>)"
  using assms by (cases "fi_status r = Inc_resolved"; cases "st = Inc_resolved") (auto simp: incident_checks_def later_def)

lemma insert_evolves:
  assumes wf: "incidents_wf d" and run: "insert_fill_incident now exch base operation order_id trade_id context d = (Inr x, t)"
  shows "evolves d t"
proof -
  have "t = d \<or> (\<exists>row. it_rows t = it_rows d @ [row] \<and> it_next t = it_next d + 1 \<and> fi_id row = it_next d \<and> incident_checks row \<and>
      (\<forall>q \<in> set (it_rows d). (fi_exchange q, fi_order_id q) \<noteq> (fi_exchange row, fi_order_id row)))"
    using run by (auto simp: insert_fill_incident_def Let_def same_order_def list_ex_iff split: if_splits)
  then have "incidents_wf t"
  proof (elim disjE exE conjE)
    fix row assume row: "it_rows t = it_rows d @ [row]" "it_next t = it_next d + 1" "fi_id row = it_next d" "incident_checks row"
      "\<forall>q \<in> set (it_rows d). (fi_exchange q, fi_order_id q) \<noteq> (fi_exchange row, fi_order_id row)"
    have ids: "fi_id q < it_next d" if "q \<in> set (it_rows d)" for q using wf that by (auto simp: incidents_wf_def)
    have "fi_id row \<notin> fi_id ` set (it_rows d)" using ids row(3) by fastforce
    moreover have "fi_id q < it_next t" if "q \<in> set (it_rows d)" for q using ids[OF that] row(2) by simp
    ultimately show ?thesis using wf row by (auto simp: incidents_wf_def)
  qed (use wf in simp)
  moreover have "set (it_rows d) \<subseteq> set (it_rows t)" using run by (auto simp: insert_fill_incident_def Let_def split: if_splits)
  then have "table_later d t" unfolding table_later_def using later_refl by blast
  ultimately show ?thesis by (simp add: evolves_def)
qed

lemma read_evolves: "incidents_wf d \<Longrightarrow> readS g d = (Inr x, t) \<Longrightarrow> evolves d t"
  by (simp add: readS_apply evolves_def)

datatype incident_call =
    Create_incident string string string string "int option" pyval
  | Load_open
  | Mark_attempt int incident_status
  | Mark_resolved int pyfloat string
  | Claim_creation int
  | Claim_recovery int
  | Has_pending string string

fun perform_incident :: "incident_call \<Rightarrow> incident_table \<Rightarrow> incident_table" where
  "perform_incident (Create_incident e b op i k c) d = snd (create_incident e b op i k c d)"
| "perform_incident Load_open d = snd (load_open_incidents d)"
| "perform_incident (Mark_attempt i st) d = snd (mark_attempt i st d)"
| "perform_incident (Mark_resolved i p s) d = snd (mark_resolved i p s d)"
| "perform_incident (Claim_creation i) d = snd (claim_creation_notification i d)"
| "perform_incident (Claim_recovery i) d = snd (claim_recovery_notification i d)"
| "perform_incident (Has_pending e b) d = snd (has_pending_open e b d)"

definition incident_history :: "incident_call list \<Rightarrow> incident_table \<Rightarrow> incident_table" where
  "incident_history calls d = fold perform_incident calls d"

lemma create_evolves: "incidents_wf d \<Longrightarrow> create_incident e b op i k c d = (r, t) \<Longrightarrow> evolves d t"
  unfolding create_incident_def
proof (erule op_evolves, assumption)
  fix now d x t assume "incidents_wf d" "bindS (insert_fill_incident now e b op i k c) (\<lambda>inserted. case inserted of
         Some i \<Rightarrow> ret (Some i)
       | None \<Rightarrow> readS (\<lambda>d. map_option fi_id (find (same_order e i) (it_rows d)))) d = (Inr x, t)"
  from this(2) this(1) show "evolves d t"
    by (elim bindS_InrE) (auto simp: ret_apply readS_apply split: option.splits dest: insert_evolves)
qed

lemma update_then:
  assumes "bindS (update_incidents hit f) (\<lambda>n. ret (h n)) d = (Inr x, t)" "incidents_wf d"
    and "\<And>r. incident_checks r \<Longrightarrow> hit r \<Longrightarrow> incident_checks (f r) \<Longrightarrow> later r (f r)"
  shows "evolves d t"
  using assms(1)
proof (rule bindS_InrE)
  fix n u assume "update_incidents hit f d = (Inr n, u)" "ret (h n) u = (Inr x, t)"
  then show ?thesis using update_evolves[OF assms(2) _ assms(3)] by (auto simp: ret_apply)
qed

lemma mark_attempt_evolves: "incidents_wf d \<Longrightarrow> mark_attempt i st d = (r, t) \<Longrightarrow> evolves d t"
  unfolding mark_attempt_def
  by (erule op_evolves, assumption) (erule update_then, simp_all add: mark_attempt_later)

lemma mark_resolved_evolves:
  assumes "incidents_wf d" "mark_resolved i p s d = (r, t)"
  shows "evolves d t"
  using assms(2,1) unfolding mark_resolved_def
proof (rule op_evolves)
  let ?hit = "\<lambda>r. fi_id r = i \<and> fi_status r \<in> {Inc_pending, Inc_resolving, Inc_manual_required}"
  fix now d x t
  assume wf: "incidents_wf d" and run: "(let hit = ?hit in
       if \<not> list_ex hit (it_rows d) then (Inr False, d)
       else bindS (pureS (numeric_30_14 (float_numeric p))) (\<lambda>p.
            bindS (update_incidents hit (\<lambda>r. r\<lparr>fi_status := Inc_resolved, fi_resolved_price := Some p,
                     fi_resolved_source := Some s, fi_resolved_at := Some now\<rparr>)) (\<lambda>n. ret (0 < n))) d) = (Inr x, t)"
  show "evolves d t"
  proof (cases "list_ex ?hit (it_rows d)")
    case False
    then show ?thesis using wf run by (simp add: evolves_def Let_def)
  next
    case True
    then obtain q where "bindS (update_incidents ?hit (\<lambda>r. r\<lparr>fi_status := Inc_resolved, fi_resolved_price := Some q,
                     fi_resolved_source := Some s, fi_resolved_at := Some now\<rparr>)) (\<lambda>n. ret (0 < n)) d = (Inr x, t)"
      using run by (auto simp: Let_def bindS_def[of "pureS _"] pureS_apply split: sum.splits)
    then show ?thesis using wf by (rule update_then) (auto simp: later_def)
  qed
qed

lemma claim_creation_evolves: "incidents_wf d \<Longrightarrow> claim_creation_notification i d = (r, t) \<Longrightarrow> evolves d t"
  unfolding claim_creation_notification_def
  by (erule op_evolves, assumption) (erule update_then, simp_all add: later_def)

lemma claim_recovery_evolves: "incidents_wf d \<Longrightarrow> claim_recovery_notification i d = (r, t) \<Longrightarrow> evolves d t"
  unfolding claim_recovery_notification_def
  by (erule op_evolves, assumption) (erule update_then, simp_all add: later_def)

lemma reads_evolve:
  "incidents_wf d \<Longrightarrow> load_open_incidents d = (q, t) \<Longrightarrow> evolves d t"
  "incidents_wf d \<Longrightarrow> has_pending_open e b d = (r, t) \<Longrightarrow> evolves d t"
  unfolding load_open_incidents_def has_pending_open_def
  by (erule op_evolves, assumption, erule (1) read_evolves)+

lemma perform_evolves: "incidents_wf d \<Longrightarrow> evolves d (perform_incident c d)"
  by (cases c)
    (auto intro: create_evolves mark_attempt_evolves mark_resolved_evolves claim_creation_evolves claim_recovery_evolves
      reads_evolve simp: prod_eq_iff)

lemma history_evolves: "incidents_wf d \<Longrightarrow> evolves d (incident_history calls d)"
proof (induction calls arbitrary: d)
  case Nil
  then show ?case by (simp add: incident_history_def evolves_def)
next
  case (Cons c cs)
  have "evolves d (perform_incident c d)" using perform_evolves[OF Cons.prems] .
  moreover from this have "evolves (perform_incident c d) (incident_history cs (perform_incident c d))"
    using Cons.IH by (simp add: evolves_def)
  ultimately show ?case by (auto simp: incident_history_def evolves_def intro: table_later_trans)
qed

lemma filter_unique:
  assumes "x \<in> set xs" "distinct (map f xs)"
  shows "filter (\<lambda>y. f y = f x) xs = [x]"
  using assms
proof (induction xs)
  case (Cons a xs)
  show ?case
  proof (cases "a = x")
    case True
    have "\<forall>y \<in> set xs. f y \<noteq> f x" using Cons.prems(2) True by (force simp: image_iff)
    then show ?thesis using True by simp
  next
    case False
    then show ?thesis using Cons by (auto simp: image_iff)
  qed
qed simp

text \<open>A successful claim met a row not yet notified, and leaves it notified.\<close>

lemma claim_creation_true:
  assumes "claim_creation_notification i d = (Inr True, t)"
  obtains r r' where "r \<in> set (it_rows d)" "fi_id r = i" "fi_notified_at r = None"
    "r' \<in> set (it_rows t)" "fi_id r' = i" "fi_notified_at r' \<noteq> None"
proof -
  let ?hit = "\<lambda>r. fi_id r = i \<and> fi_notified_at r = None"
  obtain now where some: "filter ?hit (it_rows d) \<noteq> []"
    and t: "it_rows t = map (\<lambda>r. if ?hit r then r\<lparr>fi_notified_at := Some now\<rparr> else r) (it_rows d)"
    using assms
    by (auto simp: claim_creation_notification_def tryS_def ret_apply with_table_def Let_def update_incidents_def bindS_def
        split: list.splits if_splits sum.splits prod.splits simp del: map_eq_conv)
  obtain r where r: "r \<in> set (it_rows d)" "?hit r" using some by (auto simp: filter_empty_conv)
  have "r\<lparr>fi_notified_at := Some now\<rparr> \<in> set (it_rows t)" using r unfolding t set_map by (intro image_eqI[of _ _ r]) simp_all
  then show thesis using that[of r "r\<lparr>fi_notified_at := Some now\<rparr>"] r by simp
qed

subsection \<open>Properties\<close>

text \<open>
  C29. A resolved incident is final: whatever is done to the table afterwards, its order keeps exactly one
  incident, which stays resolved with the same price and source.
\<close>

theorem resolved_incident_final:
  assumes "incidents_wf d" "r \<in> set (it_rows d)" "fi_status r = Inc_resolved"
  shows "map (\<lambda>q. (fi_id q, fi_status q, fi_resolved_price q, fi_resolved_source q))
      (filter (\<lambda>q. (fi_exchange q, fi_order_id q) = (fi_exchange r, fi_order_id r)) (it_rows (incident_history calls d))) =
    [(fi_id r, Inc_resolved, fi_resolved_price r, fi_resolved_source r)]"
proof -
  note ev = history_evolves[OF assms(1), of calls]
  obtain q where q: "q \<in> set (it_rows (incident_history calls d))" "later r q"
    using ev assms(2) by (auto simp: evolves_def table_later_def)
  have "(fi_exchange r, fi_order_id r) = (fi_exchange q, fi_order_id q)" using q(2) by (simp add: later_def)
  moreover have "distinct (map (\<lambda>q. (fi_exchange q, fi_order_id q)) (it_rows (incident_history calls d)))"
    using ev by (simp add: evolves_def incidents_wf_def)
  ultimately have "filter (\<lambda>p. (fi_exchange p, fi_order_id p) = (fi_exchange r, fi_order_id r)) (it_rows (incident_history calls d)) = [q]"
    using filter_unique[OF q(1), of "\<lambda>p. (fi_exchange p, fi_order_id p)"] by (simp only:)
  then show ?thesis using q(2) assms(3) by (simp only: later_def list.map simp_thms)
qed

text \<open>
  The alert about an incident goes out once: after a caller has claimed it, no claim succeeds again,
  whatever happens to the table in between.
\<close>

theorem incident_alerted_once:
  assumes "incidents_wf d" "claim_creation_notification i d = (Inr True, t)"
  shows "fst (claim_creation_notification i (incident_history calls t)) \<noteq> Inr True"
proof
  assume again: "fst (claim_creation_notification i (incident_history calls t)) = Inr True"
  let ?h = "incident_history calls t"
  have wf: "incidents_wf t" using claim_creation_evolves[OF assms] by (simp add: evolves_def)
  note ev = history_evolves[OF wf, of calls]
  obtain r where r: "r \<in> set (it_rows t)" "fi_id r = i" "fi_notified_at r \<noteq> None" using claim_creation_true[OF assms(2)] by blast
  obtain q where q: "q \<in> set (it_rows ?h)" "later r q" using ev r(1) by (auto simp: evolves_def table_later_def)
  obtain u where "claim_creation_notification i ?h = (Inr True, u)" using again by (cases "claim_creation_notification i ?h") auto
  then obtain p where p: "p \<in> set (it_rows ?h)" "fi_id p = i" "fi_notified_at p = None" using claim_creation_true by blast
  have "distinct (map fi_id (it_rows ?h))" using ev by (simp add: evolves_def incidents_wf_def)
  moreover have "fi_id q = fi_id p" using q(2) r(2) p(2) by (simp add: later_def)
  ultimately have "q = p" using q(1) p(1) by (simp add: distinct_map inj_on_def)
  then show False using q(2) r(3) p(3) by (simp add: later_def)
qed

subsection \<open>Witnesses\<close>

definition sample_table :: incident_table where
  "sample_table = snd (create_incident ''bybit'' ''x'' ''open'' ''o1'' None (PDict [])
     \<lparr>it_rows = [], it_next = 1, it_conns = replicate 9 (True, 5)\<rparr>)"

lemma sample_table_wf: "incidents_wf sample_table"
proof -
  have "incidents_wf \<lparr>it_rows = [], it_next = 1, it_conns = replicate 9 (True, 5)\<rparr>" by (simp add: incidents_wf_def)
  from create_evolves[OF this surjective_pairing] show ?thesis by (simp add: evolves_def sample_table_def)
qed

definition sample_resolved :: incident_table where
  "sample_resolved = snd (mark_resolved 1 (Fin 10) ''order'' sample_table)"

theorem resolved_incident_final_witness:
  "map fi_status (filter (\<lambda>q. (fi_exchange q, fi_order_id q) = (''bybit'', ''o1''))
     (it_rows (incident_history [Mark_attempt 1 Inc_pending, Create_incident ''bybit'' ''x'' ''open'' ''o1'' None PNone] sample_resolved))) = [Inc_resolved]"
proof -
  have wf: "incidents_wf sample_resolved"
    using mark_resolved_evolves[OF sample_table_wf surjective_pairing] by (simp add: evolves_def sample_resolved_def)
  have rows: "map (\<lambda>r. (fi_exchange r, fi_order_id r, fi_status r)) (it_rows sample_resolved) = [(''bybit'', ''o1'', Inc_resolved)]"
    by code_simp
  then obtain r where r: "it_rows sample_resolved = [r]" "fi_exchange r = ''bybit''" "fi_order_id r = ''o1''" "fi_status r = Inc_resolved"
    by auto
  let ?rows = "filter (\<lambda>q. (fi_exchange q, fi_order_id q) = (''bybit'', ''o1''))
     (it_rows (incident_history [Mark_attempt 1 Inc_pending, Create_incident ''bybit'' ''x'' ''open'' ''o1'' None PNone] sample_resolved))"
  have "map (\<lambda>q. (fi_id q, fi_status q, fi_resolved_price q, fi_resolved_source q)) ?rows =
      [(fi_id r, Inc_resolved, fi_resolved_price r, fi_resolved_source r)]"
    using resolved_incident_final[OF wf, of r] r by (simp del: prod.inject)
  from arg_cong[OF this, of "map (\<lambda>x. fst (snd x))"] show ?thesis by (simp add: comp_def)
qed

theorem incident_alerted_once_witness:
  "fst (claim_creation_notification 1 sample_table) = Inr True \<and>
   fst (claim_creation_notification 1 (incident_history [Mark_attempt 1 Inc_resolving] (snd (claim_creation_notification 1 sample_table)))) \<noteq> Inr True"
proof -
  have first: "fst (claim_creation_notification 1 sample_table) = Inr True" by code_simp
  then have "claim_creation_notification 1 sample_table = (Inr True, snd (claim_creation_notification 1 sample_table))"
    by (simp add: prod_eq_iff)
  from incident_alerted_once[OF sample_table_wf this] first show ?thesis by blast
qed

end
