(* ===== verification/Spec2Isabelle.thy ===== *)
theory Spec2Isabelle
  imports Order_Ids Risk Supervisor Exchange_Orders Reconciliation Reconciliation_Worker Exit_Policy
    Accounting Fill_Price Config Execution_Intent Probe_Loss Live_Costs Open_Costs Bybit_Costs Bybit_Paging
    Emergency_Close Emergency_Store Emergency_Safety Protective_Stop Order_Lock Entry_Recovery
    Order_Attempts Late_Fill Stop_Failure Fill_Incidents
begin

text \<open>
  Verification of the execution core of the trading platform under \<open>src/\<close>: the part of the service
  \<open>src/apps/execution/schurfer_execution\<close> that decides whether an order may be sent, sends it, protects
  it, closes it and accounts for it, with the exit policy and the accounting of
  \<open>src/packages/performance\<close>.

  \<^bold>\<open>The program.\<close> A supervisor runs the critical workers of the service and keeps a readiness gate
  (\<open>supervisor.py\<close>). An entry passes the gate, takes a lease on the instrument (\<open>order_lock.py\<close>), passes
  the risk checks (\<open>risk.py\<close>) and reserves a slot by writing a durable attempt (\<open>order_attempts.py\<close>)
  before the exchange is called. Its fill price is resolved from the exchange's own data
  (\<open>fill_price.py\<close>), or an incident is recorded (\<open>incidents.py\<close>); a protective stop is placed under an
  id derived from the entry (\<open>order_ids.py\<close>, \<open>protective_stop.py\<close>). When no stop can be placed the gate
  is blocked and the position is flattened by a durable emergency close task (\<open>emergency_close.py\<close>).
  An entry whose result is unknown is looked up, cancelled and covered meanwhile
  (\<open>entry_recovery.py\<close>); one that fills later is found by reconciliation and flattened
  (\<open>late_fill.py\<close>). Reconciliation compares positions, stops, attempts and trades and opens or closes
  the gate (\<open>reconciliation.py\<close>, \<open>reconciliation_worker.py\<close>). Open positions follow the exit policy
  (\<open>exit_policy.py\<close>, \<open>exit.py\<close>). Closed ones are charged the exchange's executions and funding
  (\<open>live_costs.py\<close>); the live probe stops at a loss threshold (\<open>probe_loss.py\<close>). Modes, brokers and the
  configuration that selects them are in \<open>execution_intent.py\<close> and \<open>config.py\<close>.

  \<^bold>\<open>Conventions.\<close> An exception is a value: pure code returns \<open>'a res\<close>, the sum of \<open>py_error\<close> and the
  result (\<open>Prelude\<close>). Code that writes is a \<open>prog\<close>, a function from a state to a result and the state it
  leaves, so that what was written before an exception stays written; \<open>ends\<close> and \<open>keeps\<close> carry facts
  through sequencing (\<open>Py_State\<close>). Floats are binary64 with rounding written out, Decimals round to 28
  digits (\<open>Py_Num\<close>, where both roundings satisfy the locale \<open>rounding\<close>), Decimals read from outside may
  be infinite or NaN (\<open>Py_Decimal\<close>), and JSON and client payloads are values of \<open>pyval\<close> (\<open>Py_Value\<close>).
  What a call meets outside the process (exchange, Redis, clock, Postgres connections) is a record
  that the definition takes as an argument. Texts of log lines, alerts and errors are left out or are
  constructors; instants are microseconds.

  \<^bold>\<open>The theories and what they show.\<close>

  \<^item> \<open>Order_Ids\<close>: derived ids are unique, within the exchange's limit, and found exactly by a prefix search.

  \<^item> \<open>Risk\<close>: an entry passes all checks exactly on positive evidence; the PnL lease makes a round trip and
  is fresh only in its generation; sizes are within their bounds; the liquidation check is monotone.

  \<^item> \<open>Supervisor\<close>: the gate and the supervisor as step systems. An unchanged token means an open gate
  throughout; an open gate means that every critical worker runs; restarts and their delays are bounded.

  \<^item> \<open>Exchange_Orders\<close>, \<open>Fill_Price\<close>: a listing misses no order it was given, and a fill price or volume is
  never fabricated.

  \<^item> \<open>Reconciliation\<close>, \<open>Reconciliation_Worker\<close>: when a position counts as healthy, what one scan does, and
  what an open gate after a scan implies for every position and incident.

  \<^item> \<open>Order_Attempts\<close>, \<open>Order_Lock\<close>: reservations never exceed the portfolio limit; the attempts table
  stays consistent under all its writers; at most one lease on a key is within its term, on the
  documented laws of Redis (locale \<open>redis\<close>, interpreted on a concrete server).

  \<^item> \<open>Protective_Stop\<close>, \<open>Entry_Recovery\<close>: at most one stop can rest at a time, a stop counts only when
  the exchange shows it resting, every fill seen of an unknown entry is covered or reported.

  \<^item> \<open>Emergency_Close\<close>, \<open>Emergency_Store\<close>, \<open>Emergency_Safety\<close>: the executor is proved against the locale
  \<open>close_store\<close>, which the Postgres store interprets. Every order is justified by what was stored when
  it was sent, a flat position is proved by the exchange, claims exclude each other, the tables stay
  consistent over any history of calls, and a flat position is in fact confirmed.

  \<^item> \<open>Late_Fill\<close>, \<open>Stop_Failure\<close>: the two paths that flatten a fill, composed from the parts above. A task
  exists only for a confirmed fill of the exact entry and every completed late fill has one; after a stop
  failure entries are blocked, only the owned volume is sent, through a task or once without one, and
  the position is called closed only on proof.

  \<^item> \<open>Fill_Incidents\<close>: one incident per order, a resolved incident is final, its alert goes out once.

  \<^item> \<open>Exit_Policy\<close>, \<open>Accounting\<close>: the live monitor decides as replay does; stops only tighten; a net result
  never exceeds the gross one.

  \<^item> \<open>Live_Costs\<close>, \<open>Open_Costs\<close>, \<open>Bybit_Costs\<close>, \<open>Bybit_Paging\<close>: a trade is complete only when its
  executions add up; funding is charged exactly and once; reading an open trade refines the first pass
  of the settled one for every cost source that keeps the laws of \<open>cost_source_laws\<close>; the paging of the
  funding history ends and misses nothing.

  \<^item> \<open>Probe_Loss\<close>, \<open>Config\<close>, \<open>Execution_Intent\<close>: the loss only grows with what is known, and a validated
  configuration builds no broker above its mode's ceiling.

  \<^bold>\<open>Bounds and fuel.\<close> Loops are structural recursions over what they iterate. The retry loops run over
  the delays of the source (three stop requests, four lookups, four confirmations, two inline passes).
  The paging loops of \<open>Bybit_Costs\<close> end after \<open>MAX_PAGES\<close> pages as the code's do, and \<open>Bybit_Paging\<close> proves
  that this is enough for every history of fewer than 200,000 settlements. No other definition takes fuel.

  \<^bold>\<open>Abstractions.\<close> A database operation is one connection that commits or leaves the tables as they
  were; a connection that commits without its acknowledgement arriving is not distinguished from one
  that commits. Text length limits and the gaps of id sequences are left out. During one call the
  other tasks of the process are not interleaved, except where a theory says so (gate events, leases,
  histories of store calls by several executors).

  \<^bold>\<open>Not modelled.\<close> The handlers of \<open>orders.py\<close> that sequence the modelled parts and the SQL of
  \<open>journal.py\<close>; the service loops (\<open>trader.py\<close>, \<open>monitor.py\<close>, \<open>main.py\<close>, the workers around the costs,
  the probe and the incidents), which repeat modelled decisions over I/O; paper trading and the
  research strategies, which send no live order; exchange adapters, notifications and health records,
  which are I/O; the settings of \<open>config.py\<close> that no modelled decision reads; one-off repairs; and the
  separate programs of the repository (analytics, gateway, collectors, notifier, web client,
  deployment), which act on no account.
\<close>

end
